(* ===== verification/Prelude.thy ===== *)
theory Prelude
  imports Main "HOL-Library.Word"
begin

text \<open>
  What the components share: the machine integers of the C sources as words of their width, byte
  buffers as lists of octets with bounded reads and writes (\<open>rd\<close>, \<open>wr\<close>, the model of
  \<^verbatim>\<open>memcpy\<close> and of a block store through a pointer), octet-wise exclusive or (the model of
  \<^verbatim>\<open>*(UINT32*)p ^= *(UINT32*)q\<close>, which does not depend on the byte order), the splitting of
  a buffer into blocks, and the lemma collections that the component proofs pass to the simplifier.
\<close>

unbundle bit_operations_syntax

type_synonym u8 = "8 word"
type_synonym u16 = "16 word"
type_synonym u32 = "32 word"
type_synonym u64 = "64 word"
type_synonym bytes = "u8 list"

named_theorems mem_simps "reads and writes of byte buffers"
named_theorems dim_simps "lengths of buffers after an operation"

section \<open>Definitions\<close>

text \<open>\<open>rd m p n\<close>: the \<open>n\<close> octets at offset \<open>p\<close>; \<open>wr m p bs\<close>: the buffer after
  \<open>bs\<close> has been stored at offset \<open>p\<close>. The code never leaves its buffers where the
  theorems speak about it; every theorem says so in its premises.\<close>

definition rd :: "'a list \<Rightarrow> nat \<Rightarrow> nat \<Rightarrow> 'a list" where
  "rd m p n = take n (drop p m)"

definition wr :: "'a list \<Rightarrow> nat \<Rightarrow> 'a list \<Rightarrow> 'a list" where
  "wr m p bs = take p m @ bs @ drop (p + length bs) m"

definition xor_bytes :: "bytes \<Rightarrow> bytes \<Rightarrow> bytes" where
  "xor_bytes a b = map2 (XOR) a b"

text \<open>\<open>blocks n xs\<close>: the complete blocks of \<open>n\<close> elements at the front of \<open>xs\<close>.\<close>

fun nblocks :: "nat \<Rightarrow> nat \<Rightarrow> 'a list \<Rightarrow> 'a list list" where
  "nblocks n 0 xs = []"
| "nblocks n (Suc k) xs = take n xs # nblocks n k (drop n xs)"

definition blocks :: "nat \<Rightarrow> 'a list \<Rightarrow> 'a list list" where
  "blocks n xs = nblocks n (length xs div n) xs"

definition rest :: "nat \<Rightarrow> 'a list \<Rightarrow> 'a list" where
  "rest n xs = drop (length xs div n * n) xs"

section \<open>Octet buffers\<close>

lemma length_rd [dim_simps]: "p + n \<le> length m \<Longrightarrow> length (rd m p n) = n"
  by (simp add: rd_def)

lemma length_wr [dim_simps]: "p + length bs \<le> length m \<Longrightarrow> length (wr m p bs) = length m"
  by (simp add: wr_def)

lemma rd_wr_same [mem_simps]:
  "p + length bs \<le> length m \<Longrightarrow> n = length bs \<Longrightarrow> rd (wr m p bs) p n = bs"
  by (simp add: rd_def wr_def)

lemma rd_wr_before [mem_simps]:
  assumes "q + n \<le> p" and "p + length bs \<le> length m"
  shows "rd (wr m p bs) q n = rd m q n"
proof -
  have "take p (wr m p bs) = take p m"
    using assms by (simp add: wr_def)
  moreover have "rd xs q n = take n (drop q (take p xs))" for xs :: "'a list"
    using assms(1) by (simp add: rd_def drop_take min_def)
  ultimately show ?thesis by simp
qed

lemma rd_wr_after [mem_simps]:
  assumes "p + length bs \<le> q" and "p + length bs \<le> length m"
  shows "rd (wr m p bs) q n = rd m q n"
proof -
  have "drop q (wr m p bs) = drop q m"
    using assms by (simp add: wr_def)
  then show ?thesis by (simp add: rd_def)
qed

lemma wr_rd_same [mem_simps]: "p + n \<le> length m \<Longrightarrow> wr m p (rd m p n) = m"
  by (simp add: rd_def wr_def) (metis append_assoc append_take_drop_id take_add)

lemma wr_wr_same [mem_simps]:
  "length bs = length cs \<Longrightarrow> p + length bs \<le> length m \<Longrightarrow> wr (wr m p bs) p cs = wr m p cs"
  by (simp add: wr_def)

lemma wr_Nil [simp]: "wr m p [] = m"
  by (simp add: wr_def)

lemma wr_append:
  assumes "p + length bs + length cs \<le> length m"
  shows "wr m p (bs @ cs) = wr (wr m p bs) (p + length bs) cs"
  using assms by (simp add: wr_def add.commute add.left_commute)

lemma rd_split: "rd m p (a + b) = rd m p a @ rd m (p + a) b"
  by (simp add: rd_def take_add drop_drop add.commute)

lemma rd_all: "n = length m \<Longrightarrow> rd m 0 n = m"
  by (simp add: rd_def)

lemma wr_all: "length bs = length m \<Longrightarrow> wr m 0 bs = bs"
  by (simp add: wr_def)

lemma nth_rd: "i < n \<Longrightarrow> p + n \<le> length m \<Longrightarrow> rd m p n ! i = m ! (p + i)"
  by (simp add: rd_def)

lemma wr_rd_prefix: "p + n \<le> length m \<Longrightarrow> take p (wr m p bs) = take p m"
  by (simp add: wr_def)

section \<open>Exclusive or\<close>

lemma xor_cancel_left [simp]: "(a::'a::len word) XOR (a XOR b) = b"
  by (simp add: xor.assoc [symmetric])

lemma xor_cancel_right [simp]: "((a::'a::len word) XOR b) XOR b = a"
  by (simp add: xor.assoc)

lemma length_xor_bytes [simp]: "length (xor_bytes a b) = min (length a) (length b)"
  by (simp add: xor_bytes_def)

lemma xor_bytes_cancel [simp]: "length a = length b \<Longrightarrow> xor_bytes (xor_bytes a b) b = a"
  by (rule nth_equalityI) (auto simp: xor_bytes_def)

lemma xor_bytes_cancel_left [simp]: "length a = length b \<Longrightarrow> xor_bytes a (xor_bytes a b) = b"
  by (rule nth_equalityI) (auto simp: xor_bytes_def)

lemma xor_bytes_commute: "xor_bytes a b = xor_bytes b a"
  unfolding xor_bytes_def
  by (rule nth_equalityI) (auto simp: xor.commute)

lemma xor_bytes_cancel_outer [simp]: "length a = length b \<Longrightarrow> xor_bytes (xor_bytes b a) b = a"
  by (simp add: xor_bytes_commute [of b a])

lemma xor_bytes_Cons [simp]: "xor_bytes (x # xs) (y # ys) = (x XOR y) # xor_bytes xs ys"
  by (simp add: xor_bytes_def)

lemma xor_bytes_append:
  "length a = length c \<Longrightarrow> xor_bytes (a @ b) (c @ d) = xor_bytes a c @ xor_bytes b d"
  by (simp add: xor_bytes_def)

lemma xor_bytes_Nil [simp]: "xor_bytes [] ys = []" "xor_bytes xs [] = []"
  by (simp_all add: xor_bytes_def)

section \<open>Lists of a known length\<close>

lemma length_Suc_conv_ex: "length xs = Suc n \<longleftrightarrow> (\<exists>y ys. xs = y # ys \<and> length ys = n)"
  by (cases xs) auto

lemma length4E:
  assumes "length xs = 4"
  obtains a b c d where "xs = [a, b, c, d]"
  using assms by (auto simp: numeral_eq_Suc length_Suc_conv_ex)

lemma length16E:
  assumes "length xs = 16"
  obtains a0 a1 a2 a3 b0 b1 b2 b3 c0 c1 c2 c3 d0 d1 d2 d3
  where "xs = [a0, a1, a2, a3, b0, b1, b2, b3, c0, c1, c2, c3, d0, d1, d2, d3]"
  using assms by (auto simp: numeral_eq_Suc length_Suc_conv_ex)

section \<open>Blocks\<close>

lemma length_nblocks [simp]: "length (nblocks n k xs) = k"
  by (induction k arbitrary: xs) auto

lemma concat_nblocks: "k * n \<le> length xs \<Longrightarrow> concat (nblocks n k xs) = take (k * n) xs"
proof (induction k arbitrary: xs)
  case (Suc k)
  then have "concat (nblocks n k (drop n xs)) = take (k * n) (drop n xs)"
    by simp
  then show ?case by (simp add: take_add)
qed simp

lemma nblocks_length_mem: "k * n \<le> length xs \<Longrightarrow> b \<in> set (nblocks n k xs) \<Longrightarrow> length b = n"
proof (induction k arbitrary: xs)
  case (Suc k)
  from Suc.prems(1) have "k * n \<le> length (drop n xs)" by simp
  with Suc show ?case by (auto simp del: length_drop)
qed simp

lemma blocks_rest: "concat (blocks n xs) @ rest n xs = xs"
  by (simp add: blocks_def rest_def concat_nblocks)

lemma length_rest: "0 < n \<Longrightarrow> length (rest n xs) = length xs mod n"
  by (simp add: rest_def minus_div_mult_eq_mod)

lemma nblocks_append1: "length xs = n \<Longrightarrow> nblocks n (Suc k) (xs @ ys) = xs # nblocks n k ys"
  by simp

lemma nblocks_prefix: "k * n \<le> length xs \<Longrightarrow> nblocks n k (xs @ ys) = nblocks n k xs"
  by (induction k arbitrary: xs) auto

lemma nblocks_add: "nblocks n (j + k) xs = nblocks n j xs @ nblocks n k (drop (j * n) xs)"
  by (induction j arbitrary: xs) (simp_all add: drop_drop add.commute)

lemma blocks_append:
  assumes "0 < n"
  shows "blocks n (xs @ ys) = blocks n xs @ blocks n (rest n xs @ ys)"
proof -
  let ?j = "length xs div n"
  let ?r = "rest n xs @ ys"
  have "?j * n \<le> length xs" by simp
  then have len: "length (xs @ ys) = ?j * n + length ?r"
    unfolding rest_def by (simp del: div_times_less_eq_dividend)
  have "length (xs @ ys) div n = ?j + length ?r div n"
    unfolding len using assms by (simp add: add.commute)
  moreover have "drop (?j * n) (xs @ ys) = ?r"
    by (simp add: rest_def)
  moreover have "nblocks n ?j (xs @ ys) = nblocks n ?j xs"
    by (rule nblocks_prefix) simp
  ultimately show ?thesis by (simp add: blocks_def nblocks_add)
qed

lemma rest_append:
  assumes "0 < n"
  shows "rest n (xs @ ys) = rest n (rest n xs @ ys)"
proof -
  have "concat (blocks n (xs @ ys)) @ rest n (xs @ ys) =
      concat (blocks n xs) @ concat (blocks n (rest n xs @ ys)) @ rest n (rest n xs @ ys)"
    by (simp only: blocks_rest) (simp only: append_assoc [symmetric] blocks_rest)
  then have "concat (blocks n xs) @ concat (blocks n (rest n xs @ ys)) @ rest n (xs @ ys) =
      concat (blocks n xs) @ concat (blocks n (rest n xs @ ys)) @ rest n (rest n xs @ ys)"
    by (simp only: blocks_append [OF assms, of xs ys] concat_append append_assoc)
  then show ?thesis by (simp only: same_append_eq)
qed

lemma blocks_short [simp]: "length xs < n \<Longrightarrow> blocks n xs = []"
  by (simp add: blocks_def)

lemma rest_short [simp]: "length xs < n \<Longrightarrow> rest n xs = xs"
  by (simp add: rest_def)

lemma blocks_one [simp]: "length b = n \<Longrightarrow> 0 < n \<Longrightarrow> blocks n (b @ xs) = b # blocks n xs"
  using blocks_append [of n b xs] by (simp add: blocks_def rest_def)

lemma rest_one [simp]: "length b = n \<Longrightarrow> 0 < n \<Longrightarrow> rest n (b @ xs) = rest n xs"
  using rest_append [of n b xs] by (simp add: rest_def)

end
