(* ===== verification/Rijndael.thy ===== *)
theory Rijndael
  imports Rijndael_Tables
begin

text \<open>
  The cipher proper of \<^verbatim>\<open>rijndael.c\<close>: the \<^verbatim>\<open>Rijndael\<close> structure, session set-up
  (\<open>RijndaelCreate\<close>, \<open>RijndaelInit\<close>, \<open>RijndaelInvalidate\<close>), the key schedule
  (\<open>RijndaelKeySched\<close>, \<open>RijndaelKeyEncToDec\<close>) and the two block transformations
  (\<open>RijndaelEncrypt\<close>, \<open>RijndaelDecrypt\<close>). A cell of four octets that the C code moves with one
  \<^verbatim>\<open>UINT32\<close> access is a list of four octets, so nothing here depends on the byte order of the
  machine. The lemmas show that decryption with the transformed key schedule undoes encryption, for
  every number of rounds and every content of the schedule, and that the schedule written by
  \<open>RijndaelKeySched\<close> is the recurrence of the published standard for all three key lengths.
\<close>

section \<open>The session structure and its constants\<close>

abbreviation (input) RIJNDAEL_SUCCESS :: int where "RIJNDAEL_SUCCESS \<equiv> 0"
abbreviation (input) RIJNDAEL_UNSUPPORTED_MODE :: int where "RIJNDAEL_UNSUPPORTED_MODE \<equiv> -1"
abbreviation (input) RIJNDAEL_UNSUPPORTED_DIRECTION :: int where "RIJNDAEL_UNSUPPORTED_DIRECTION \<equiv> -2"
abbreviation (input) RIJNDAEL_UNSUPPORTED_KEY_LENGTH :: int where "RIJNDAEL_UNSUPPORTED_KEY_LENGTH \<equiv> -3"
abbreviation (input) RIJNDAEL_BAD_KEY :: int where "RIJNDAEL_BAD_KEY \<equiv> -4"
abbreviation (input) RIJNDAEL_NOT_INITIALIZED :: int where "RIJNDAEL_NOT_INITIALIZED \<equiv> -5"
abbreviation (input) RIJNDAEL_BAD_DIRECTION :: int where "RIJNDAEL_BAD_DIRECTION \<equiv> -6"
abbreviation (input) RIJNDAEL_CORRUPTED_DATA :: int where "RIJNDAEL_CORRUPTED_DATA \<equiv> -7"

abbreviation (input) Direction_Encrypt :: int where "Direction_Encrypt \<equiv> 0"
abbreviation (input) Direction_Decrypt :: int where "Direction_Decrypt \<equiv> 1"
abbreviation (input) Mode_ECB :: int where "Mode_ECB \<equiv> 0"
abbreviation (input) Mode_CBC :: int where "Mode_CBC \<equiv> 1"
abbreviation (input) Mode_CFB1 :: int where "Mode_CFB1 \<equiv> 2"
abbreviation (input) Key16Bytes :: int where "Key16Bytes \<equiv> 0"
abbreviation (input) Key24Bytes :: int where "Key24Bytes \<equiv> 1"
abbreviation (input) Key32Bytes :: int where "Key32Bytes \<equiv> 2"
abbreviation (input) State_Valid :: int where "State_Valid \<equiv> 0"
abbreviation (input) State_Invalid :: int where "State_Invalid \<equiv> 1"

text \<open>\<open>m_expandedKey[r][c][b]\<close> is octet \<open>b\<close> of cell \<open>c\<close> of round key \<open>r\<close>.\<close>

record Rijndael =
  m_state :: int
  m_mode :: int
  m_direction :: int
  m_initVector :: bytes
  m_uRounds :: nat
  m_expandedKey :: "bytes list list"

text \<open>The array bounds of the structure declaration: 15 round keys of four cells of four octets, and
  an initial vector of 16 octets. No operation changes them.\<close>

definition cells_ok :: "bytes list \<Rightarrow> bool" where
  "cells_ok k \<longleftrightarrow> length k = 4 \<and> list_all (\<lambda>w. length w = 4) k"

definition rijndael_dims :: "Rijndael \<Rightarrow> bool" where
  "rijndael_dims r \<longleftrightarrow>
     length (m_expandedKey r) = 15 \<and> list_all cells_ok (m_expandedKey r) \<and>
     length (m_initVector r) = 16"

section \<open>The key schedule\<close>

text \<open>One pass of the copy loop: column \<open>j\<close> of \<open>tempKey\<close> goes to position \<open>(r, t)\<close> of the round
  keys. The two nested loops of the source advance one column at a time: the inner loop stops at
  \<open>t = 4\<close>, where the outer one moves to the next round key and tests the round count again.\<close>

function (sequential) KeySched_copy ::
  "nat \<Rightarrow> nat \<Rightarrow> bytes list \<Rightarrow> nat \<Rightarrow> nat \<Rightarrow> nat \<Rightarrow> bytes list list \<Rightarrow> nat \<times> nat \<times> bytes list list" where
  "KeySched_copy uKeyColumns uRounds tempKey j r t ek =
     (if j < uKeyColumns \<and> r \<le> uRounds
      then let ek' = ek[r := (ek ! r)[t := tempKey ! j]]
           in if Suc t = 4 then KeySched_copy uKeyColumns uRounds tempKey (Suc j) (Suc r) 0 ek'
              else KeySched_copy uKeyColumns uRounds tempKey (Suc j) r (Suc t) ek'
      else (r, t, ek))"
  by pat_completeness auto
termination by (relation "measure (\<lambda>(n, _, _, j, _). n - j)") auto

text \<open>\<open>tempKey[j] ^= tempKey[j-1]\<close> for \<open>lo \<le> j < hi\<close>.\<close>

definition KeySched_chain :: "nat \<Rightarrow> nat \<Rightarrow> bytes list \<Rightarrow> bytes list" where
  "KeySched_chain lo hi tk = fold (\<lambda>j tk. tk[j := xor_bytes (tk ! j) (tk ! (j - 1))]) [lo..<hi] tk"

text \<open>The first column is combined with the S-box image of the rotated last one and with the round
  constant, of which only the low octet reaches the key.\<close>

definition KeySched_first :: "nat \<Rightarrow> nat \<Rightarrow> bytes list \<Rightarrow> bytes list" where
  "KeySched_first uKeyColumns rconpointer tk =
     (let l = tk ! (uKeyColumns - 1)
      in tk[0 := [(tk ! 0) ! 0 XOR Sb (l ! 1) XOR ucast (rcon ! rconpointer),
                  (tk ! 0) ! 1 XOR Sb (l ! 2),
                  (tk ! 0) ! 2 XOR Sb (l ! 3),
                  (tk ! 0) ! 3 XOR Sb (l ! 0)]])"

definition KeySched_middle :: "nat \<Rightarrow> bytes list \<Rightarrow> bytes list" where
  "KeySched_middle h tk = tk[h := xor_bytes (tk ! h) (map (\<lambda>x. Sb x) (tk ! (h - 1)))]"

definition KeySched_mix :: "nat \<Rightarrow> nat \<Rightarrow> bytes list \<Rightarrow> bytes list" where
  "KeySched_mix uKeyColumns rconpointer tk =
     (let tk1 = KeySched_first uKeyColumns rconpointer tk
      in if uKeyColumns \<noteq> 8 then KeySched_chain 1 uKeyColumns tk1
         else let h = uKeyColumns div 2
              in KeySched_chain (h + 1) uKeyColumns
                   (KeySched_middle h (KeySched_chain 1 h tk1)))"

text \<open>The \<^verbatim>\<open>while (r <= m_uRounds)\<close> loop, with fuel; every turn fills at least one round key,
  so \<open>m_uRounds + 1\<close> turns are enough.\<close>

fun KeySched_loop ::
  "nat \<Rightarrow> nat \<Rightarrow> nat \<Rightarrow> nat \<Rightarrow> bytes list \<Rightarrow> nat \<Rightarrow> nat \<Rightarrow> bytes list list \<Rightarrow> bytes list list option" where
  "KeySched_loop 0 uKeyColumns uRounds rconpointer tk r t ek = (if r \<le> uRounds then None else Some ek)"
| "KeySched_loop (Suc fuel) uKeyColumns uRounds rconpointer tk r t ek =
     (if r \<le> uRounds
      then let tk' = KeySched_mix uKeyColumns rconpointer tk;
               (r', t', ek') = KeySched_copy uKeyColumns uRounds tk' 0 r t ek
           in KeySched_loop fuel uKeyColumns uRounds (Suc rconpointer) tk' r' t' ek'
      else Some ek)"

definition RijndaelKeySched :: "Rijndael \<Rightarrow> bytes list \<Rightarrow> Rijndael option" where
  "RijndaelKeySched rijndael key =
     (let uKeyColumns = m_uRounds rijndael - 6;
          tempKey = take uKeyColumns key;
          (r, t, ek) = KeySched_copy uKeyColumns (m_uRounds rijndael) tempKey 0 0 0
                         (m_expandedKey rijndael)
      in map_option (\<lambda>ek'. rijndael\<lparr>m_expandedKey := ek'\<rparr>)
           (KeySched_loop (m_uRounds rijndael + 1) uKeyColumns (m_uRounds rijndael) 0 tempKey r t ek))"

text \<open>Inverse MixColumns on one cell, through the tables \<open>U1\<close> to \<open>U4\<close>.\<close>

definition inv_mix_cell :: "bytes \<Rightarrow> bytes" where
  "inv_mix_cell w =
     xor_bytes (xor_bytes (xor_bytes (U1 ! unat (w ! 0)) (U2 ! unat (w ! 1)))
       (U3 ! unat (w ! 2))) (U4 ! unat (w ! 3))"

definition RijndaelKeyEncToDec :: "Rijndael \<Rightarrow> Rijndael" where
  "RijndaelKeyEncToDec rijndael =
     rijndael\<lparr>m_expandedKey :=
       fold (\<lambda>r ek. ek[r := [inv_mix_cell (ek ! r ! 0), inv_mix_cell (ek ! r ! 1),
                             inv_mix_cell (ek ! r ! 2), inv_mix_cell (ek ! r ! 3)]])
         [1..<m_uRounds rijndael] (m_expandedKey rijndael)\<rparr>"

section \<open>Session set-up\<close>

definition RijndaelCreate :: "Rijndael \<Rightarrow> Rijndael" where
  "RijndaelCreate rijndael = rijndael\<lparr>m_state := State_Invalid\<rparr>"

definition RijndaelInvalidate :: "Rijndael \<Rightarrow> Rijndael" where
  "RijndaelInvalidate rijndael = rijndael\<lparr>m_state := State_Invalid\<rparr>"

text \<open>\<open>keyMatrix[i >> 2][i & 3] = key[i]\<close>.\<close>

definition keyMatrix :: "nat \<Rightarrow> bytes \<Rightarrow> bytes list" where
  "keyMatrix uKeyLenInBytes key = map (\<lambda>c. rd key (4 * c) 4) [0..<uKeyLenInBytes div 4]"

text \<open>Null pointers are \<open>None\<close>. The key schedule always returns for the three supported key lengths
  (\<open>KeySched_words\<close> below); the outer \<open>option\<close> is \<open>None\<close> only if it did not.\<close>

definition RijndaelInit ::
  "Rijndael \<Rightarrow> int \<Rightarrow> int \<Rightarrow> bytes option \<Rightarrow> int \<Rightarrow> bytes option \<Rightarrow> (int \<times> Rijndael) option" where
  "RijndaelInit rijndael mode dir key keyLen initVector =
     (let r0 = rijndael\<lparr>m_state := State_Invalid\<rparr>
      in if mode \<noteq> Mode_CBC \<and> mode \<noteq> Mode_ECB \<and> mode \<noteq> Mode_CFB1
         then Some (RIJNDAEL_UNSUPPORTED_MODE, r0)
         else let r1 = r0\<lparr>m_mode := mode\<rparr>
         in if dir \<noteq> Direction_Encrypt \<and> dir \<noteq> Direction_Decrypt
            then Some (RIJNDAEL_UNSUPPORTED_DIRECTION, r1)
            else let r2 = r1\<lparr>m_direction := dir,
                             m_initVector := (case initVector of Some iv \<Rightarrow> take 16 iv
                                              | None \<Rightarrow> replicate 16 0)\<rparr>
            in if keyLen \<noteq> Key16Bytes \<and> keyLen \<noteq> Key24Bytes \<and> keyLen \<noteq> Key32Bytes
               then Some (RIJNDAEL_UNSUPPORTED_KEY_LENGTH, r2)
               else let uKeyLenInBytes = (if keyLen = Key16Bytes then 16
                                          else if keyLen = Key24Bytes then 24 else 32);
                        r3 = r2\<lparr>m_uRounds := (if keyLen = Key16Bytes then 10
                                               else if keyLen = Key24Bytes then 12 else 14)\<rparr>
               in case key of None \<Rightarrow> Some (RIJNDAEL_BAD_KEY, r3)
                  | Some k \<Rightarrow>
                      (case RijndaelKeySched r3 (keyMatrix uKeyLenInBytes k) of None \<Rightarrow> None
                       | Some r4 \<Rightarrow>
                           let r5 = (if m_direction r4 = Direction_Decrypt
                                     then RijndaelKeyEncToDec r4 else r4)
                           in Some (RIJNDAEL_SUCCESS, r5\<lparr>m_state := State_Valid\<rparr>)))"

section \<open>The block transformations\<close>

text \<open>\<open>temp[c] = *(b + 4c) ^ m_expandedKey[r][c]\<close> for the four cells.\<close>

definition add_key :: "bytes \<Rightarrow> bytes list \<Rightarrow> bytes list" where
  "add_key b k = [xor_bytes (rd b 0 4) (k ! 0), xor_bytes (rd b 4 4) (k ! 1),
                  xor_bytes (rd b 8 4) (k ! 2), xor_bytes (rd b 12 4) (k ! 3)]"

definition xor4 :: "bytes \<Rightarrow> bytes \<Rightarrow> bytes \<Rightarrow> bytes \<Rightarrow> bytes" where
  "xor4 a b c d = xor_bytes (xor_bytes (xor_bytes a b) c) d"

text \<open>\<open>temp[i][j]\<close> as an index of a table.\<close>

definition ix :: "bytes list \<Rightarrow> nat \<Rightarrow> nat \<Rightarrow> nat" where
  "ix temp i j = unat (temp ! i ! j)"

definition enc_cells :: "bytes list \<Rightarrow> bytes" where
  "enc_cells temp =
     xor4 (T1 ! ix temp 0 0) (T2 ! ix temp 1 1) (T3 ! ix temp 2 2) (T4 ! ix temp 3 3) @
     xor4 (T1 ! ix temp 1 0) (T2 ! ix temp 2 1) (T3 ! ix temp 3 2) (T4 ! ix temp 0 3) @
     xor4 (T1 ! ix temp 2 0) (T2 ! ix temp 3 1) (T3 ! ix temp 0 2) (T4 ! ix temp 1 3) @
     xor4 (T1 ! ix temp 3 0) (T2 ! ix temp 0 1) (T3 ! ix temp 1 2) (T4 ! ix temp 2 3)"

definition enc_last :: "bytes list \<Rightarrow> bytes" where
  "enc_last temp =
     [T1 ! ix temp 0 0 ! 1, T1 ! ix temp 1 1 ! 1, T1 ! ix temp 2 2 ! 1, T1 ! ix temp 3 3 ! 1,
      T1 ! ix temp 1 0 ! 1, T1 ! ix temp 2 1 ! 1, T1 ! ix temp 3 2 ! 1, T1 ! ix temp 0 3 ! 1,
      T1 ! ix temp 2 0 ! 1, T1 ! ix temp 3 1 ! 1, T1 ! ix temp 0 2 ! 1, T1 ! ix temp 1 3 ! 1,
      T1 ! ix temp 3 0 ! 1, T1 ! ix temp 0 1 ! 1, T1 ! ix temp 1 2 ! 1, T1 ! ix temp 2 3 ! 1]"

definition RijndaelEncrypt :: "Rijndael \<Rightarrow> bytes \<Rightarrow> bytes" where
  "RijndaelEncrypt rijndael a =
     (let ek = m_expandedKey rijndael; n = m_uRounds rijndael;
          b0 = enc_cells (add_key a (ek ! 0));
          b1 = fold (\<lambda>r b. enc_cells (add_key b (ek ! r))) [1..<n - 1] b0;
          b2 = enc_last (add_key b1 (ek ! (n - 1)))
      in concat (add_key b2 (ek ! n)))"

definition dec_cells :: "bytes list \<Rightarrow> bytes" where
  "dec_cells temp =
     xor4 (T5 ! ix temp 0 0) (T6 ! ix temp 3 1) (T7 ! ix temp 2 2) (T8 ! ix temp 1 3) @
     xor4 (T5 ! ix temp 1 0) (T6 ! ix temp 0 1) (T7 ! ix temp 3 2) (T8 ! ix temp 2 3) @
     xor4 (T5 ! ix temp 2 0) (T6 ! ix temp 1 1) (T7 ! ix temp 0 2) (T8 ! ix temp 3 3) @
     xor4 (T5 ! ix temp 3 0) (T6 ! ix temp 2 1) (T7 ! ix temp 1 2) (T8 ! ix temp 0 3)"

definition dec_last :: "bytes list \<Rightarrow> bytes" where
  "dec_last temp =
     [S5 ! ix temp 0 0, S5 ! ix temp 3 1, S5 ! ix temp 2 2, S5 ! ix temp 1 3,
      S5 ! ix temp 1 0, S5 ! ix temp 0 1, S5 ! ix temp 3 2, S5 ! ix temp 2 3,
      S5 ! ix temp 2 0, S5 ! ix temp 1 1, S5 ! ix temp 0 2, S5 ! ix temp 3 3,
      S5 ! ix temp 3 0, S5 ! ix temp 2 1, S5 ! ix temp 1 2, S5 ! ix temp 0 3]"

definition RijndaelDecrypt :: "Rijndael \<Rightarrow> bytes \<Rightarrow> bytes" where
  "RijndaelDecrypt rijndael a =
     (let ek = m_expandedKey rijndael; n = m_uRounds rijndael;
          b0 = dec_cells (add_key a (ek ! n));
          b1 = fold (\<lambda>r b. dec_cells (add_key b (ek ! r))) (rev [2..<n]) b0;
          b2 = dec_last (add_key b1 (ek ! 1))
      in concat (add_key b2 (ek ! 0)))"

section \<open>Decryption undoes encryption\<close>

text \<open>Cells of a 16-octet block.\<close>

definition cells :: "bytes \<Rightarrow> bytes list" where
  "cells b = [rd b 0 4, rd b 4 4, rd b 8 4, rd b 12 4]"

lemma cells_okE:
  assumes "cells_ok k"
  obtains a0 a1 a2 a3 b0 b1 b2 b3 c0 c1 c2 c3 d0 d1 d2 d3
  where "k = [[a0, a1, a2, a3], [b0, b1, b2, b3], [c0, c1, c2, c3], [d0, d1, d2, d3]]"
proof -
  from assms obtain a b c d where k: "k = [a, b, c, d]"
    unfolding cells_ok_def by (elim conjE length4E)
  from assms k have "length a = 4" "length b = 4" "length c = 4" "length d = 4"
    by (auto simp: cells_ok_def)
  then show thesis using that k by (metis length4E)
qed

lemma cells_concat [simp]: "cells_ok k \<Longrightarrow> cells (concat k) = k"
  by (elim cells_okE) (simp add: cells_def rd_def)

lemma concat_cells [simp]: "length b = 16 \<Longrightarrow> concat (cells b) = b"
  by (elim length16E) (simp add: cells_def rd_def)

lemma cells_ok_cells [simp]: "length b = 16 \<Longrightarrow> cells_ok (cells b)"
  by (elim length16E) (simp add: cells_def rd_def cells_ok_def)

lemma length_concat_cells [simp]: "cells_ok k \<Longrightarrow> length (concat k) = 16"
  by (elim cells_okE) simp

lemma add_key_cells: "cells_ok k \<Longrightarrow> add_key b k = map2 xor_bytes (cells b) k"
  by (elim cells_okE) (simp add: add_key_def cells_def)

lemma cells_ok_map2_xor [simp]:
  "cells_ok k \<Longrightarrow> cells_ok l \<Longrightarrow> cells_ok (map2 xor_bytes k l)"
  by (elim cells_okE) (simp add: cells_ok_def)

lemma cells_ok_add_key [simp]: "length b = 16 \<Longrightarrow> cells_ok k \<Longrightarrow> cells_ok (add_key b k)"
  by (simp add: add_key_cells)

lemma map2_xor_cancel: "cells_ok k \<Longrightarrow> cells_ok l \<Longrightarrow> map2 xor_bytes (map2 xor_bytes k l) l = k"
  by (elim cells_okE) simp

lemma add_key_twice: "length b = 16 \<Longrightarrow> cells_ok k \<Longrightarrow> add_key (concat (add_key b k)) k = cells b"
  by (simp add: add_key_cells map2_xor_cancel)

lemma length_enc_last [simp]: "length (enc_last temp) = 16"
  by (simp add: enc_last_def)

lemma length_dec_last [simp]: "length (dec_last temp) = 16"
  by (simp add: dec_last_def)

lemma length_inv_mix_cell [simp]: "length w = 4 \<Longrightarrow> length (inv_mix_cell w) = 4"
  by (elim length4E) (simp add: inv_mix_cell_def U_lookup)

lemma length_enc_cells [simp]: "cells_ok temp \<Longrightarrow> length (enc_cells temp) = 16"
  by (elim cells_okE) (simp add: enc_cells_def xor4_def ix_def T_lookup)

lemma length_dec_cells [simp]: "cells_ok temp \<Longrightarrow> length (dec_cells temp) = 16"
  by (elim cells_okE) (simp add: dec_cells_def xor4_def ix_def T5_lookup U_lookup)

lemma cells_ok_map_inv_mix [simp]: "cells_ok k \<Longrightarrow> cells_ok (map inv_mix_cell k)"
  by (elim cells_okE) (simp add: cells_ok_def)

subsection \<open>Inverse MixColumns\<close>

lemmas xor_ac = xor.assoc xor.commute xor.left_commute

lemma inv_mix_cell_xor:
  assumes "length v = 4" and "length w = 4"
  shows "inv_mix_cell (xor_bytes v w) = xor_bytes (inv_mix_cell v) (inv_mix_cell w)"
  using assms by (elim length4E) (simp add: inv_mix_cell_def U_lookup mul_xor xor_ac)

lemma map_inv_mix_xor:
  "cells_ok k \<Longrightarrow> cells_ok l \<Longrightarrow>
   map inv_mix_cell (map2 xor_bytes k l) = map2 xor_bytes (map inv_mix_cell k) (map inv_mix_cell l)"
  by (elim cells_okE) (simp add: inv_mix_cell_def U_lookup mul_xor xor_ac)

text \<open>The column of the four table rows is a MixColumns product, which the \<open>U\<close> tables invert.\<close>

lemma inv_mix_mix:
  "inv_mix_cell (xor4 (T1 ! unat a) (T2 ! unat b) (T3 ! unat c) (T4 ! unat d)) =
   [Sb a, Sb b, Sb c, Sb d]"
  by (simp add: inv_mix_cell_def xor4_def T_lookup U_lookup mul_defs xor_ac)

lemma inv_mix_enc_cells:
  "cells_ok temp \<Longrightarrow> map inv_mix_cell (cells (enc_cells temp)) = cells (enc_last temp)"
proof (elim cells_okE)
  fix a0 a1 a2 a3 b0 b1 b2 b3 c0 c1 c2 c3 d0 d1 d2 d3
  assume t: "temp = [[a0, a1, a2, a3], [b0, b1, b2, b3], [c0, c1, c2, c3], [d0, d1, d2, d3]]"
  let ?q = "\<lambda>(a::u8) (b::u8) (c::u8) (d::u8). xor4 (T1 ! unat a) (T2 ! unat b) (T3 ! unat c) (T4 ! unat d)"
  have l: "length (?q a b c d) = 4" for a b c d
    by (simp add: xor4_def T_lookup)
  have "cells (enc_cells temp) =
      [?q a0 b1 c2 d3, ?q b0 c1 d2 a3, ?q c0 d1 a2 b3, ?q d0 a1 b2 c3]"
    by (simp add: t cells_def rd_def enc_cells_def ix_def l)
  then show ?thesis
    by (simp add: inv_mix_mix) (simp add: t cells_def rd_def enc_last_def ix_def T_lookup)
qed

lemma dec_cells_enc_last:
  "cells_ok temp \<Longrightarrow> dec_cells (cells (enc_last temp)) = concat (map inv_mix_cell temp)"
  by (elim cells_okE)
    (simp add: dec_cells_def enc_last_def cells_def rd_def ix_def T_lookup T5_lookup
      inv_mix_cell_def xor4_def)

lemma dec_last_enc_last: "cells_ok temp \<Longrightarrow> dec_last (cells (enc_last temp)) = concat temp"
  by (elim cells_okE) (simp add: dec_last_def enc_last_def cells_def rd_def ix_def T_lookup)

subsection \<open>The rounds\<close>

text \<open>The state before the substitution of round \<open>i + 1\<close>.\<close>

primrec enc_state :: "bytes list list \<Rightarrow> bytes \<Rightarrow> nat \<Rightarrow> bytes list" where
  "enc_state ek a 0 = add_key a (ek ! 0)"
| "enc_state ek a (Suc i) = add_key (enc_cells (enc_state ek a i)) (ek ! Suc i)"

definition keys_ok :: "nat \<Rightarrow> bytes list list \<Rightarrow> bool" where
  "keys_ok n ek \<longleftrightarrow> n < length ek \<and> list_all cells_ok ek"

lemma keys_ok_nth [simp]: "keys_ok n ek \<Longrightarrow> i \<le> n \<Longrightarrow> cells_ok (ek ! i)"
  by (simp add: keys_ok_def list_all_length)

lemma cells_ok_enc_state [simp]:
  "keys_ok n ek \<Longrightarrow> length a = 16 \<Longrightarrow> i \<le> n \<Longrightarrow> cells_ok (enc_state ek a i)"
  by (induction i) simp_all

lemma enc_loop:
  "fold (\<lambda>r b. enc_cells (add_key b (ek ! r))) [1..<Suc m] (enc_cells (enc_state ek a 0)) =
   enc_cells (enc_state ek a m)"
  by (induction m) simp_all

lemma RijndaelEncrypt_state:
  assumes "2 \<le> m_uRounds r"
  shows "RijndaelEncrypt r a =
    concat (add_key (enc_last (enc_state (m_expandedKey r) a (m_uRounds r - 1)))
      (m_expandedKey r ! m_uRounds r))"
proof -
  from assms obtain m where m: "m_uRounds r = Suc (Suc m)"
    by (metis add_2_eq_Suc le_Suc_ex)
  show ?thesis using enc_loop [of "m_expandedKey r" m a]
    by (simp add: RijndaelEncrypt_def Let_def m)
qed

lemma dec_step:
  assumes "keys_ok n ek" and "length a = 16" and "Suc i \<le> n"
  shows "add_key (concat (map inv_mix_cell (enc_state ek a (Suc i)))) (map inv_mix_cell (ek ! Suc i)) =
    cells (enc_last (enc_state ek a i))"
proof -
  let ?s = "enc_state ek a (Suc i)" and ?t = "enc_state ek a i" and ?k = "ek ! Suc i"
  have ok: "cells_ok ?s" "cells_ok ?t" "cells_ok ?k"
    using assms by (simp_all del: enc_state.simps)
  have "add_key (concat (map inv_mix_cell ?s)) (map inv_mix_cell ?k) =
      map inv_mix_cell (map2 xor_bytes ?s ?k)"
    using ok by (simp add: add_key_cells map_inv_mix_xor del: enc_state.simps map_map)
  also have "map2 xor_bytes ?s ?k = cells (enc_cells ?t)"
    using ok by (simp add: add_key_cells map2_xor_cancel)
  also have "map inv_mix_cell \<dots> = cells (enc_last ?t)"
    using ok(2) by (rule inv_mix_enc_cells)
  finally show ?thesis .
qed

lemma dec_loop:
  assumes "keys_ok n ek" and "length a = 16" and "Suc m \<le> n"
    and dk: "\<And>i. 1 \<le> i \<Longrightarrow> i \<le> Suc m \<Longrightarrow> dk ! i = map inv_mix_cell (ek ! i)"
  shows "fold (\<lambda>r b. dec_cells (add_key b (dk ! r))) (rev [2..<Suc (Suc m)])
      (concat (map inv_mix_cell (enc_state ek a (Suc m)))) =
    concat (map inv_mix_cell (enc_state ek a 1))"
  using assms(3) dk
proof (induction m)
  case (Suc m)
  have "add_key (concat (map inv_mix_cell (enc_state ek a (Suc (Suc m))))) (dk ! Suc (Suc m)) =
      cells (enc_last (enc_state ek a (Suc m)))"
    using dec_step [OF assms(1,2), of "Suc m"] Suc.prems by (simp del: enc_state.simps)
  moreover have "dec_cells (cells (enc_last (enc_state ek a (Suc m)))) =
      concat (map inv_mix_cell (enc_state ek a (Suc m)))"
    using assms(1,2) Suc.prems(1) by (intro dec_cells_enc_last) (simp del: enc_state.simps)
  ultimately show ?case
    using Suc by (simp del: enc_state.simps)
qed simp

subsection \<open>The decryption keys\<close>

definition dec_key :: "bytes list \<Rightarrow> bytes list" where
  "dec_key k = [inv_mix_cell (k ! 0), inv_mix_cell (k ! 1), inv_mix_cell (k ! 2), inv_mix_cell (k ! 3)]"

lemma dec_key_map: "cells_ok k \<Longrightarrow> dec_key k = map inv_mix_cell k"
  by (elim cells_okE) (simp add: dec_key_def)

lemma fold_upd_nth:
  "i < length ek \<Longrightarrow>
   fold (\<lambda>r ek. ek[r := f (ek ! r)]) [lo..<hi] ek ! i = (if lo \<le> i \<and> i < hi then f (ek ! i) else ek ! i)"
proof (induction hi)
  case (Suc hi)
  have len: "length (fold (\<lambda>r ek. ek[r := f (ek ! r)]) rs ek) = length ek" for rs
    by (induction rs arbitrary: ek) simp_all
  show ?case
  proof (cases "i = hi")
    case True
    with Suc show ?thesis by (cases "lo \<le> hi") (auto simp: len)
  next
    case False
    with Suc show ?thesis by (cases "lo \<le> hi") auto
  qed
qed simp

lemma KeyEncToDec_nth:
  "i < length (m_expandedKey r) \<Longrightarrow>
   m_expandedKey (RijndaelKeyEncToDec r) ! i =
   (if 1 \<le> i \<and> i < m_uRounds r then dec_key (m_expandedKey r ! i) else m_expandedKey r ! i)"
  unfolding RijndaelKeyEncToDec_def dec_key_def
  using fold_upd_nth [of i "m_expandedKey r" "\<lambda>k. [inv_mix_cell (k ! 0), inv_mix_cell (k ! 1),
    inv_mix_cell (k ! 2), inv_mix_cell (k ! 3)]" 1 "m_uRounds r"] by simp

lemma KeyEncToDec_fields [simp]:
  "m_uRounds (RijndaelKeyEncToDec r) = m_uRounds r"
  "m_initVector (RijndaelKeyEncToDec r) = m_initVector r"
  "m_mode (RijndaelKeyEncToDec r) = m_mode r"
  "m_direction (RijndaelKeyEncToDec r) = m_direction r"
  by (simp_all add: RijndaelKeyEncToDec_def)

text \<open>A schedule with its key columns in place: what encryption needs of a session.\<close>

definition rijndael_ready :: "Rijndael \<Rightarrow> bool" where
  "rijndael_ready r \<longleftrightarrow> 2 \<le> m_uRounds r \<and> keys_ok (m_uRounds r) (m_expandedKey r)"

lemma Decrypt_Encrypt:
  assumes "rijndael_ready r" and "length a = 16"
  shows "RijndaelDecrypt (RijndaelKeyEncToDec r) (RijndaelEncrypt r a) = a"
proof -
  let ?n = "m_uRounds r" and ?ek = "m_expandedKey r" and ?d = "RijndaelKeyEncToDec r"
  let ?dk = "m_expandedKey ?d" and ?s = "enc_state (m_expandedKey r) a"
  from assms obtain m where m: "?n = Suc (Suc m)" and ok: "keys_ok ?n ?ek"
    unfolding rijndael_ready_def by (metis add_2_eq_Suc le_Suc_ex)
  have dk: "?dk ! i = (if 1 \<le> i \<and> i < ?n then map inv_mix_cell (?ek ! i) else ?ek ! i)" if "i \<le> ?n" for i
    using that ok KeyEncToDec_nth [of i r] by (simp add: keys_ok_def dec_key_map list_all_length)
  have sok: "cells_ok (?s i)" if "i \<le> ?n" for i
    using ok assms(2) that by (rule cells_ok_enc_state)
  have 1: "add_key (RijndaelEncrypt r a) (?dk ! ?n) = cells (enc_last (?s (Suc m)))"
    using assms(1) ok dk [of ?n]
    by (simp add: RijndaelEncrypt_state rijndael_ready_def m add_key_twice del: enc_state.simps)
  have 2: "fold (\<lambda>r b. dec_cells (add_key b (?dk ! r))) (rev [2..<Suc (Suc m)])
      (dec_cells (add_key (RijndaelEncrypt r a) (?dk ! ?n))) = concat (map inv_mix_cell (?s 1))"
  proof -
    have "dec_cells (cells (enc_last (?s (Suc m)))) = concat (map inv_mix_cell (?s (Suc m)))"
      by (rule dec_cells_enc_last, rule sok) (simp add: m)
    moreover have "fold (\<lambda>r b. dec_cells (add_key b (?dk ! r))) (rev [2..<Suc (Suc m)])
        (concat (map inv_mix_cell (?s (Suc m)))) = concat (map inv_mix_cell (?s 1))"
      by (rule dec_loop [OF ok assms(2)]) (simp_all add: m dk del: enc_state.simps)
    ultimately show ?thesis by (simp only: 1)
  qed
  have 3: "add_key (concat (map inv_mix_cell (?s 1))) (?dk ! 1) = cells (enc_last (?s 0))"
    using dec_step [OF ok assms(2), of 0] dk [of 1] by (simp add: m del: enc_state.simps)
  have 4: "concat (add_key (concat (?s 0)) (?dk ! 0)) = a"
    using ok assms(2) dk [of 0] by (simp add: add_key_twice)
  show ?thesis
    unfolding RijndaelDecrypt_def Let_def KeyEncToDec_fields(1) m
    using 2 3 4 sok [of 0] by (simp add: m dec_last_enc_last del: enc_state.simps)
qed

lemma length_Encrypt [simp]:
  assumes "rijndael_ready r" shows "length (RijndaelEncrypt r a) = 16"
proof -
  from assms have "2 \<le> m_uRounds r" and "cells_ok (m_expandedKey r ! m_uRounds r)"
    by (auto simp: rijndael_ready_def)
  then show ?thesis by (simp add: RijndaelEncrypt_state)
qed

section \<open>The key schedule is the recurrence of the standard\<close>

text \<open>Column \<open>q\<close> of the round keys, and the words \<open>w[q]\<close> of the published key expansion for a key
  of \<open>nk\<close> columns.\<close>

definition key_col :: "bytes list list \<Rightarrow> nat \<Rightarrow> bytes" where
  "key_col ek q = ek ! (q div 4) ! (q mod 4)"

function key_word :: "nat \<Rightarrow> bytes list \<Rightarrow> nat \<Rightarrow> bytes" where
  "key_word nk key i =
     (if nk = 0 \<or> i < nk then key ! i
      else let p = key_word nk key (i - 1);
               t = (if i mod nk = 0
                    then [Sb (p ! 1) XOR ucast (rcon ! (i div nk - 1)), Sb (p ! 2), Sb (p ! 3), Sb (p ! 0)]
                    else if 6 < nk \<and> i mod nk = 4 then map (\<lambda>x. Sb x) p else p)
           in xor_bytes (key_word nk key (i - nk)) t)"
  by pat_completeness auto
termination by (relation "measure (\<lambda>(_, _, i). i)") auto

declare key_word.simps [simp del]
declare KeySched_copy.simps [simp del]

lemma length_key_word:
  assumes "0 < nk" and "length key = nk" and "list_all (\<lambda>w. length w = 4) key"
  shows "length (key_word nk key i) = 4"
  using assms
proof (induction nk key i rule: key_word.induct)
  case (1 nk key i)
  show ?case
  proof (cases "i < nk")
    case True
    with 1 show ?thesis by (simp add: key_word.simps [of nk key i] list_all_length)
  next
    case False
    with 1 have "length (key_word nk key (i - 1)) = 4" "length (key_word nk key (i - nk)) = 4"
      by simp_all
    with False 1(3) show ?thesis by (simp add: key_word.simps [of nk key i] Let_def)
  qed
qed

subsection \<open>The copy loop\<close>

definition ek_ok :: "bytes list list \<Rightarrow> bool" where
  "ek_ok ek \<longleftrightarrow> length ek = 15 \<and> list_all cells_ok ek"

lemma ek_ok_update:
  "ek_ok ek \<Longrightarrow> length w = 4 \<Longrightarrow> ek_ok (ek[r := (ek ! r)[t := w]])"
  unfolding ek_ok_def cells_ok_def list_all_length
  by (cases "r < 15"; cases "t < 4")
    (auto simp: nth_list_update list_update_beyond split: if_splits)

lemma key_col_update:
  assumes "ek_ok ek" and "r < 15" and "t < 4"
  shows "key_col (ek[r := (ek ! r)[t := w]]) q = (if q = 4 * r + t then w else key_col ek q)"
proof (cases "q div 4 = r")
  case True
  then have "q = 4 * r + q mod 4" by auto
  moreover have "length (ek ! r) = 4"
    using assms by (simp add: ek_ok_def cells_ok_def list_all_length)
  ultimately show ?thesis
    using True assms by (auto simp: key_col_def ek_ok_def nth_list_update)
next
  case False
  then have "q \<noteq> 4 * r + t" using assms(3) by auto
  with False show ?thesis by (simp add: key_col_def)
qed

lemma KeySched_copy_spec:
  assumes "KeySched_copy nk R tk j r t ek = (r', t', ek')"
    and "t < 4" and "R < 15" and "4 * r + t \<le> 4 * (R + 1)" and "j \<le> nk"
    and "ek_ok ek" and "length tk = nk" and "list_all (\<lambda>w. length w = 4) tk"
  shows "4 * r' + t' = 4 * r + t + min (nk - j) (4 * (R + 1) - (4 * r + t)) \<and> t' < 4 \<and> ek_ok ek' \<and>
    (\<forall>q. key_col ek' q = (if 4 * r + t \<le> q \<and> q < 4 * r' + t'
                          then tk ! (j + q - (4 * r + t)) else key_col ek q))"
  using assms
proof (induction nk R tk j r t ek arbitrary: r' t' ek' rule: KeySched_copy.induct)
  case (1 nk R tk j r t ek)
  show ?case
  proof (cases "j < nk \<and> r \<le> R")
    case False
    then show ?thesis using 1(3-) by (auto simp: KeySched_copy.simps [of nk R tk j r t ek])
  next
    case True
    let ?ek = "ek[r := (ek ! r)[t := tk ! j]]"
    let ?p = "4 * r + t" and ?M = "4 * (R + 1)"
    have w: "length (tk ! j) = 4" using True 1 by (simp add: list_all_length)
    have ok: "ek_ok ?ek" using 1(8) w by (rule ek_ok_update)
    have col: "key_col ?ek q = (if q = ?p then tk ! j else key_col ek q)" for q
      using 1 True by (intro key_col_update) auto
    have nxt: "4 * r' + t' = Suc ?p + min (nk - Suc j) (?M - Suc ?p) \<and> t' < 4 \<and> ek_ok ek' \<and>
      (\<forall>q. key_col ek' q = (if Suc ?p \<le> q \<and> q < 4 * r' + t'
                            then tk ! (Suc j + q - Suc ?p) else key_col ?ek q))"
    proof (cases "Suc t = 4")
      case t4: True
      have "KeySched_copy nk R tk (Suc j) (Suc r) 0 ?ek = (r', t', ek')"
        using 1(3) True t4 by (simp add: KeySched_copy.simps [of nk R tk j r t ek])
      from "1.IH"(1) [OF True refl t4 this _ 1(5) _ _ ok 1(9,10)] 1(4,6) True t4
      show ?thesis by simp
    next
      case t4: False
      have "KeySched_copy nk R tk (Suc j) r (Suc t) ?ek = (r', t', ek')"
        using 1(3) True t4 by (simp add: KeySched_copy.simps [of nk R tk j r t ek])
      from "1.IH"(2) [OF True refl t4 this _ 1(5) _ _ ok 1(9,10)] 1(4,6) True t4
      show ?thesis by simp
    qed
    have end_eq: "4 * r' + t' = ?p + min (nk - j) (?M - ?p)"
      using nxt True 1(4) by auto
    have "key_col ek' q = (if ?p \<le> q \<and> q < 4 * r' + t' then tk ! (j + q - ?p) else key_col ek q)" for q
      using nxt col [of q] by (cases "q = ?p") (auto simp: not_le less_Suc_eq_le)
    with end_eq nxt show ?thesis by blast
  qed
qed

subsection \<open>One turn of the schedule\<close>

lemma length_KeySched_chain [simp]: "length (KeySched_chain lo hi tk) = length tk"
proof -
  have "length (fold (\<lambda>j tk. tk[j := xor_bytes (tk ! j) (tk ! (j - 1))]) js tk) = length tk" for js
    by (induction js arbitrary: tk) simp_all
  then show ?thesis by (simp add: KeySched_chain_def)
qed

lemma KeySched_chain_Suc:
  "lo \<le> hi \<Longrightarrow> KeySched_chain lo (Suc hi) tk =
     (let c = KeySched_chain lo hi tk in c[hi := xor_bytes (c ! hi) (c ! (hi - 1))])"
  by (simp add: KeySched_chain_def Let_def)

lemma KeySched_chain_nth:
  assumes "0 < lo" and "hi \<le> length tk" and "j < length tk"
  shows "KeySched_chain lo hi tk ! j =
    (if lo \<le> j \<and> j < hi then xor_bytes (tk ! j) (KeySched_chain lo hi tk ! (j - 1)) else tk ! j)"
  using assms(2,3)
proof (induction hi arbitrary: j)
  case 0
  then show ?case by (simp add: KeySched_chain_def)
next
  case (Suc hi)
  show ?case
  proof (cases "lo \<le> hi")
    case True
    let ?c = "KeySched_chain lo hi tk"
    have hi: "?c ! hi = tk ! hi"
      using Suc.IH [of hi] Suc.prems by simp
    have c': "KeySched_chain lo (Suc hi) tk = ?c[hi := xor_bytes (tk ! hi) (?c ! (hi - 1))]"
      using True hi by (simp add: KeySched_chain_Suc Let_def)
    consider "j = hi" | "j < hi" | "hi < j" by linarith
    then show ?thesis
    proof cases
      case 1
      with True assms(1) Suc.prems show ?thesis by (simp add: c')
    next
      case 2
      with Suc.IH [of j] Suc.prems show ?thesis by (simp add: c')
    next
      case 3
      with Suc.IH [of j] Suc.prems show ?thesis by (simp add: c')
    qed
  next
    case False
    then show ?thesis by (auto simp: KeySched_chain_def)
  qed
qed

text \<open>A turn maps the words \<open>w[b], \<dots>, w[b + nk - 1]\<close> to the next \<open>nk\<close> words.\<close>

definition holds_words :: "nat \<Rightarrow> bytes list \<Rightarrow> nat \<Rightarrow> bytes list \<Rightarrow> bool" where
  "holds_words nk key b tk \<longleftrightarrow> length tk = nk \<and> (\<forall>j<nk. tk ! j = key_word nk key (b + j))"

lemma key_word_first:
  assumes "0 < nk"
  shows "key_word nk key (nk * Suc c) =
    (let p = key_word nk key (nk * c + (nk - 1))
     in xor_bytes (key_word nk key (nk * c))
          [Sb (p ! 1) XOR ucast (rcon ! c), Sb (p ! 2), Sb (p ! 3), Sb (p ! 0)])"
proof -
  have "nk * c + (nk - 1) = nk * Suc c - 1" "nk * c = nk * Suc c - nk" using assms by simp_all
  then show ?thesis
    using assms by (simp add: key_word.simps [of nk key "nk * Suc c"] Let_def del: mult_Suc_right)
qed

lemma key_word_step:
  assumes "0 < j" and "j < nk"
  shows "key_word nk key (nk * Suc c + j) =
    xor_bytes (key_word nk key (nk * c + j))
      (if 6 < nk \<and> j = 4 then map (\<lambda>x. Sb x) (key_word nk key (nk * Suc c + (j - 1)))
       else key_word nk key (nk * Suc c + (j - 1)))"
proof -
  let ?i = "nk * Suc c + j"
  have "?i mod nk = j" using assms by (simp del: mult_Suc_right)
  moreover have i: "?i = nk + (nk * c + j)" by simp
  moreover have "?i - nk = nk * c + j" unfolding i by (rule diff_add_inverse)
  moreover have "\<not> ?i < nk" unfolding i by (rule not_add_less1)
  moreover have "?i - 1 = nk * Suc c + (j - 1)" using assms(1) by (simp del: mult_Suc_right)
  moreover have "nk \<noteq> 0" using assms(2) by simp
  ultimately show ?thesis
    using assms by (subst key_word.simps) (simp only: Let_def if_False simp_thms neq0_conv [THEN iffD2])
qed

lemma chain_words:
  assumes "0 < lo" and "hi \<le> nk" and "length x = nk" and "lo - 1 < nk"
    and old: "\<And>j. lo \<le> j \<Longrightarrow> j < hi \<Longrightarrow> x ! j = key_word nk key (nk * c + j)"
    and new: "x ! (lo - 1) = key_word nk key (nk * Suc c + (lo - 1))"
    and plain: "nk \<le> 6 \<or> hi \<le> 4 \<or> 4 < lo"
    and "lo - 1 \<le> j" and "j < max lo hi"
  shows "KeySched_chain lo hi x ! j = key_word nk key (nk * Suc c + j)"
  using assms(8,9)
proof (induction j rule: dec_induct)
  case base
  have "KeySched_chain lo hi x ! (lo - 1) = x ! (lo - 1)"
    using assms(1-4) by (subst KeySched_chain_nth) auto
  then show ?case by (simp only: new)
next
  case (step j)
  have j: "lo \<le> Suc j" "Suc j < hi" using step.hyps step.prems assms(1) by auto
  then have "KeySched_chain lo hi x ! Suc j = xor_bytes (x ! Suc j) (KeySched_chain lo hi x ! j)"
    using assms(1-3) KeySched_chain_nth [of lo hi x "Suc j"] by simp
  also have "\<dots> = xor_bytes (key_word nk key (nk * c + Suc j)) (key_word nk key (nk * Suc c + j))"
    using j step old [of "Suc j"] by simp
  also have "\<dots> = key_word nk key (nk * Suc c + Suc j)"
    using j assms(2) plain key_word_step [of "Suc j" nk key c] by (auto simp del: mult_Suc_right)
  finally show ?case .
qed

lemma KeySched_first_words:
  assumes "0 < nk" and "holds_words nk key (nk * c) tk" and "length (key_word nk key (nk * c)) = 4"
  shows "length (KeySched_first nk c tk) = nk"
    and "KeySched_first nk c tk ! 0 = key_word nk key (nk * Suc c)"
    and "\<And>j. 0 < j \<Longrightarrow> j < nk \<Longrightarrow> KeySched_first nk c tk ! j = key_word nk key (nk * c + j)"
proof -
  from assms(3) obtain a b d e where k: "key_word nk key (nk * c) = [a, b, d, e]" by (rule length4E)
  have "tk ! (nk - 1) = key_word nk key (nk * c + (nk - 1))" "tk ! 0 = [a, b, d, e]"
    using assms(1,2) k by (auto simp: holds_words_def)
  then show "KeySched_first nk c tk ! 0 = key_word nk key (nk * Suc c)"
    using assms(1,2) by (simp add: KeySched_first_def holds_words_def Let_def key_word_first k
      xor_ac del: mult_Suc_right)
qed (use assms in \<open>auto simp: KeySched_first_def holds_words_def Let_def\<close>)

lemma KeySched_mix_words:
  assumes nk: "nk = 4 \<or> nk = 6 \<or> nk = 8" and tk: "holds_words nk key (nk * c) tk"
    and len: "length (key_word nk key (nk * c)) = 4"
  shows "holds_words nk key (nk * Suc c) (KeySched_mix nk c tk)"
proof -
  have "0 < nk" using nk by auto
  note f = KeySched_first_words [OF this tk len]
  let ?x = "KeySched_first nk c tk"
  have chain: "KeySched_chain 1 hi ?x ! j = key_word nk key (nk * Suc c + j)"
    if "hi \<le> nk" "nk \<le> 6 \<or> hi \<le> 4" "j < hi" for hi j
    by (rule chain_words) (use f that nk in auto)
  show ?thesis
  proof (cases "nk = 8")
    case False
    then show ?thesis using nk f chain [of nk] by (auto simp: KeySched_mix_def holds_words_def)
  next
    case True
    let ?y = "KeySched_chain 1 4 ?x" and ?z = "KeySched_middle 4 (KeySched_chain 1 4 ?x)"
    have y: "?y ! j = key_word nk key (nk * c + j)" if "4 \<le> j" "j < nk" for j
      using f that KeySched_chain_nth [of 1 4 ?x j] True by simp
    have z4: "?z ! 4 = key_word nk key (nk * Suc c + 4)"
      using y [of 4] chain [of 4 3] key_word_step [of 4 nk key c] f(1) True
      by (simp add: KeySched_middle_def del: mult_Suc_right)
    have zj: "?z ! j = ?y ! j" if "j \<noteq> 4" for j
      using that by (simp add: KeySched_middle_def)
    have hi: "KeySched_chain 5 8 ?z ! j = key_word nk key (nk * Suc c + j)" if "4 \<le> j" "j < 8" for j
      by (rule chain_words) (use f(1) that True z4 zj y in \<open>auto simp: KeySched_middle_def\<close>)
    have lo: "KeySched_chain 5 8 ?z ! j = key_word nk key (nk * Suc c + j)" if "j < 4" for j
      using KeySched_chain_nth [of 5 8 ?z j] chain [of 4 j] that f(1) True
      by (simp add: KeySched_middle_def)
    have "KeySched_chain 5 8 ?z ! j = key_word nk key (nk * Suc c + j)" if "j < 8" for j
      using lo hi that by (cases "j < 4") auto
    then show ?thesis using True f(1)
      by (simp add: KeySched_mix_def holds_words_def KeySched_middle_def Let_def)
  qed
qed

subsection \<open>The whole schedule\<close>

definition sched_inv :: "nat \<Rightarrow> nat \<Rightarrow> bytes list \<Rightarrow> nat \<Rightarrow> bytes list \<Rightarrow> nat \<Rightarrow> nat \<Rightarrow> bytes list list \<Rightarrow> bool" where
  "sched_inv nk R key c tk r t ek \<longleftrightarrow>
     holds_words nk key (nk * c) tk \<and> t < 4 \<and> ek_ok ek \<and>
     4 * r + t = min (nk * Suc c) (4 * (R + 1)) \<and>
     (\<forall>q < 4 * r + t. key_col ek q = key_word nk key q)"

lemma sched_inv_copy:
  assumes "R < 15" and tk: "holds_words nk key (nk * c) tk" "list_all (\<lambda>w. length w = 4) tk"
    and st: "t < 4" "ek_ok ek" "4 * r + t = min (nk * c) (4 * (R + 1))"
    and cols: "\<forall>q < 4 * r + t. key_col ek q = key_word nk key q"
    and cp: "KeySched_copy nk R tk 0 r t ek = (r', t', ek')"
  shows "sched_inv nk R key c tk r' t' ek'"
proof -
  have len: "length tk = nk" using tk(1) by (simp add: holds_words_def)
  have s: "4 * r' + t' = 4 * r + t + min nk (4 * (R + 1) - (4 * r + t))" "t' < 4" "ek_ok ek'"
    and q: "\<And>q. key_col ek' q = (if 4 * r + t \<le> q \<and> q < 4 * r' + t'
                                 then tk ! (q - (4 * r + t)) else key_col ek q)"
    using KeySched_copy_spec [OF cp st(1) assms(1) _ _ st(2) len tk(2)] st(3) by auto
  have "key_col ek' p = key_word nk key p" if "p < 4 * r' + t'" for p
  proof (cases "4 * r + t \<le> p")
    case True
    with that s st(3) have "4 * r + t = nk * c" "p - nk * c < nk" by auto
    with True that q [of p] tk(1) show ?thesis by (simp add: holds_words_def)
  next
    case False
    with q [of p] cols show ?thesis by simp
  qed
  moreover have "4 * r' + t' = min (nk * Suc c) (4 * (R + 1))"
    using s(1) st(3) by (simp add: min_def split: if_splits)
  ultimately show ?thesis using s tk(1) by (simp add: sched_inv_def)
qed

lemma sched_progress:
  fixes a :: nat
  assumes "4 * r' + t' = min (a + n) (4 * (R + 1))" and "t' < 4" and "4 * r + t = min a (4 * (R + 1))"
    and "t < 4" and "4 \<le> n" and "r \<le> R"
  shows "r < r'"
  using assms by (simp add: min_def split: if_splits)

lemma KeySched_loop_words:
  assumes nk: "nk = 4 \<or> nk = 6 \<or> nk = 8" and "R < 15"
    and key: "length key = nk" "list_all (\<lambda>w. length w = 4) key"
    and inv: "sched_inv nk R key c tk r t ek" and fuel: "R < r + fuel"
  shows "\<exists>ek'. KeySched_loop fuel nk R c tk r t ek = Some ek' \<and> ek_ok ek' \<and>
    (\<forall>q < 4 * (R + 1). key_col ek' q = key_word nk key q)"
  using inv fuel
proof (induction fuel arbitrary: c tk r t ek)
  case 0
  then show ?case by (auto simp: sched_inv_def)
next
  case (Suc fuel)
  show ?case
  proof (cases "r \<le> R")
    case False
    with Suc.prems show ?thesis by (auto simp: sched_inv_def)
  next
    case True
    let ?tk = "KeySched_mix nk c tk"
    obtain r' t' ek' where cp: "KeySched_copy nk R ?tk 0 r t ek = (r', t', ek')"
      by (metis prod_cases3)
    have "0 < nk" using nk by auto
    note kl = length_key_word [OF this key]
    from Suc.prems(1) have tk: "holds_words nk key (nk * c) tk" by (simp add: sched_inv_def)
    have w: "holds_words nk key (nk * Suc c) ?tk"
      by (rule KeySched_mix_words [OF nk tk kl])
    then have "list_all (\<lambda>w. length w = 4) ?tk"
      by (simp add: holds_words_def list_all_length kl)
    from sched_inv_copy [OF assms(2) w this _ _ _ _ cp] Suc.prems(1)
    have inv: "sched_inv nk R key (Suc c) ?tk r' t' ek'"
      by (simp add: sched_inv_def del: mult_Suc_right)
    have "4 * r' + t' = min (nk * Suc c + nk) (4 * (R + 1))" "t' < 4"
      using inv by (simp_all add: sched_inv_def add.commute)
    moreover have "4 * r + t = min (nk * Suc c) (4 * (R + 1))" "t < 4" "R < r + Suc fuel"
      using Suc.prems by (simp_all add: sched_inv_def)
    moreover have "4 \<le> nk" using nk by auto
    ultimately have "R < r' + fuel" using True sched_progress [of r' t' "nk * Suc c" nk R r t] by simp
    from Suc.IH [OF inv this] True cp show ?thesis by simp
  qed
qed

lemma KeySched_words:
  assumes nk: "nk = 4 \<or> nk = 6 \<or> nk = 8" and R: "m_uRounds r = nk + 6"
    and key: "length key = nk" "list_all (\<lambda>w. length w = 4) key" and ek: "ek_ok (m_expandedKey r)"
  shows "\<exists>ek'. RijndaelKeySched r key = Some (r\<lparr>m_expandedKey := ek'\<rparr>) \<and> ek_ok ek' \<and>
    (\<forall>q < 4 * (m_uRounds r + 1). key_col ek' q = key_word nk key q)"
proof -
  obtain r' t' ek' where cp: "KeySched_copy nk (nk + 6) key 0 0 0 (m_expandedKey r) = (r', t', ek')"
    by (metis prod_cases3)
  have "holds_words nk key (nk * 0) key"
    using key(1) by (simp add: holds_words_def key_word.simps)
  from sched_inv_copy [OF _ this key(2) _ ek _ _ cp] nk
  have "sched_inv nk (nk + 6) key 0 key r' t' ek'" by auto
  from KeySched_loop_words [OF nk _ key this, of "nk + 7"] nk
  obtain ek'' where "KeySched_loop (nk + 7) nk (nk + 6) 0 key r' t' ek' = Some ek''" "ek_ok ek''"
    "\<forall>q < 4 * (nk + 6 + 1). key_col ek'' q = key_word nk key q" by auto
  with cp R key(1) show ?thesis
    by (intro exI [of _ ek'']) (simp add: RijndaelKeySched_def add.commute [of 7 nk])
qed

section \<open>Sessions\<close>

text \<open>Two sessions are paired when the second one decrypts what the first one encrypts: the same
  number of rounds, and round keys that differ by \<open>RijndaelKeyEncToDec\<close>.\<close>

definition sessions_paired :: "Rijndael \<Rightarrow> Rijndael \<Rightarrow> bool" where
  "sessions_paired e d \<longleftrightarrow> rijndael_ready e \<and> m_uRounds d = m_uRounds e \<and>
     list_all (\<lambda>i. m_expandedKey d ! i = m_expandedKey (RijndaelKeyEncToDec e) ! i)
       [0..<Suc (m_uRounds e)]"

lemma RijndaelDecrypt_cong:
  assumes "m_uRounds d = m_uRounds d'" and "2 \<le> m_uRounds d"
    and "\<And>i. i \<le> m_uRounds d \<Longrightarrow> m_expandedKey d ! i = m_expandedKey d' ! i"
  shows "RijndaelDecrypt d b = RijndaelDecrypt d' b"
proof -
  have "fold (\<lambda>r b. dec_cells (add_key b (m_expandedKey d ! r))) (rev [2..<m_uRounds d]) x =
      fold (\<lambda>r b. dec_cells (add_key b (m_expandedKey d' ! r))) (rev [2..<m_uRounds d]) x" for x
    by (rule fold_cong) (use assms(3) in auto)
  with assms show ?thesis by (simp add: RijndaelDecrypt_def Let_def)
qed

lemma paired_Decrypt_Encrypt:
  assumes "sessions_paired e d" and "length a = 16"
  shows "RijndaelDecrypt d (RijndaelEncrypt e a) = a"
proof -
  have "RijndaelDecrypt d b = RijndaelDecrypt (RijndaelKeyEncToDec e) b" for b
    using assms(1)
    by (intro RijndaelDecrypt_cong) (auto simp: sessions_paired_def rijndael_ready_def list_all_iff)
  with assms Decrypt_Encrypt show ?thesis by (simp add: sessions_paired_def)
qed

text \<open>\<open>key_len keyLen\<close>: the octets of a key of a supported length.\<close>

definition key_len :: "int \<Rightarrow> nat" where
  "key_len keyLen = (if keyLen = Key16Bytes then 16 else if keyLen = Key24Bytes then 24 else 32)"

definition supported :: "int \<Rightarrow> int \<Rightarrow> int \<Rightarrow> bool" where
  "supported mode dir keyLen \<longleftrightarrow> mode \<in> {Mode_ECB, Mode_CBC, Mode_CFB1} \<and>
     dir \<in> {Direction_Encrypt, Direction_Decrypt} \<and> keyLen \<in> {Key16Bytes, Key24Bytes, Key32Bytes}"

lemma keyMatrix_props:
  assumes "n \<le> length key"
  shows "length (keyMatrix n key) = n div 4" and "list_all (\<lambda>w. length w = 4) (keyMatrix n key)"
  using assms by (auto simp: keyMatrix_def list_all_iff rd_def)

lemma ek_eq_iff_key_col:
  assumes "ek_ok ek" and "ek_ok ek'" and "i < 15"
    and "\<forall>q < 4 * Suc i. key_col ek q = key_col ek' q"
  shows "ek ! i = ek' ! i"
proof (rule nth_equalityI)
  have l: "length (ek ! i) = 4" "length (ek' ! i) = 4"
    using assms(1-3) by (auto simp: ek_ok_def cells_ok_def list_all_length)
  then show "length (ek ! i) = length (ek' ! i)" by simp
  fix t assume "t < length (ek ! i)"
  with l have "t < 4" by simp
  with assms(4) [rule_format, of "4 * i + t"] show "ek ! i ! t = ek' ! i ! t"
    by (simp add: key_col_def)
qed

lemma ek_ok_KeyEncToDec:
  assumes "ek_ok (m_expandedKey r)"
  shows "ek_ok (m_expandedKey (RijndaelKeyEncToDec r))"
proof -
  have len: "length (m_expandedKey (RijndaelKeyEncToDec r)) = length (m_expandedKey r)"
  proof -
    have "length (fold (\<lambda>r ek. ek[r := f ek r]) rs ek) = length ek" for f rs and ek :: "bytes list list"
      by (induction rs arbitrary: ek) simp_all
    then show ?thesis by (simp add: RijndaelKeyEncToDec_def)
  qed
  with assms show ?thesis
    by (auto simp: ek_ok_def list_all_length KeyEncToDec_nth dec_key_map)
qed

text \<open>A successful set-up: the schedule in the session is the standard's.\<close>

lemma RijndaelInit_ok:
  assumes "supported mode dir keyLen" and "key_len keyLen \<le> length key" and "rijndael_dims r"
    and "length iv = 16"
  shows "\<exists>ek e. RijndaelInit r mode dir (Some key) keyLen (Some iv) = Some (RIJNDAEL_SUCCESS, e) \<and>
    m_state e = State_Valid \<and> m_mode e = mode \<and> m_direction e = dir \<and> m_initVector e = iv \<and>
    m_uRounds e = key_len keyLen div 4 + 6 \<and> rijndael_dims e \<and> ek_ok ek \<and>
    m_expandedKey e = (if dir = Direction_Decrypt
      then m_expandedKey (RijndaelKeyEncToDec (e\<lparr>m_expandedKey := ek\<rparr>)) else ek) \<and>
    (\<forall>q < 4 * (m_uRounds e + 1).
       key_col ek q = key_word (key_len keyLen div 4) (keyMatrix (key_len keyLen) key) q)"
proof -
  let ?n = "key_len keyLen" and ?nk = "key_len keyLen div 4"
  let ?r = "r\<lparr>m_state := State_Invalid, m_mode := mode, m_direction := dir, m_initVector := iv,
    m_uRounds := ?nk + 6\<rparr>"
  have nk: "?nk = 4 \<or> ?nk = 6 \<or> ?nk = 8" by (simp add: key_len_def)
  have ek: "ek_ok (m_expandedKey ?r)" using assms(3) by (simp add: rijndael_dims_def ek_ok_def)
  obtain ek where s: "RijndaelKeySched ?r (keyMatrix ?n key) = Some (?r\<lparr>m_expandedKey := ek\<rparr>)"
    and ok: "ek_ok ek" and cols: "\<forall>q < 4 * (?nk + 6 + 1). key_col ek q = key_word ?nk (keyMatrix ?n key) q"
    using KeySched_words [OF nk _ keyMatrix_props [OF assms(2)] ek] by auto
  let ?e = "(if dir = Direction_Decrypt then RijndaelKeyEncToDec (?r\<lparr>m_expandedKey := ek\<rparr>)
             else ?r\<lparr>m_expandedKey := ek\<rparr>)\<lparr>m_state := State_Valid\<rparr>"
  have "RijndaelInit r mode dir (Some key) keyLen (Some iv) = Some (RIJNDAEL_SUCCESS, ?e)"
  proof -
    have n: "(if keyLen = Key16Bytes then 16 else if keyLen = Key24Bytes then 24 else 32) = ?n"
      and R: "(if keyLen = Key16Bytes then 10 else if keyLen = Key24Bytes then 12 else 14) = ?nk + 6"
      by (simp_all add: key_len_def)
    have m: "\<not> (mode \<noteq> Mode_CBC \<and> mode \<noteq> Mode_ECB \<and> mode \<noteq> Mode_CFB1)"
      and d: "\<not> (dir \<noteq> Direction_Encrypt \<and> dir \<noteq> Direction_Decrypt)"
      and k: "\<not> (keyLen \<noteq> Key16Bytes \<and> keyLen \<noteq> Key24Bytes \<and> keyLen \<noteq> Key32Bytes)"
      using assms(1) unfolding supported_def by blast+
    show ?thesis
      unfolding RijndaelInit_def Let_def n R if_not_P [OF m] if_not_P [OF d] if_not_P [OF k]
      using s assms(4) by simp
  qed
  moreover have "rijndael_dims ?e"
    using ok ek_ok_KeyEncToDec [of "?r\<lparr>m_expandedKey := ek\<rparr>"] assms(4)
    by (auto simp: rijndael_dims_def ek_ok_def)
  moreover have "m_expandedKey ?e = (if dir = Direction_Decrypt
      then m_expandedKey (RijndaelKeyEncToDec (?e\<lparr>m_expandedKey := ek\<rparr>)) else ek)"
    by (simp add: RijndaelKeyEncToDec_def)
  ultimately show ?thesis using ok cols
    by (intro exI [of _ ek] exI [of _ ?e]) simp
qed

lemma RijndaelInit_paired:
  assumes "rijndael_dims r1" and "rijndael_dims r2" and "length iv = 16" and "length iv' = 16"
    and "supported mode Direction_Encrypt keyLen" and "supported mode' Direction_Decrypt keyLen"
    and "key_len keyLen \<le> length key"
  shows "\<exists>e d. RijndaelInit r1 mode Direction_Encrypt (Some key) keyLen (Some iv) = Some (RIJNDAEL_SUCCESS, e) \<and>
    RijndaelInit r2 mode' Direction_Decrypt (Some key) keyLen (Some iv') = Some (RIJNDAEL_SUCCESS, d) \<and>
    sessions_paired e d \<and> m_state e = State_Valid \<and> m_state d = State_Valid \<and>
    m_mode e = mode \<and> m_mode d = mode' \<and> m_direction e = Direction_Encrypt \<and>
    m_direction d = Direction_Decrypt \<and> m_initVector e = iv \<and> m_initVector d = iv' \<and>
    rijndael_dims e \<and> rijndael_dims d"
proof -
  let ?n = "key_len keyLen"
  obtain ek e where e: "RijndaelInit r1 mode Direction_Encrypt (Some key) keyLen (Some iv) = Some (RIJNDAEL_SUCCESS, e)"
    "m_state e = State_Valid" "m_mode e = mode" "m_direction e = Direction_Encrypt" "m_initVector e = iv"
    "m_uRounds e = ?n div 4 + 6" "rijndael_dims e" "ek_ok ek" "m_expandedKey e = ek"
    "\<forall>q < 4 * (m_uRounds e + 1). key_col ek q = key_word (?n div 4) (keyMatrix ?n key) q"
    using RijndaelInit_ok [OF assms(5,7,1,3)] by auto
  obtain ek' d where d: "RijndaelInit r2 mode' Direction_Decrypt (Some key) keyLen (Some iv') = Some (RIJNDAEL_SUCCESS, d)"
    "m_state d = State_Valid" "m_mode d = mode'" "m_direction d = Direction_Decrypt" "m_initVector d = iv'"
    "m_uRounds d = ?n div 4 + 6" "rijndael_dims d" "ek_ok ek'"
    "m_expandedKey d = m_expandedKey (RijndaelKeyEncToDec (d\<lparr>m_expandedKey := ek'\<rparr>))"
    "\<forall>q < 4 * (m_uRounds d + 1). key_col ek' q = key_word (?n div 4) (keyMatrix ?n key) q"
    using RijndaelInit_ok [OF assms(6,7,2,4)] by auto
  have n15: "?n div 4 + 6 < 15" by (simp add: key_len_def)
  have ek: "ek ! i = ek' ! i" if "i \<le> m_uRounds e" for i
    using that e(6,10) d(6,10) n15 by (intro ek_eq_iff_key_col [OF e(8) d(8)]) auto
  have row: "m_expandedKey d ! i = m_expandedKey (RijndaelKeyEncToDec e) ! i" if "i \<le> m_uRounds e" for i
  proof -
    have "i < 15" using that n15 e(6) by simp
    then show ?thesis
      using that ek [OF that] e(6,8,9) d(6,8)
      by (subst d(9)) (simp add: KeyEncToDec_nth ek_ok_def)
  qed
  have "rijndael_ready e"
    using e(6-8) n15 unfolding e(9) [symmetric] by (auto simp: rijndael_ready_def keys_ok_def ek_ok_def)
  with row e d have "sessions_paired e d"
    by (auto simp: sessions_paired_def list_all_iff)
  with e d show ?thesis by blast
qed

section \<open>Properties\<close>

text \<open>A session structure before its first use: arrays of the declared sizes, no valid state.\<close>

definition blank_session :: Rijndael where
  "blank_session = \<lparr>m_state = State_Invalid, m_mode = 0, m_direction = 0, m_initVector = replicate 16 0,
     m_uRounds = 0, m_expandedKey = replicate 15 (replicate 4 (replicate 4 0))\<rparr>"

lemma blank_session_dims [simp]: "rijndael_dims blank_session"
  by (simp add: rijndael_dims_def blank_session_def cells_ok_def list_all_iff)

text \<open>C7: two sessions initialised with the same key, one for encryption and one for decryption, in
  any of the supported modes and key lengths and on any previous content of the structures, both
  succeed, and \<open>RijndaelDecrypt\<close> inverts \<open>RijndaelEncrypt\<close> on every block.\<close>

theorem rijndael_block_roundtrip:
  assumes "rijndael_dims r1" and "rijndael_dims r2" and "length iv = 16" and "length iv' = 16"
    and "supported mode Direction_Encrypt keyLen" and "supported mode' Direction_Decrypt keyLen"
    and "key_len keyLen \<le> length key"
  shows "\<exists>e d. RijndaelInit r1 mode Direction_Encrypt (Some key) keyLen (Some iv) = Some (RIJNDAEL_SUCCESS, e) \<and>
    RijndaelInit r2 mode' Direction_Decrypt (Some key) keyLen (Some iv') = Some (RIJNDAEL_SUCCESS, d) \<and>
    (\<forall>b. length b = 16 \<longrightarrow> RijndaelDecrypt d (RijndaelEncrypt e b) = b)"
  using RijndaelInit_paired [OF assms] paired_Decrypt_Encrypt by blast

theorem rijndael_block_roundtrip_witness:
  "\<exists>e d. RijndaelInit blank_session Mode_CBC Direction_Encrypt (Some (map of_nat [0..<32])) Key32Bytes
      (Some (replicate 16 7)) = Some (RIJNDAEL_SUCCESS, e) \<and>
    RijndaelInit blank_session Mode_ECB Direction_Decrypt (Some (map of_nat [0..<32])) Key32Bytes
      (Some (replicate 16 0)) = Some (RIJNDAEL_SUCCESS, d) \<and>
    RijndaelDecrypt d (RijndaelEncrypt e (replicate 16 1)) = replicate 16 1"
proof -
  have "\<exists>e d. RijndaelInit blank_session Mode_CBC Direction_Encrypt (Some (map of_nat [0..<32])) Key32Bytes
      (Some (replicate 16 7)) = Some (RIJNDAEL_SUCCESS, e) \<and>
    RijndaelInit blank_session Mode_ECB Direction_Decrypt (Some (map of_nat [0..<32])) Key32Bytes
      (Some (replicate 16 0)) = Some (RIJNDAEL_SUCCESS, d) \<and>
    (\<forall>b. length b = 16 \<longrightarrow> RijndaelDecrypt d (RijndaelEncrypt e b) = b)"
    by (rule rijndael_block_roundtrip) (simp_all add: supported_def key_len_def)
  then show ?thesis by (metis length_replicate)
qed

text \<open>C14: the loop of the key schedule ends within its fuel for the three key lengths, and the round
  keys that \<open>RijndaelInit\<close> leaves in an encryption session are, column by column, the words of the
  key expansion of FIPS-197 (\<open>key_word\<close>).\<close>

theorem rijndael_key_expansion:
  assumes "supported mode Direction_Encrypt keyLen" and "key_len keyLen \<le> length key" and "rijndael_dims r"
    and "length iv = 16"
  shows "\<exists>e. RijndaelInit r mode Direction_Encrypt (Some key) keyLen (Some iv) = Some (RIJNDAEL_SUCCESS, e) \<and>
    m_uRounds e = key_len keyLen div 4 + 6 \<and> rijndael_dims e \<and>
    (\<forall>q < 4 * (m_uRounds e + 1).
       key_col (m_expandedKey e) q = key_word (key_len keyLen div 4) (keyMatrix (key_len keyLen) key) q)"
  using RijndaelInit_ok [OF assms] by auto

theorem rijndael_key_expansion_witness:
  "\<exists>e. RijndaelInit blank_session Mode_CBC Direction_Encrypt (Some (map of_nat [0..<16])) Key16Bytes
      (Some (replicate 16 0)) = Some (RIJNDAEL_SUCCESS, e) \<and> m_uRounds e = 10 \<and>
    key_col (m_expandedKey e) 43 = key_word 4 (keyMatrix 16 (map of_nat [0..<16])) 43"
  using rijndael_key_expansion [of Mode_CBC Key16Bytes "map of_nat [0..<16]" blank_session "replicate 16 0"]
  by (auto simp: supported_def key_len_def)

lemma RijndaelInit_no_iv:
  "RijndaelInit r mode dir key keyLen None = RijndaelInit r mode dir key keyLen (Some (replicate 16 0))"
proof -
  have "take 16 (replicate 16 (0::u8)) = replicate 16 0" by simp
  then show ?thesis by (simp only: RijndaelInit_def option.case)
qed

text \<open>The result code, by the first argument that is not supported.\<close>

definition init_code :: "int \<Rightarrow> int \<Rightarrow> int \<Rightarrow> bool \<Rightarrow> int" where
  "init_code mode dir keyLen has_key =
     (if mode \<notin> {Mode_ECB, Mode_CBC, Mode_CFB1} then RIJNDAEL_UNSUPPORTED_MODE
      else if dir \<notin> {Direction_Encrypt, Direction_Decrypt} then RIJNDAEL_UNSUPPORTED_DIRECTION
      else if keyLen \<notin> {Key16Bytes, Key24Bytes, Key32Bytes} then RIJNDAEL_UNSUPPORTED_KEY_LENGTH
      else if \<not> has_key then RIJNDAEL_BAD_KEY else RIJNDAEL_SUCCESS)"

lemma RijndaelInit_fails:
  assumes "\<not> (supported mode dir keyLen \<and> key \<noteq> None)"
  shows "\<exists>r'. RijndaelInit r mode dir key keyLen iv = Some (init_code mode dir keyLen (key \<noteq> None), r') \<and>
    m_state r' = State_Invalid \<and> init_code mode dir keyLen (key \<noteq> None) \<noteq> RIJNDAEL_SUCCESS"
  using assms unfolding RijndaelInit_def init_code_def supported_def Let_def
  by (cases key) auto

text \<open>C40: \<open>RijndaelInit\<close> on every branch: it reports the first unsupported argument in the order mode,
  direction, key length, missing key, and the session is valid afterwards exactly when it succeeds.
  A missing initial vector counts as zero.\<close>

theorem rijndael_init_result:
  assumes "rijndael_dims r" and "pred_option (\<lambda>k. 32 \<le> length k) key"
    and "pred_option (\<lambda>v. length v = 16) iv"
  shows "\<exists>r'. RijndaelInit r mode dir key keyLen iv = Some (init_code mode dir keyLen (key \<noteq> None), r') \<and>
    (m_state r' = State_Valid \<longleftrightarrow> init_code mode dir keyLen (key \<noteq> None) = RIJNDAEL_SUCCESS)"
proof (cases "supported mode dir keyLen \<and> key \<noteq> None")
  case True
  then obtain k where k: "key = Some k" by auto
  define v where "v = (case iv of None \<Rightarrow> replicate 16 0 | Some v \<Rightarrow> v)"
  have v: "length v = 16" "RijndaelInit r mode dir key keyLen iv = RijndaelInit r mode dir key keyLen (Some v)"
    using assms(3) by (cases iv; simp add: v_def RijndaelInit_no_iv)+
  have "key_len keyLen \<le> 32" by (simp add: key_len_def)
  then have "key_len keyLen \<le> length k" using assms(2) k by simp
  from RijndaelInit_ok [OF _ this assms(1) v(1), of mode dir] True
  obtain e where "RijndaelInit r mode dir key keyLen (Some v) = Some (RIJNDAEL_SUCCESS, e)" "m_state e = State_Valid"
    unfolding k by blast
  moreover have "init_code mode dir keyLen (key \<noteq> None) = RIJNDAEL_SUCCESS"
    using True unfolding supported_def init_code_def by auto
  ultimately show ?thesis using v(2) by simp
next
  case False
  from RijndaelInit_fails [OF this, of r iv] show ?thesis by auto
qed

theorem rijndael_init_result_witness:
  "(\<exists>r'. RijndaelInit blank_session Mode_CBC 7 (Some (replicate 32 1)) Key16Bytes None =
      Some (RIJNDAEL_UNSUPPORTED_DIRECTION, r') \<and> m_state r' \<noteq> State_Valid)"
  using rijndael_init_result [of blank_session "Some (replicate 32 1)" None Mode_CBC 7 Key16Bytes]
  by (auto simp: init_code_def)

end
