(* ===== verification/Rijndael_Modes.thy ===== *)
theory Rijndael_Modes
  imports Rijndael
begin

text \<open>
  The buffer operations of \<^verbatim>\<open>rijndael.c\<close>: \<open>RijndaelBlockEncrypt\<close>,
  \<open>RijndaelBlockDecrypt\<close>, \<open>RijndaelPadEncrypt\<close>, \<open>RijndaelPadDecrypt\<close> in the modes ECB, CBC and
  CFB1. The source reads from one pointer and writes through another, and the page codec passes the
  same buffer twice, so input and output are offsets into one memory and every read sees the writes
  before it. The locale \<open>block_cipher\<close> is the contract the modes rely on; the lemmas of the modes are
  proved in it once and the cipher of theory \<open>Rijndael\<close> interprets it.
\<close>

section \<open>Block operations\<close>

text \<open>The ECB loops: \<open>f\<close> is \<open>RijndaelEncrypt\<close> or \<open>RijndaelDecrypt\<close> of the session.\<close>

fun ECB_loop :: "(bytes \<Rightarrow> bytes) \<Rightarrow> nat \<Rightarrow> nat \<Rightarrow> nat \<Rightarrow> bytes \<Rightarrow> bytes" where
  "ECB_loop f 0 input outBuffer mem = mem"
| "ECB_loop f (Suc i) input outBuffer mem =
     ECB_loop f i (input + 16) (outBuffer + 16) (wr mem outBuffer (f (rd mem input 16)))"

text \<open>CBC encryption after the first block: the previous cipher block is read back from the output.\<close>

fun CBC_enc_loop :: "(bytes \<Rightarrow> bytes) \<Rightarrow> nat \<Rightarrow> nat \<Rightarrow> nat \<Rightarrow> bytes \<Rightarrow> bytes" where
  "CBC_enc_loop f 0 input outBuffer mem = mem"
| "CBC_enc_loop f (Suc i) input outBuffer mem =
     (let block = xor_bytes (rd mem outBuffer 16) (rd mem input 16)
      in CBC_enc_loop f i (input + 16) (outBuffer + 16) (wr mem (outBuffer + 16) (f block)))"

text \<open>The four statements \<open>iv[k] = input[k]; outBuffer[k] = block[k]\<close>, cell by cell.\<close>

definition CBC_dec_store :: "nat \<Rightarrow> nat \<Rightarrow> bytes \<Rightarrow> bytes \<Rightarrow> bytes \<times> bytes" where
  "CBC_dec_store input outBuffer block mem =
     fold (\<lambda>k (iv, mem). (iv @ rd mem (input + 4 * k) 4,
                          wr mem (outBuffer + 4 * k) (rd block (4 * k) 4))) [0..<4] ([], mem)"

fun CBC_dec_loop :: "(bytes \<Rightarrow> bytes) \<Rightarrow> bytes \<Rightarrow> nat \<Rightarrow> nat \<Rightarrow> nat \<Rightarrow> bytes \<Rightarrow> bytes" where
  "CBC_dec_loop f iv 0 input outBuffer mem = mem"
| "CBC_dec_loop f iv (Suc i) input outBuffer mem =
     (let block = xor_bytes (f (rd mem input 16)) iv;
          (iv', mem') = CBC_dec_store input outBuffer block mem
      in CBC_dec_loop f iv' i (input + 16) (outBuffer + 16) mem')"

text \<open>CFB1: the 16 statements that shift the register left by one bit.\<close>

definition shift_iv :: "bytes \<Rightarrow> u8 \<Rightarrow> bytes" where
  "shift_iv iv b = map (\<lambda>i. push_bit 1 (iv ! i) OR drop_bit 7 (iv ! (i + 1))) [0..<15] @
     [push_bit 1 (iv ! 15) OR b]"

definition CFB1_bit :: "u8 \<Rightarrow> nat \<Rightarrow> u8" where
  "CFB1_bit x k = drop_bit (7 - k mod 8) x AND 1"

fun CFB1_enc_bits :: "(bytes \<Rightarrow> bytes) \<Rightarrow> nat list \<Rightarrow> nat \<Rightarrow> bytes \<times> bytes \<Rightarrow> bytes \<times> bytes" where
  "CFB1_enc_bits f [] outBuffer (iv, mem) = (iv, mem)"
| "CFB1_enc_bits f (k # ks) outBuffer (iv, mem) =
     (let block = f iv;
          b = mem ! (outBuffer + k div 8) XOR drop_bit (k mod 8) (block ! 0 AND 0x80)
      in CFB1_enc_bits f ks outBuffer
           (shift_iv iv (CFB1_bit b k), mem[outBuffer + k div 8 := b]))"

fun CFB1_dec_bits :: "(bytes \<Rightarrow> bytes) \<Rightarrow> nat list \<Rightarrow> nat \<Rightarrow> nat \<Rightarrow> bytes \<times> bytes \<Rightarrow> bytes \<times> bytes" where
  "CFB1_dec_bits f [] input outBuffer (iv, mem) = (iv, mem)"
| "CFB1_dec_bits f (k # ks) input outBuffer (iv, mem) =
     (let block = f iv;
          iv' = shift_iv iv (CFB1_bit (mem ! (input + k div 8)) k);
          b = mem ! (outBuffer + k div 8) XOR drop_bit (k mod 8) (block ! 0 AND 0x80)
      in CFB1_dec_bits f ks input outBuffer (iv', mem[outBuffer + k div 8 := b]))"

text \<open>Pointers are offsets, \<open>None\<close> the null pointer; the result is the return value and the memory.
  In the CFB1 loops neither pointer moves from block to block, as in the source.\<close>

definition RijndaelBlockEncrypt ::
  "Rijndael \<Rightarrow> bytes \<Rightarrow> nat option \<Rightarrow> int \<Rightarrow> nat \<Rightarrow> int \<times> bytes" where
  "RijndaelBlockEncrypt rijndael mem input inputLen outBuffer =
     (if m_state rijndael \<noteq> State_Valid then (RIJNDAEL_NOT_INITIALIZED, mem)
      else if m_direction rijndael \<noteq> Direction_Encrypt then (RIJNDAEL_BAD_DIRECTION, mem)
      else case input of None \<Rightarrow> (0, mem)
      | Some ip \<Rightarrow>
          if inputLen \<le> 0 then (0, mem)
          else let numBlocks = nat (inputLen div 128); f = RijndaelEncrypt rijndael
          in if m_mode rijndael = Mode_ECB
             then (128 * int numBlocks, ECB_loop f numBlocks ip outBuffer mem)
             else if m_mode rijndael = Mode_CBC
             then (128 * int numBlocks,
                   CBC_enc_loop f (numBlocks - 1) (ip + 16) outBuffer
                     (wr mem outBuffer (f (xor_bytes (m_initVector rijndael) (rd mem ip 16)))))
             else if m_mode rijndael = Mode_CFB1
             then (128 * int numBlocks,
                   snd (CFB1_enc_bits f (concat (replicate numBlocks [0..<128])) outBuffer
                          (m_initVector rijndael, mem)))
             else (-1, mem))"

definition RijndaelBlockDecrypt ::
  "Rijndael \<Rightarrow> bytes \<Rightarrow> nat option \<Rightarrow> int \<Rightarrow> nat \<Rightarrow> int \<times> bytes" where
  "RijndaelBlockDecrypt rijndael mem input inputLen outBuffer =
     (if m_state rijndael \<noteq> State_Valid then (RIJNDAEL_NOT_INITIALIZED, mem)
      else if m_mode rijndael \<noteq> Mode_CFB1 \<and> m_direction rijndael = Direction_Encrypt
      then (RIJNDAEL_BAD_DIRECTION, mem)
      else case input of None \<Rightarrow> (0, mem)
      | Some ip \<Rightarrow>
          if inputLen \<le> 0 then (0, mem)
          else let numBlocks = nat (inputLen div 128)
          in if m_mode rijndael = Mode_ECB
             then (128 * int numBlocks, ECB_loop (RijndaelDecrypt rijndael) numBlocks ip outBuffer mem)
             else if m_mode rijndael = Mode_CBC
             then (128 * int numBlocks,
                   CBC_dec_loop (RijndaelDecrypt rijndael) (m_initVector rijndael) numBlocks ip outBuffer mem)
             else if m_mode rijndael = Mode_CFB1
             then (128 * int numBlocks,
                   snd (CFB1_dec_bits (RijndaelEncrypt rijndael) (concat (replicate numBlocks [0..<128]))
                          ip outBuffer (m_initVector rijndael, mem)))
             else (-1, mem))"

section \<open>Padded operations\<close>

text \<open>The CBC loop of \<open>RijndaelPadEncrypt\<close> keeps a pointer to the previous cipher block; it
  returns the block behind that pointer too.\<close>

fun CBC_pad_loop :: "(bytes \<Rightarrow> bytes) \<Rightarrow> bytes \<Rightarrow> nat \<Rightarrow> nat \<Rightarrow> nat \<Rightarrow> bytes \<Rightarrow> bytes \<times> bytes" where
  "CBC_pad_loop f iv 0 input outBuffer mem = (iv, mem)"
| "CBC_pad_loop f iv (Suc i) input outBuffer mem =
     (let mem' = wr mem outBuffer (f (xor_bytes (rd mem input 16) iv))
      in CBC_pad_loop f (rd mem' outBuffer 16) i (input + 16) (outBuffer + 16) mem')"

definition RijndaelPadEncrypt ::
  "Rijndael \<Rightarrow> bytes \<Rightarrow> nat option \<Rightarrow> int \<Rightarrow> nat \<Rightarrow> int \<times> bytes" where
  "RijndaelPadEncrypt rijndael mem input inputOctets outBuffer =
     (if m_state rijndael \<noteq> State_Valid then (RIJNDAEL_NOT_INITIALIZED, mem)
      else if m_direction rijndael \<noteq> Direction_Encrypt then (RIJNDAEL_NOT_INITIALIZED, mem)
      else case input of None \<Rightarrow> (0, mem)
      | Some ip \<Rightarrow>
          if inputOctets \<le> 0 then (0, mem)
          else let len = nat inputOctets; numBlocks = len div 16; f = RijndaelEncrypt rijndael;
                   padLen = 16 - (len - 16 * numBlocks);
                   ip' = ip + 16 * numBlocks; op' = outBuffer + 16 * numBlocks
          in if m_mode rijndael = Mode_ECB
             then let mem1 = ECB_loop f numBlocks ip outBuffer mem;
                      block = rd mem1 ip' (16 - padLen) @ replicate padLen (of_nat padLen)
                  in (16 * (int numBlocks + 1), wr mem1 op' (f block))
             else if m_mode rijndael = Mode_CBC
             then let (iv, mem1) = CBC_pad_loop f (m_initVector rijndael) numBlocks ip outBuffer mem;
                      block = xor_bytes (rd mem1 ip' (16 - padLen)) (take (16 - padLen) iv) @
                              xor_bytes (replicate padLen (of_nat padLen)) (drop (16 - padLen) iv)
                  in (16 * (int numBlocks + 1), wr mem1 op' (f block))
             else (-1, mem))"

text \<open>\<open>memcpy(iv, input, 16); memcpy(outBuffer, block, 16)\<close>.\<close>

fun CBC_unpad_loop :: "(bytes \<Rightarrow> bytes) \<Rightarrow> bytes \<Rightarrow> nat \<Rightarrow> nat \<Rightarrow> nat \<Rightarrow> bytes \<Rightarrow> bytes \<times> bytes" where
  "CBC_unpad_loop f iv 0 input outBuffer mem = (iv, mem)"
| "CBC_unpad_loop f iv (Suc i) input outBuffer mem =
     (let block = xor_bytes (f (rd mem input 16)) iv
      in CBC_unpad_loop f (rd mem input 16) i (input + 16) (outBuffer + 16) (wr mem outBuffer block))"

text \<open>The loop over the last \<open>padLen\<close> octets of the final block.\<close>

definition pad_matches :: "bytes \<Rightarrow> nat \<Rightarrow> bool" where
  "pad_matches block padLen \<longleftrightarrow> list_all (\<lambda>i. unat (block ! i) = padLen) [16 - padLen..<16]"

definition RijndaelPadDecrypt ::
  "Rijndael \<Rightarrow> bytes \<Rightarrow> nat option \<Rightarrow> int \<Rightarrow> nat \<Rightarrow> int \<times> bytes" where
  "RijndaelPadDecrypt rijndael mem input inputOctets outBuffer =
     (if m_state rijndael \<noteq> State_Valid then (RIJNDAEL_NOT_INITIALIZED, mem)
      else if m_direction rijndael \<noteq> Direction_Decrypt then (RIJNDAEL_BAD_DIRECTION, mem)
      else case input of None \<Rightarrow> (0, mem)
      | Some ip \<Rightarrow>
          if inputOctets \<le> 0 then (0, mem)
          else if inputOctets mod 16 \<noteq> 0 then (RIJNDAEL_CORRUPTED_DATA, mem)
          else let numBlocks = nat inputOctets div 16; f = RijndaelDecrypt rijndael;
                   ip' = ip + 16 * (numBlocks - 1); op' = outBuffer + 16 * (numBlocks - 1)
          in if m_mode rijndael = Mode_ECB
             then let mem1 = ECB_loop f (numBlocks - 1) ip outBuffer mem;
                      block = f (rd mem1 ip' 16); padLen = unat (block ! 15)
                  in if padLen \<ge> 16 then (RIJNDAEL_CORRUPTED_DATA, mem1)
                     else if \<not> pad_matches block padLen then (RIJNDAEL_CORRUPTED_DATA, mem1)
                     else (16 * int numBlocks - int padLen, wr mem1 op' (take (16 - padLen) block))
             else if m_mode rijndael = Mode_CBC
             then let (iv, mem1) = CBC_unpad_loop f (m_initVector rijndael) (numBlocks - 1) ip outBuffer mem;
                      block = xor_bytes (f (rd mem1 ip' 16)) iv; padLen = unat (block ! 15)
                  in if padLen \<le> 0 \<or> padLen > 16 then (RIJNDAEL_CORRUPTED_DATA, mem1)
                     else if \<not> pad_matches block padLen then (RIJNDAEL_CORRUPTED_DATA, mem1)
                     else (16 * int numBlocks - int padLen, wr mem1 op' (take (16 - padLen) block))
             else (-1, mem))"

section \<open>The modes on lists of blocks\<close>

fun cbc_enc :: "(bytes \<Rightarrow> bytes) \<Rightarrow> bytes \<Rightarrow> bytes list \<Rightarrow> bytes list" where
  "cbc_enc f iv [] = []"
| "cbc_enc f iv (b # bs) = (let c = f (xor_bytes iv b) in c # cbc_enc f c bs)"

fun cbc_dec :: "(bytes \<Rightarrow> bytes) \<Rightarrow> bytes \<Rightarrow> bytes list \<Rightarrow> bytes list" where
  "cbc_dec f iv [] = []"
| "cbc_dec f iv (c # cs) = xor_bytes (f c) iv # cbc_dec f c cs"

definition blocks16 :: "bytes list \<Rightarrow> bool" where
  "blocks16 bs \<longleftrightarrow> (\<forall>b \<in> set bs. length b = 16)"

lemma blocks16_simps [simp]:
  "blocks16 []" "blocks16 (b # bs) \<longleftrightarrow> length b = 16 \<and> blocks16 bs"
  by (auto simp: blocks16_def)

lemma length_concat16 [simp]: "blocks16 bs \<Longrightarrow> length (concat bs) = 16 * length bs"
  by (induction bs) auto

lemma blocks16_concat_inject:
  "blocks16 bs \<Longrightarrow> blocks16 cs \<Longrightarrow> length bs = length cs \<Longrightarrow> concat bs = concat cs \<longleftrightarrow> bs = cs"
  by (induction bs cs rule: list_induct2') auto

text \<open>The blocks of a region of the memory.\<close>

definition mem_blocks :: "bytes \<Rightarrow> nat \<Rightarrow> nat \<Rightarrow> bytes list" where
  "mem_blocks mem p n = nblocks 16 n (rd mem p (16 * n))"

lemma mem_blocks_0 [simp]: "mem_blocks mem p 0 = []"
  by (simp add: mem_blocks_def)

lemma mem_blocks_Suc [simp]: "mem_blocks mem p (Suc n) = rd mem p 16 # mem_blocks mem (p + 16) n"
proof -
  have "take 16 (rd mem p (16 + 16 * n)) = rd mem p 16"
    by (simp add: rd_def)
  moreover have "drop 16 (rd mem p (16 + 16 * n)) = rd mem (p + 16) (16 * n)"
    by (simp add: rd_def drop_take add.commute)
  ultimately show ?thesis by (simp add: mem_blocks_def)
qed

lemma length_mem_blocks [simp]: "length (mem_blocks mem p n) = n"
  by (simp add: mem_blocks_def)

lemma blocks16_mem_blocks [simp]: "p + 16 * n \<le> length mem \<Longrightarrow> blocks16 (mem_blocks mem p n)"
  by (induction n arbitrary: p) (auto simp: dim_simps)

lemma concat_mem_blocks: "p + 16 * n \<le> length mem \<Longrightarrow> concat (mem_blocks mem p n) = rd mem p (16 * n)"
  by (simp add: mem_blocks_def concat_nblocks rd_def mult.commute [of n])

lemma mem_blocks_wr_same:
  "p + 16 * n \<le> length mem \<Longrightarrow> blocks16 bs \<Longrightarrow> length bs = n \<Longrightarrow>
   mem_blocks (wr mem p (concat bs)) p n = bs"
  by (subst blocks16_concat_inject [symmetric])
    (auto simp: concat_mem_blocks dim_simps mem_simps)

text \<open>A loop that goes up through the memory may overwrite its input behind itself, never ahead.\<close>

definition safe_regions :: "nat \<Rightarrow> nat \<Rightarrow> nat \<Rightarrow> bool" where
  "safe_regions ip out n \<longleftrightarrow> out \<le> ip \<or> ip + 16 * n \<le> out"

lemma safe_regions_Suc [simp]: "safe_regions ip out (Suc n) \<Longrightarrow> safe_regions (ip + 16) (out + 16) n"
  by (auto simp: safe_regions_def)

lemma mem_blocks_ahead:
  assumes "safe_regions ip out (Suc n)" and "length c = 16" and "out + 16 \<le> length mem"
  shows "mem_blocks (wr mem out c) (ip + 16) n = mem_blocks mem (ip + 16) n"
  using assms rd_wr_before [of "ip + 16" "16 * n" out c mem] rd_wr_after [of out c "ip + 16" mem "16 * n"]
  by (auto simp: mem_blocks_def safe_regions_def)

text \<open>The loops of the source compute the modes.\<close>

lemma wr_concat_Cons:
  "length c = 16 \<Longrightarrow> p + 16 + length (concat cs) \<le> length m \<Longrightarrow>
   wr (wr m p c) (p + 16) (concat cs) = wr m p (concat (c # cs))"
  using wr_append [of p c "concat cs" m] by simp

lemma length_cbc_enc [simp]: "length (cbc_enc f iv bs) = length bs"
  by (induction bs arbitrary: iv) (auto simp: Let_def)

lemma blocks16_cbc_enc [simp]: "(\<And>b. length (f b) = 16) \<Longrightarrow> blocks16 (cbc_enc f iv bs)"
  by (induction bs arbitrary: iv) (auto simp: Let_def)

lemma length_cbc_dec [simp]: "length (cbc_dec f iv bs) = length bs"
  by (induction bs arbitrary: iv) auto

lemma ECB_loop_blocks:
  assumes "\<And>b. length b = 16 \<Longrightarrow> length (f b) = 16"
  shows "safe_regions ip out n \<Longrightarrow> ip + 16 * n \<le> length mem \<Longrightarrow> out + 16 * n \<le> length mem \<Longrightarrow>
    ECB_loop f n ip out mem = wr mem out (concat (map f (mem_blocks mem ip n)))"
proof (induction n arbitrary: ip out mem)
  case (Suc n)
  let ?c = "f (rd mem ip 16)"
  have c: "length ?c = 16" using Suc.prems by (intro assms) (simp add: dim_simps)
  have "blocks16 (map f (mem_blocks mem (ip + 16) n))"
    using Suc.prems assms blocks16_mem_blocks [of "ip + 16" n mem] by (auto simp: blocks16_def)
  with Suc c show ?case
    by (simp add: mem_blocks_ahead dim_simps wr_concat_Cons del: concat.simps) 
qed simp

lemma CBC_enc_loop_blocks:
  assumes "\<And>b. length (f b) = 16"
  shows "safe_regions ip (out + 16) n \<Longrightarrow> ip + 16 * n \<le> length mem \<Longrightarrow> out + 16 + 16 * n \<le> length mem \<Longrightarrow>
    CBC_enc_loop f n ip out mem =
    wr mem (out + 16) (concat (cbc_enc f (rd mem out 16) (mem_blocks mem ip n)))"
proof (induction n arbitrary: ip out mem)
  case (Suc n)
  let ?c = "f (xor_bytes (rd mem out 16) (rd mem ip 16))"
  let ?m = "wr mem (out + 16) ?c"
  have "CBC_enc_loop f n (ip + 16) (out + 16) ?m =
      wr ?m (out + 16 + 16) (concat (cbc_enc f (rd ?m (out + 16) 16) (mem_blocks ?m (ip + 16) n)))"
    by (rule Suc.IH) (use Suc.prems in \<open>auto simp: dim_simps assms safe_regions_def\<close>)
  also have "rd ?m (out + 16) 16 = ?c"
    using Suc.prems by (simp add: mem_simps assms)
  also have "mem_blocks ?m (ip + 16) n = mem_blocks mem (ip + 16) n"
    using Suc.prems by (intro mem_blocks_ahead) (auto simp: assms)
  also have "wr ?m (out + 16 + 16) (concat (cbc_enc f ?c (mem_blocks mem (ip + 16) n))) =
      wr mem (out + 16) (concat (?c # cbc_enc f ?c (mem_blocks mem (ip + 16) n)))"
    using Suc.prems by (intro wr_concat_Cons) (auto simp: assms)
  finally show ?case by (simp add: Let_def)
qed simp

lemma CBC_dec_store_block:
  assumes "length block = 16" and "safe_regions ip out 1" and "ip + 16 \<le> length mem"
    and "out + 16 \<le> length mem"
  shows "CBC_dec_store ip out block mem = (rd mem ip 16, wr mem out block)"
proof -
  have up: "[0..<4] = [0, 1, 2, 3::nat]" by (simp add: upt_rec)
  let ?b = "\<lambda>k. rd block (4 * k) 4"
  have l: "length (?b k) = 4" if "k < 4" for k using that assms(1) by (simp add: dim_simps)
  have blk: "block = ?b 0 @ ?b 1 @ ?b 2 @ ?b 3"
    using assms(1) by (elim length16E) (simp add: rd_def)
  let ?m1 = "wr mem out (?b 0)" and ?m2 = "wr (wr mem out (?b 0)) (out + 4) (?b 1)"
  let ?m3 = "wr (wr (wr mem out (?b 0)) (out + 4) (?b 1)) (out + 8) (?b 2)"
  have r1: "rd ?m1 (ip + 4) 4 = rd mem (ip + 4) 4"
    using assms l [of 0] by (auto simp: safe_regions_def mem_simps dim_simps)
  have r2: "rd ?m2 (ip + 8) 4 = rd mem (ip + 8) 4"
    using assms l [of 0] l [of 1] by (auto simp: safe_regions_def mem_simps dim_simps)
  have r3: "rd ?m3 (ip + 12) 4 = rd mem (ip + 12) 4"
    using assms l [of 0] l [of 1] l [of 2] by (auto simp: safe_regions_def mem_simps dim_simps)
  have "rd mem ip 16 = rd mem ip 4 @ rd mem (ip + 4) 4 @ rd mem (ip + 8) 4 @ rd mem (ip + 12) 4"
    using rd_split [of mem ip 4 12] rd_split [of mem "ip + 4" 4 8] rd_split [of mem "ip + 8" 4 4]
    by (simp add: add.commute)
  moreover have "wr mem out block = wr ?m3 (out + 12) (?b 3)"
    using assms(4) l [of 0] l [of 1] l [of 2] l [of 3] by (subst blk) (simp add: wr_def add.commute)
  ultimately show ?thesis
    using r1 r2 r3 by (simp add: CBC_dec_store_def up)
qed

lemma CBC_dec_loop_blocks:
  assumes f: "\<And>b. length b = 16 \<Longrightarrow> length (f b) = 16"
  shows "length iv = 16 \<Longrightarrow> safe_regions ip out n \<Longrightarrow> ip + 16 * n \<le> length mem \<Longrightarrow>
    out + 16 * n \<le> length mem \<Longrightarrow>
    CBC_dec_loop f iv n ip out mem = wr mem out (concat (cbc_dec f iv (mem_blocks mem ip n)))"
proof (induction n arbitrary: iv ip out mem)
  case (Suc n)
  let ?b = "xor_bytes (f (rd mem ip 16)) iv"
  let ?m = "wr mem out ?b"
  have b: "length ?b = 16" using Suc.prems f [of "rd mem ip 16"] by (simp add: dim_simps)
  have st: "CBC_dec_store ip out ?b mem = (rd mem ip 16, ?m)"
    using b Suc.prems by (intro CBC_dec_store_block) (auto simp: safe_regions_def)
  have "CBC_dec_loop f (rd mem ip 16) n (ip + 16) (out + 16) ?m =
      wr ?m (out + 16) (concat (cbc_dec f (rd mem ip 16) (mem_blocks ?m (ip + 16) n)))"
    by (rule Suc.IH) (use Suc.prems b in \<open>auto simp: dim_simps\<close>)
  also have "mem_blocks ?m (ip + 16) n = mem_blocks mem (ip + 16) n"
    using Suc.prems b by (intro mem_blocks_ahead) auto
  also have "wr ?m (out + 16) (concat (cbc_dec f (rd mem ip 16) (mem_blocks mem (ip + 16) n))) =
      wr mem out (concat (?b # cbc_dec f (rd mem ip 16) (mem_blocks mem (ip + 16) n)))"
  proof (rule wr_concat_Cons)
    have "blocks16 (cbc_dec f v bs)" if "blocks16 bs" "length v = 16" for v bs
      using that f by (induction bs arbitrary: v) auto
    then have "blocks16 (cbc_dec f (rd mem ip 16) (mem_blocks mem (ip + 16) n))"
      using Suc.prems by (simp add: dim_simps)
    then show "out + 16 + length (concat (cbc_dec f (rd mem ip 16) (mem_blocks mem (ip + 16) n))) \<le> length mem"
      using Suc.prems by simp
  qed (rule b)
  finally show ?case using st by (simp add: Let_def)
qed simp

section \<open>The contract of a block cipher\<close>

locale block_cipher =
  fixes enc :: "'e \<Rightarrow> bytes \<Rightarrow> bytes" and dec :: "'d \<Rightarrow> bytes \<Rightarrow> bytes" and paired :: "'e \<Rightarrow> 'd \<Rightarrow> bool"
  assumes dec_enc: "paired e d \<Longrightarrow> length b = 16 \<Longrightarrow> dec d (enc e b) = b"
    and length_enc: "paired e d \<Longrightarrow> length (enc e b) = 16"
    and length_dec: "paired e d \<Longrightarrow> length b = 16 \<Longrightarrow> length (dec d b) = 16"
begin

lemma ecb_inverse: "paired e d \<Longrightarrow> blocks16 bs \<Longrightarrow> map (dec d) (map (enc e) bs) = bs"
  by (induction bs) (auto simp: dec_enc)

lemma cbc_inverse:
  "paired e d \<Longrightarrow> blocks16 bs \<Longrightarrow> length iv = 16 \<Longrightarrow> cbc_dec (dec d) iv (cbc_enc (enc e) iv bs) = bs"
  by (induction bs arbitrary: iv) (auto simp: Let_def dec_enc length_enc)

lemma ecb_buffer:
  assumes p: "paired e d" and "x + 16 * n \<le> length mem"
  shows "ECB_loop (dec d) n x x (ECB_loop (enc e) n x x mem) = mem"
proof -
  let ?cs = "map (enc e) (mem_blocks mem x n)"
  have cs: "blocks16 ?cs" using p by (auto simp: blocks16_def length_enc)
  have e: "ECB_loop (enc e) n x x mem = wr mem x (concat ?cs)"
    using assms by (intro ECB_loop_blocks) (auto simp: length_enc safe_regions_def)
  have "ECB_loop (dec d) n x x (wr mem x (concat ?cs)) =
      wr (wr mem x (concat ?cs)) x (concat (map (dec d) (mem_blocks (wr mem x (concat ?cs)) x n)))"
    using assms cs by (intro ECB_loop_blocks) (auto simp: length_dec safe_regions_def dim_simps)
  also have "map (dec d) (mem_blocks (wr mem x (concat ?cs)) x n) = mem_blocks mem x n"
    using assms cs ecb_inverse [OF p, of "mem_blocks mem x n"] by (simp add: mem_blocks_wr_same)
  also have "wr (wr mem x (concat ?cs)) x (concat (mem_blocks mem x n)) = mem"
    using assms(2) cs by (simp add: concat_mem_blocks mem_simps dim_simps)
  finally show ?thesis by (simp only: e)
qed

text \<open>CBC encryption of \<open>n + 1\<close> blocks in place, as \<open>RijndaelBlockEncrypt\<close> writes it, and its inverse.\<close>

lemma cbc_buffer_enc:
  assumes p: "paired e d" and "length iv = 16" and "x + 16 * Suc n \<le> length mem"
  shows "CBC_enc_loop (enc e) n (x + 16) x (wr mem x (enc e (xor_bytes iv (rd mem x 16)))) =
    wr mem x (concat (cbc_enc (enc e) iv (mem_blocks mem x (Suc n))))"
proof -
  let ?c = "enc e (xor_bytes iv (rd mem x 16))" and ?bs = "mem_blocks mem (x + 16) n"
  let ?m = "wr mem x ?c"
  have c: "length ?c = 16" using p by (rule length_enc)
  have "CBC_enc_loop (enc e) n (x + 16) x ?m =
      wr ?m (x + 16) (concat (cbc_enc (enc e) (rd ?m x 16) (mem_blocks ?m (x + 16) n)))"
    by (rule CBC_enc_loop_blocks)
      (use assms(3) c length_enc [OF p] in \<open>auto simp: safe_regions_def dim_simps\<close>)
  also have "rd ?m x 16 = ?c" using assms(3) c by (simp add: mem_simps)
  also have "mem_blocks ?m (x + 16) n = ?bs"
    using assms(3) c by (intro mem_blocks_ahead) (auto simp: safe_regions_def)
  also have "wr ?m (x + 16) (concat (cbc_enc (enc e) ?c ?bs)) = wr mem x (concat (?c # cbc_enc (enc e) ?c ?bs))"
    using assms(3) c length_enc [OF p] by (intro wr_concat_Cons) auto
  finally show ?thesis by (simp add: Let_def)
qed

lemma cbc_buffer_dec:
  assumes p: "paired e d" and "length iv = 16" and "x + 16 * n \<le> length mem"
  shows "CBC_dec_loop (dec d) iv n x x (wr mem x (concat (cbc_enc (enc e) iv (mem_blocks mem x n)))) = mem"
proof -
  let ?cs = "cbc_enc (enc e) iv (mem_blocks mem x n)"
  have cs: "blocks16 ?cs" using length_enc [OF p] by simp
  let ?m = "wr mem x (concat ?cs)"
  have "CBC_dec_loop (dec d) iv n x x ?m = wr ?m x (concat (cbc_dec (dec d) iv (mem_blocks ?m x n)))"
    using assms cs by (intro CBC_dec_loop_blocks) (auto simp: length_dec safe_regions_def dim_simps)
  also have "cbc_dec (dec d) iv (mem_blocks ?m x n) = mem_blocks mem x n"
    using assms cs by (simp add: mem_blocks_wr_same cbc_inverse)
  also have "wr ?m x (concat (mem_blocks mem x n)) = mem"
    using assms(3) cs by (simp add: concat_mem_blocks mem_simps dim_simps)
  finally show ?thesis .
qed

end

lemma length_Decrypt:
  assumes "sessions_paired e d" and "length b = 16" shows "length (RijndaelDecrypt d b) = 16"
proof -
  from assms have "keys_ok (m_uRounds e) (m_expandedKey e)"
    and "m_expandedKey d ! 0 = m_expandedKey (RijndaelKeyEncToDec e) ! 0"
    by (auto simp: sessions_paired_def rijndael_ready_def list_all_iff)
  moreover from this(1) have "0 < length (m_expandedKey e)" unfolding keys_ok_def by linarith
  ultimately have "cells_ok (m_expandedKey d ! 0)"
    using keys_ok_nth [of "m_uRounds e" "m_expandedKey e" 0] KeyEncToDec_nth [of 0 e] by simp
  then show ?thesis by (simp add: RijndaelDecrypt_def Let_def)
qed

interpretation rij: block_cipher RijndaelEncrypt RijndaelDecrypt sessions_paired
  by unfold_locales
    (auto simp: paired_Decrypt_Encrypt length_Decrypt length_Encrypt sessions_paired_def)

section \<open>Whole buffers\<close>

text \<open>A session that was set up for encryption in a mode, and one for decryption.\<close>

definition enc_session :: "int \<Rightarrow> Rijndael \<Rightarrow> bool" where
  "enc_session mode e \<longleftrightarrow> m_state e = State_Valid \<and> m_mode e = mode \<and>
     m_direction e = Direction_Encrypt \<and> length (m_initVector e) = 16"

definition dec_session :: "int \<Rightarrow> Rijndael \<Rightarrow> bool" where
  "dec_session mode d \<longleftrightarrow> m_state d = State_Valid \<and> m_mode d = mode \<and>
     m_direction d = Direction_Decrypt \<and> length (m_initVector d) = 16"

lemma numBlocks_bits: "nat (int len div 16) = len div 16" "int (len div 16) = int len div 16"
  by (simp_all add: nat_div_distrib zdiv_int)

lemma BlockEncrypt_CBC:
  assumes "sessions_paired e d" and "enc_session Mode_CBC e" and "16 \<le> len" and "x + len \<le> length mem"
  shows "RijndaelBlockEncrypt e mem (Some x) (8 * int len) x =
    (128 * int (len div 16),
     wr mem x (concat (cbc_enc (RijndaelEncrypt e) (m_initVector e) (mem_blocks mem x (len div 16)))))"
proof -
  from assms(3) obtain n where n: "len div 16 = Suc n" by (cases "len div 16") auto
  have "16 * (len div 16) \<le> len" by simp
  then have "x + 16 * Suc n \<le> length mem" using assms(4) unfolding n by linarith
  moreover have "\<not> 8 * int len \<le> 0" using assms(3) by simp
  ultimately show ?thesis
    using assms(2) rij.cbc_buffer_enc [OF assms(1), of "m_initVector e" x n mem]
    by (simp add: RijndaelBlockEncrypt_def enc_session_def numBlocks_bits n Let_def
        del: cbc_enc.simps mem_blocks_Suc)
qed

lemma BlockDecrypt_CBC:
  assumes "sessions_paired e d" and "dec_session Mode_CBC d" and "16 \<le> len"
  shows "RijndaelBlockDecrypt d mem (Some x) (8 * int len) x =
    (128 * int (len div 16), CBC_dec_loop (RijndaelDecrypt d) (m_initVector d) (len div 16) x x mem)"
  using assms by (simp add: RijndaelBlockDecrypt_def dec_session_def numBlocks_bits Let_def)

lemma Block_CBC_inverse:
  assumes "sessions_paired e d" and "enc_session Mode_CBC e" and "dec_session Mode_CBC d"
    and "m_initVector d = m_initVector e" and "16 \<le> len" and "x + len \<le> length mem"
  shows "RijndaelBlockDecrypt d (snd (RijndaelBlockEncrypt e mem (Some x) (8 * int len) x))
      (Some x) (8 * int len) x = (128 * int (len div 16), mem)"
proof -
  have "16 * (len div 16) \<le> len" by simp
  then have "x + 16 * (len div 16) \<le> length mem" using assms(6) by linarith
  then show ?thesis
    using assms rij.cbc_buffer_dec [OF assms(1), of "m_initVector e" x "len div 16" mem]
    by (simp add: BlockEncrypt_CBC BlockDecrypt_CBC enc_session_def)
qed

lemma BlockEncrypt_frame:
  assumes "sessions_paired e d" and "enc_session Mode_CBC e" and "16 \<le> len" and "x + len \<le> length mem"
  shows "length (snd (RijndaelBlockEncrypt e mem (Some x) (8 * int len) x)) = length mem"
    and "q + n \<le> x \<or> x + len \<le> q \<Longrightarrow>
      rd (snd (RijndaelBlockEncrypt e mem (Some x) (8 * int len) x)) q n = rd mem q n"
proof -
  let ?cs = "cbc_enc (RijndaelEncrypt e) (m_initVector e) (mem_blocks mem x (len div 16))"
  have "16 * (len div 16) \<le> len" by simp
  moreover have "length (concat ?cs) = 16 * (len div 16)"
    using rij.length_enc [OF assms(1)] by simp
  ultimately have l: "length (concat ?cs) \<le> len" by simp
  then show "length (snd (RijndaelBlockEncrypt e mem (Some x) (8 * int len) x)) = length mem"
    using assms by (simp add: BlockEncrypt_CBC [OF assms] dim_simps)
  show "rd (snd (RijndaelBlockEncrypt e mem (Some x) (8 * int len) x)) q n = rd mem q n"
    if "q + n \<le> x \<or> x + len \<le> q"
    using that assms(4) l rd_wr_before [of q n x "concat ?cs" mem] rd_wr_after [of x "concat ?cs" q mem n]
    by (auto simp: BlockEncrypt_CBC [OF assms])
qed

section \<open>Padding\<close>

text \<open>The padded final block of a message whose length is not known to be a multiple of 16.\<close>

definition pad_block :: "bytes \<Rightarrow> bytes" where
  "pad_block xs = xs @ replicate (16 - length xs) (of_nat (16 - length xs))"

definition pad_blocks :: "bytes \<Rightarrow> nat \<Rightarrow> nat \<Rightarrow> bytes list" where
  "pad_blocks mem p len = mem_blocks mem p (len div 16) @ [pad_block (rd mem (p + 16 * (len div 16)) (len mod 16))]"

lemma length_pad_block [simp]: "length xs \<le> 16 \<Longrightarrow> length (pad_block xs) = 16"
  by (simp add: pad_block_def)

lemma pad_block_props:
  assumes "length xs < 16"
  shows "unat (pad_block xs ! 15) = 16 - length xs" and "pad_matches (pad_block xs) (16 - length xs)"
    and "take (length xs) (pad_block xs) = xs"
proof -
  have n: "pad_block xs ! i = of_nat (16 - length xs)" if "length xs \<le> i" "i < 16" for i
    using that by (simp add: pad_block_def nth_append)
  have u: "unat (of_nat (16 - length xs) :: u8) = 16 - length xs"
    by (simp add: unat_of_nat)
  show "unat (pad_block xs ! 15) = 16 - length xs"
    using assms n [of 15] u by simp
  show "pad_matches (pad_block xs) (16 - length xs)"
    using assms n u by (auto simp: pad_matches_def list_all_iff)
  show "take (length xs) (pad_block xs) = xs" by (simp add: pad_block_def)
qed

lemma blocks16_pad_blocks:
  assumes "p + len \<le> length mem"
  shows "blocks16 (pad_blocks mem p len)"
proof -
  have "16 * (len div 16) + len mod 16 = len" by simp
  then have "p + 16 * (len div 16) + len mod 16 \<le> length mem" using assms by linarith
  then have "blocks16 (mem_blocks mem p (len div 16))" "length (rd mem (p + 16 * (len div 16)) (len mod 16)) = len mod 16"
    by (auto simp: dim_simps)
  then show ?thesis by (simp add: pad_blocks_def blocks16_def)
qed

lemma length_pad_blocks [simp]: "length (pad_blocks mem p len) = Suc (len div 16)"
  by (simp add: pad_blocks_def)

text \<open>The chaining value after a run of blocks is the last cipher block.\<close>

lemma cbc_enc_append:
  "cbc_enc f iv (bs @ cs) = cbc_enc f iv bs @ cbc_enc f (last (iv # cbc_enc f iv bs)) cs"
  by (induction bs arbitrary: iv) (auto simp: Let_def)

lemma cbc_dec_append: "cbc_dec f iv (bs @ cs) = cbc_dec f iv bs @ cbc_dec f (last (iv # bs)) cs"
  by (induction bs arbitrary: iv) auto

lemma CBC_pad_loop_blocks:
  assumes f: "\<And>b. length (f b) = 16"
  shows "safe_regions ip out n \<Longrightarrow> ip + 16 * n \<le> length mem \<Longrightarrow> out + 16 * n \<le> length mem \<Longrightarrow>
    CBC_pad_loop f iv n ip out mem =
      (last (iv # cbc_enc f iv (mem_blocks mem ip n)),
       wr mem out (concat (cbc_enc f iv (mem_blocks mem ip n))))"
proof (induction n arbitrary: iv ip out mem)
  case (Suc n)
  let ?c = "f (xor_bytes (rd mem ip 16) iv)"
  let ?m = "wr mem out ?c" and ?bs = "mem_blocks mem (ip + 16) n"
  have "CBC_pad_loop f ?c n (ip + 16) (out + 16) ?m =
      (last (?c # cbc_enc f ?c (mem_blocks ?m (ip + 16) n)),
       wr ?m (out + 16) (concat (cbc_enc f ?c (mem_blocks ?m (ip + 16) n))))"
    by (rule Suc.IH) (use Suc.prems f in \<open>auto simp: dim_simps\<close>)
  also have "mem_blocks ?m (ip + 16) n = ?bs"
    using Suc.prems f by (intro mem_blocks_ahead) auto
  also have "wr ?m (out + 16) (concat (cbc_enc f ?c ?bs)) = wr mem out (concat (?c # cbc_enc f ?c ?bs))"
    using Suc.prems f by (intro wr_concat_Cons) auto
  finally show ?case
    using Suc.prems f by (simp add: Let_def mem_simps xor_bytes_commute [of iv])
qed simp

lemma CBC_unpad_loop_blocks:
  assumes f: "\<And>b. length b = 16 \<Longrightarrow> length (f b) = 16"
  shows "length iv = 16 \<Longrightarrow> safe_regions ip out n \<Longrightarrow> ip + 16 * n \<le> length mem \<Longrightarrow>
    out + 16 * n \<le> length mem \<Longrightarrow>
    CBC_unpad_loop f iv n ip out mem =
      (last (iv # mem_blocks mem ip n), CBC_dec_loop f iv n ip out mem)"
proof (induction n arbitrary: iv ip out mem)
  case (Suc n)
  have b: "length (xor_bytes (f (rd mem ip 16)) iv) = 16"
    using Suc.prems f [of "rd mem ip 16"] by (simp add: dim_simps)
  have "CBC_dec_store ip out (xor_bytes (f (rd mem ip 16)) iv) mem =
      (rd mem ip 16, wr mem out (xor_bytes (f (rd mem ip 16)) iv))"
    using b Suc.prems by (intro CBC_dec_store_block) (auto simp: safe_regions_def)
  moreover have "mem_blocks (wr mem out (xor_bytes (f (rd mem ip 16)) iv)) (ip + 16) n = mem_blocks mem (ip + 16) n"
    using Suc.prems b by (intro mem_blocks_ahead) auto
  ultimately show ?case
    using Suc.IH [of "rd mem ip 16" "ip + 16" "out + 16" "wr mem out (xor_bytes (f (rd mem ip 16)) iv)"]
      Suc.prems b by (simp add: dim_simps Let_def)
qed simp

lemma pad_tail_rd:
  assumes "safe_regions ip out (Suc (len div 16))" and "ip + len \<le> length mem"
    and "length cs = 16 * (len div 16)" and "out + 16 * (len div 16) \<le> length mem"
  shows "rd (wr mem out cs) (ip + 16 * (len div 16)) (len mod 16) = rd mem (ip + 16 * (len div 16)) (len mod 16)"
proof (cases "out \<le> ip")
  case True
  with assms show ?thesis by (intro rd_wr_after) auto
next
  case False
  have "len mod 16 < 16" by simp
  with False assms have "ip + 16 * (len div 16) + len mod 16 \<le> out"
    by (auto simp: safe_regions_def)
  with assms show ?thesis by (intro rd_wr_before) auto
qed

lemma xor_pad_block:
  assumes "length t \<le> 16" and "length l = 16"
  shows "xor_bytes t (take (length t) l) @
      xor_bytes (replicate (16 - length t) (of_nat (16 - length t))) (drop (length t) l) =
    xor_bytes l (pad_block t)"
proof -
  have "xor_bytes l (pad_block t) = xor_bytes (pad_block t) (take (length t) l @ drop (length t) l)"
    by (simp add: xor_bytes_commute)
  then show ?thesis using assms by (simp add: pad_block_def xor_bytes_append del: append_take_drop_id)
qed

lemma PadEncrypt_CBC:
  assumes p: "sessions_paired e d" and "enc_session Mode_CBC e" and "0 < len"
    and "safe_regions ip out (Suc (len div 16))" and "ip + len \<le> length mem"
    and "out + 16 * Suc (len div 16) \<le> length mem"
  shows "RijndaelPadEncrypt e mem (Some ip) (int len) out =
    (16 * (int (len div 16) + 1),
     wr mem out (concat (cbc_enc (RijndaelEncrypt e) (m_initVector e) (pad_blocks mem ip len))))"
proof -
  let ?f = "RijndaelEncrypt e" and ?iv = "m_initVector e" and ?n = "len div 16"
  define cs where "cs = cbc_enc ?f ?iv (mem_blocks mem ip ?n)"
  define l where "l = last (?iv # cs)"
  define t where "t = rd mem (ip + 16 * ?n) (len mod 16)"
  have f: "length (?f b) = 16" for b using p by (rule rij.length_enc)
  have iv: "length ?iv = 16" using assms(2) by (simp add: enc_session_def)
  have n: "16 * ?n + len mod 16 = len" "len - 16 * ?n = len mod 16" "len mod 16 < 16"
    by (simp_all add: minus_mult_div_eq_mod)
  have cs: "blocks16 cs" "length cs = ?n" using f by (simp_all add: cs_def)
  have l: "length l = 16" using cs iv by (cases cs rule: rev_cases) (auto simp: l_def blocks16_def)
  have loop: "CBC_pad_loop ?f ?iv ?n ip out mem = (l, wr mem out (concat cs))"
    unfolding l_def cs_def using assms(4,5,6) n(1)
    by (intro CBC_pad_loop_blocks f) (auto simp: safe_regions_def)
  have tail: "rd (wr mem out (concat cs)) (ip + 16 * ?n) (len mod 16) = t"
    unfolding t_def using assms(4,5,6) cs by (intro pad_tail_rd) auto
  have tl: "length t = len mod 16"
    unfolding t_def using assms(5) n(1) by (intro length_rd) linarith
  have pl: "16 - (16 - len mod 16) = len mod 16" using n(3) by linarith
  have "cbc_enc ?f ?iv (pad_blocks mem ip len) = cs @ [?f (xor_bytes l (pad_block t))]"
    by (simp only: pad_blocks_def cbc_enc_append cs_def [symmetric] l_def [symmetric] t_def [symmetric]
      cbc_enc.simps Let_def)
  moreover have "wr (wr mem out (concat cs)) (out + 16 * ?n) (?f (xor_bytes l (pad_block t))) =
      wr mem out (concat (cs @ [?f (xor_bytes l (pad_block t))]))"
    using wr_append [of out "concat cs" "?f (xor_bytes l (pad_block t))" mem] assms(6) cs f by simp
  ultimately show ?thesis
    using assms(2,3) loop tail xor_pad_block [of t l] tl l n(3)
    unfolding RijndaelPadEncrypt_def Let_def nat_int n(2) pl by (simp add: enc_session_def)
qed

lemma mem_blocks_snoc: "mem_blocks mem p (Suc n) = mem_blocks mem p n @ [rd mem (p + 16 * n) 16]"
proof (induction n arbitrary: p)
  case (Suc n)
  have "mem_blocks mem p (Suc (Suc n)) = rd mem p 16 # mem_blocks mem (p + 16) (Suc n)" by simp
  also have "\<dots> = rd mem p 16 # mem_blocks mem (p + 16) n @ [rd mem (p + 16 + 16 * n) 16]"
    by (simp only: Suc.IH)
  finally show ?case by (simp add: add.assoc)
qed simp

lemma PadDecrypt_CBC:
  assumes p: "sessions_paired e d" and "dec_session Mode_CBC d" and bs: "blocks16 (bs @ [pad_block t])"
    and t: "length t < 16" and "out + 16 * Suc (length bs) \<le> length mem"
    and iv: "length iv = 16" "m_initVector d = iv"
    and mem: "mem_blocks mem out (Suc (length bs)) = cbc_enc (RijndaelEncrypt e) iv (bs @ [pad_block t])"
  shows "RijndaelPadDecrypt d mem (Some out) (16 * (int (length bs) + 1)) out =
    (int (16 * length bs + length t), wr mem out (concat bs @ t))"
proof -
  let ?f = "RijndaelDecrypt d" and ?n = "length bs"
  define cs where "cs = cbc_enc (RijndaelEncrypt e) iv bs"
  define l where "l = last (iv # cs)"
  define c where "c = RijndaelEncrypt e (xor_bytes l (pad_block t))"
  have f: "length b = 16 \<Longrightarrow> length (?f b) = 16" for b using p by (rule rij.length_dec)
  have fe: "length (RijndaelEncrypt e b) = 16" for b using p by (rule rij.length_enc)
  have cs: "blocks16 cs" "length cs = ?n" using fe by (simp_all add: cs_def)
  have l: "length l = 16" using cs iv by (cases cs rule: rev_cases) (auto simp: l_def blocks16_def)
  have all: "cbc_enc (RijndaelEncrypt e) iv (bs @ [pad_block t]) = cs @ [c]"
    by (simp only: cbc_enc_append cs_def [symmetric] l_def [symmetric] c_def [symmetric]
      cbc_enc.simps Let_def)
  have blks: "mem_blocks mem out ?n = cs" and lastb: "rd mem (out + 16 * ?n) 16 = c"
    using mem all mem_blocks_snoc [of mem out ?n] by (simp_all del: mem_blocks_Suc)
  have bs': "blocks16 bs" using bs by (simp add: blocks16_def)
  have inv: "cbc_dec ?f iv cs = bs"
    unfolding cs_def using p bs' iv(1) by (rule rij.cbc_inverse)
  let ?m = "wr mem out (concat bs)"
  have loop: "CBC_unpad_loop ?f iv ?n out out mem = (l, ?m)"
    using assms(5) iv(1) f inv blks CBC_unpad_loop_blocks [of ?f iv out out ?n mem]
      CBC_dec_loop_blocks [of ?f iv out out ?n mem]
    by (simp add: safe_regions_def l_def)
  have "rd ?m (out + 16 * ?n) 16 = c"
    using assms(5) bs' lastb rd_wr_after [of out "concat bs" "out + 16 * ?n" mem 16] by simp
  moreover have "?f c = xor_bytes l (pad_block t)"
    unfolding c_def using l t by (intro rij.dec_enc [OF p]) simp
  ultimately have blk: "xor_bytes (?f (rd ?m (out + 16 * ?n) 16)) l = pad_block t"
    using l t by simp
  have tk: "take (16 - (16 - length t)) (pad_block t) = t"
    using t pad_block_props(3) [OF t] by simp
  have "wr ?m (out + 16 * ?n) t = wr mem out (concat bs @ t)"
    using wr_append [of out "concat bs" t mem] assms(5) bs' t by simp
  moreover have "nat (16 * (int ?n + 1)) div 16 = Suc ?n" by simp
  ultimately show ?thesis
    using assms(2) t iv(2) loop blk tk pad_block_props(1,2) [OF t]
    unfolding RijndaelPadDecrypt_def Let_def
    by (simp add: dec_session_def)
qed

text \<open>Encrypt a message of any positive length with padding, then decrypt the result in place.\<close>

lemma Pad_CBC_inverse:
  assumes p: "sessions_paired e d" and "enc_session Mode_CBC e" and "dec_session Mode_CBC d"
    and "m_initVector d = m_initVector e" and "0 < len"
    and "safe_regions ip out (Suc (len div 16))" and "ip + len \<le> length mem"
    and "out + 16 * Suc (len div 16) \<le> length mem"
    and enc: "RijndaelPadEncrypt e mem (Some ip) (int len) out = (rc, mem1)"
    and dec: "RijndaelPadDecrypt d mem1 (Some out) rc out = (rc2, mem2)"
  shows "rc = 16 * (int (len div 16) + 1) \<and> rc2 = int len \<and> rd mem2 out len = rd mem ip len"
proof -
  let ?f = "RijndaelEncrypt e" and ?iv = "m_initVector e" and ?n = "len div 16"
  let ?bs = "mem_blocks mem ip ?n" and ?t = "rd mem (ip + 16 * ?n) (len mod 16)"
  have n: "16 * ?n + len mod 16 = len" by simp
  have iv: "length ?iv = 16" using assms(2) by (simp add: enc_session_def)
  have rc: "rc = 16 * (int ?n + 1)" and m1: "mem1 = wr mem out (concat (cbc_enc ?f ?iv (pad_blocks mem ip len)))"
    using PadEncrypt_CBC [OF assms(1,2,5-8)] enc by simp_all
  have tl: "length ?t = len mod 16" using assms(7) n by (intro length_rd) linarith
  have b16: "blocks16 (?bs @ [pad_block ?t])"
    using blocks16_pad_blocks [OF assms(7)] by (simp add: pad_blocks_def)
  have c16: "blocks16 (cbc_enc ?f ?iv (pad_blocks mem ip len))" using rij.length_enc [OF p] by simp
  have l1: "length mem1 = length mem" using m1 c16 assms(8) by (simp add: dim_simps)
  have mb: "mem_blocks mem1 out (Suc (length ?bs)) = cbc_enc ?f ?iv (?bs @ [pad_block ?t])"
    using m1 c16 assms(8) mem_blocks_wr_same [of out "Suc ?n" mem "cbc_enc ?f ?iv (pad_blocks mem ip len)"]
    by (simp add: pad_blocks_def del: mem_blocks_Suc)
  have "RijndaelPadDecrypt d mem1 (Some out) (16 * (int (length ?bs) + 1)) out =
      (int (16 * length ?bs + length ?t), wr mem1 out (concat ?bs @ ?t))"
    by (rule PadDecrypt_CBC [OF p assms(3) b16 _ _ iv assms(4) mb]) (use tl l1 assms(8) in simp_all)
  then have "rc2 = int len" and m2: "mem2 = wr mem1 out (concat ?bs @ ?t)"
    using dec rc tl n by simp_all
  moreover have "concat ?bs @ ?t = rd mem ip len"
    using assms(7) n concat_mem_blocks [of ip ?n mem] rd_split [of mem ip "16 * ?n" "len mod 16"] by simp
  moreover have "length (rd mem ip len) = len" using assms(7) by (simp add: dim_simps)
  moreover have "out + len \<le> length mem1"
  proof -
    have "len mod 16 < 16" by simp
    then show ?thesis using l1 assms(8) n by (simp only: mult_Suc_right)
  qed
  ultimately show ?thesis using rc by (simp add: mem_simps)
qed

section \<open>Padding in ECB mode, CFB1, and sessions that are not valid\<close>

lemma PadEncrypt_ECB:
  assumes p: "sessions_paired e d" and "enc_session Mode_ECB e" and "0 < len"
    and "safe_regions ip out (Suc (len div 16))" and "ip + len \<le> length mem"
    and "out + 16 * Suc (len div 16) \<le> length mem"
  shows "RijndaelPadEncrypt e mem (Some ip) (int len) out =
    (16 * (int (len div 16) + 1), wr mem out (concat (map (RijndaelEncrypt e) (pad_blocks mem ip len))))"
proof -
  let ?f = "RijndaelEncrypt e" and ?n = "len div 16"
  define cs where "cs = map ?f (mem_blocks mem ip ?n)"
  define t where "t = rd mem (ip + 16 * ?n) (len mod 16)"
  have f: "length (?f b) = 16" for b using p by (rule rij.length_enc)
  have n: "16 * ?n + len mod 16 = len" "len - 16 * ?n = len mod 16" "len mod 16 < 16"
    by (simp_all add: minus_mult_div_eq_mod)
  have cs: "blocks16 cs" "length cs = ?n" using f by (auto simp: cs_def blocks16_def)
  have loop: "ECB_loop ?f ?n ip out mem = wr mem out (concat cs)"
    unfolding cs_def using assms(4-6) n(1) f
    by (intro ECB_loop_blocks) (auto simp: safe_regions_def)
  have tail: "rd (wr mem out (concat cs)) (ip + 16 * ?n) (len mod 16) = t"
    unfolding t_def using assms(4-6) cs by (intro pad_tail_rd) auto
  have tl: "length t = len mod 16"
    unfolding t_def using assms(5) n(1) by (intro length_rd) linarith
  have pl: "16 - (16 - len mod 16) = len mod 16" using n(3) by linarith
  have "map ?f (pad_blocks mem ip len) = cs @ [?f (pad_block t)]"
    by (simp add: pad_blocks_def cs_def t_def)
  moreover have "wr (wr mem out (concat cs)) (out + 16 * ?n) (?f (pad_block t)) =
      wr mem out (concat (cs @ [?f (pad_block t)]))"
    using wr_append [of out "concat cs" "?f (pad_block t)" mem] assms(6) cs f by simp
  moreover have "t @ replicate (16 - len mod 16) (of_nat (16 - len mod 16)) = pad_block t"
    using tl by (simp add: pad_block_def)
  ultimately show ?thesis
    using assms(2,3) loop tail tl n(3)
    unfolding RijndaelPadEncrypt_def Let_def nat_int n(2) pl by (simp add: enc_session_def)
qed

lemma PadDecrypt_ECB:
  assumes p: "sessions_paired e d" and "dec_session Mode_ECB d" and bs: "blocks16 bs"
    and t: "length t < 16" and "out + 16 * Suc (length bs) \<le> length mem"
    and mem: "mem_blocks mem out (Suc (length bs)) = map (RijndaelEncrypt e) (bs @ [pad_block t])"
  shows "RijndaelPadDecrypt d mem (Some out) (16 * (int (length bs) + 1)) out =
    (if t = [] then (RIJNDAEL_CORRUPTED_DATA, wr mem out (concat bs))
     else (int (16 * length bs + length t), wr mem out (concat bs @ t)))"
proof -
  let ?f = "RijndaelDecrypt d" and ?n = "length bs"
  let ?m = "wr mem out (concat bs)"
  have f: "length b = 16 \<Longrightarrow> length (?f b) = 16" for b using p by (rule rij.length_dec)
  have blks: "mem_blocks mem out ?n = map (RijndaelEncrypt e) bs"
    and lastb: "rd mem (out + 16 * ?n) 16 = RijndaelEncrypt e (pad_block t)"
    using mem mem_blocks_snoc [of mem out ?n] by (simp_all del: mem_blocks_Suc)
  have loop: "ECB_loop ?f ?n out out mem = ?m"
    using assms(5) f blks rij.ecb_inverse [OF p bs] ECB_loop_blocks [of ?f out out ?n mem]
    by (simp add: safe_regions_def)
  have "rd ?m (out + 16 * ?n) 16 = RijndaelEncrypt e (pad_block t)"
    using assms(5) bs lastb rd_wr_after [of out "concat bs" "out + 16 * ?n" mem 16] by simp
  then have blk: "?f (rd ?m (out + 16 * ?n) 16) = pad_block t"
    using t by (simp add: rij.dec_enc [OF p])
  have "wr ?m (out + 16 * ?n) t = wr mem out (concat bs @ t)"
    using wr_append [of out "concat bs" t mem] assms(5) bs t by simp
  moreover have "nat (16 * (int ?n + 1)) div 16 = Suc ?n" by simp
  moreover have "take (16 - (16 - length t)) (pad_block t) = t"
    using t pad_block_props(3) [OF t] by simp
  ultimately show ?thesis
    using assms(2) t loop blk pad_block_props(1,2) [OF t]
    unfolding RijndaelPadDecrypt_def Let_def
    by (cases t) (simp_all add: dec_session_def)
qed

text \<open>A message whose length is a multiple of 16 is padded with a whole block, which the ECB branch
  of \<open>RijndaelPadDecrypt\<close> refuses.\<close>

lemma Pad_ECB_inverse:
  assumes p: "sessions_paired e d" and "enc_session Mode_ECB e" and "dec_session Mode_ECB d"
    and "0 < len" and "safe_regions ip out (Suc (len div 16))" and "ip + len \<le> length mem"
    and "out + 16 * Suc (len div 16) \<le> length mem"
    and enc: "RijndaelPadEncrypt e mem (Some ip) (int len) out = (rc, mem1)"
    and dec: "RijndaelPadDecrypt d mem1 (Some out) rc out = (rc2, mem2)"
  shows "rc = 16 * (int (len div 16) + 1) \<and>
    (if len mod 16 = 0 then rc2 = RIJNDAEL_CORRUPTED_DATA
     else rc2 = int len \<and> rd mem2 out len = rd mem ip len)"
proof -
  let ?f = "RijndaelEncrypt e" and ?n = "len div 16"
  let ?bs = "mem_blocks mem ip ?n" and ?t = "rd mem (ip + 16 * ?n) (len mod 16)"
  have n: "16 * ?n + len mod 16 = len" "len mod 16 < 16" by simp_all
  have rc: "rc = 16 * (int ?n + 1)" and m1: "mem1 = wr mem out (concat (map ?f (pad_blocks mem ip len)))"
    using PadEncrypt_ECB [OF assms(1,2,4-7)] enc by simp_all
  have tl: "length ?t = len mod 16" using assms(6) n by (intro length_rd) linarith
  have bs: "blocks16 ?bs" using assms(6) n by (intro blocks16_mem_blocks) linarith
  have c16: "blocks16 (map ?f (pad_blocks mem ip len))" using rij.length_enc [OF p] by (auto simp: blocks16_def)
  have l1: "length mem1 = length mem" using m1 c16 assms(7) by (simp add: dim_simps)
  have mb: "mem_blocks mem1 out (Suc (length ?bs)) = map ?f (?bs @ [pad_block ?t])"
    using m1 c16 assms(7) mem_blocks_wr_same [of out "Suc ?n" mem "map ?f (pad_blocks mem ip len)"]
    by (simp add: pad_blocks_def del: mem_blocks_Suc)
  have "RijndaelPadDecrypt d mem1 (Some out) (16 * (int (length ?bs) + 1)) out =
      (if ?t = [] then (RIJNDAEL_CORRUPTED_DATA, wr mem1 out (concat ?bs))
       else (int (16 * length ?bs + length ?t), wr mem1 out (concat ?bs @ ?t)))"
    by (rule PadDecrypt_ECB [OF p assms(3) bs _ _ mb]) (use tl l1 assms(7) in simp_all)
  note u = this
  have te: "?t = [] \<longleftrightarrow> len mod 16 = 0" using tl by (metis length_0_conv)
  have le: "int (16 * ?n + length ?t) = int len" using tl n by simp
  have r: "(rc2, mem2) = (if len mod 16 = 0 then (RIJNDAEL_CORRUPTED_DATA, wr mem1 out (concat ?bs))
      else (int len, wr mem1 out (concat ?bs @ ?t)))"
    using u dec unfolding rc te le length_mem_blocks by simp
  have "concat ?bs @ ?t = rd mem ip len"
    using assms(6) n concat_mem_blocks [of ip ?n mem] rd_split [of mem ip "16 * ?n" "len mod 16"] by simp
  moreover have "length (rd mem ip len) = len" using assms(6) by (simp add: dim_simps)
  moreover have "out + len \<le> length mem1"
    using l1 assms(7) n by (simp only: mult_Suc_right)
  ultimately show ?thesis using rc r by (auto simp: mem_simps split: if_splits)
qed

text \<open>CFB1 encryption never looks at its input: two memories that agree on the first output block
  give the same output, whatever the input holds.\<close>

lemma CFB1_enc_bits_agree:
  assumes "\<forall>k \<in> set ks. k < 128" and "out + 16 \<le> length mem" and "out + 16 \<le> length mem'"
    and "rd mem out 16 = rd mem' out 16"
  shows "rd (snd (CFB1_enc_bits f ks out (iv, mem))) out 16 = rd (snd (CFB1_enc_bits f ks out (iv, mem'))) out 16"
  using assms
proof (induction ks arbitrary: iv mem mem')
  case (Cons k ks)
  let ?i = "k div 8"
  have i: "?i < 16" using Cons.prems(1) by auto
  have eq: "mem ! (out + ?i) = mem' ! (out + ?i)"
    using i nth_rd [of ?i 16 out mem] nth_rd [of ?i 16 out mem'] Cons.prems by simp
  have upd: "rd (m[out + ?i := v]) out 16 = (rd m out 16)[?i := v]" for m :: bytes and v
    by (simp add: rd_def drop_update_swap take_update_swap)
  show ?case
    unfolding CFB1_enc_bits.simps Let_def eq
    by (rule Cons.IH) (use Cons.prems in \<open>auto simp: upd\<close>)
qed simp

lemma BlockEncrypt_CFB1_agree:
  assumes "enc_session Mode_CFB1 e" and "rd mem out 16 = rd mem' out 16"
    and "out + 16 \<le> length mem" and "out + 16 \<le> length mem'"
  shows "rd (snd (RijndaelBlockEncrypt e mem (Some ip) len out)) out 16 =
    rd (snd (RijndaelBlockEncrypt e mem' (Some ip) len out)) out 16"
  using assms CFB1_enc_bits_agree [of "concat (replicate (nat (len div 128)) [0..<128])" out mem mem']
  by (simp add: RijndaelBlockEncrypt_def enc_session_def Let_def)

text \<open>A session that is not valid touches nothing.\<close>

lemma invalid_session_frame:
  assumes "m_state r \<noteq> State_Valid"
  shows "RijndaelBlockEncrypt r mem ip len out = (RIJNDAEL_NOT_INITIALIZED, mem)"
    and "RijndaelBlockDecrypt r mem ip len out = (RIJNDAEL_NOT_INITIALIZED, mem)"
    and "RijndaelPadEncrypt r mem ip len out = (RIJNDAEL_NOT_INITIALIZED, mem)"
    and "RijndaelPadDecrypt r mem ip len out = (RIJNDAEL_NOT_INITIALIZED, mem)"
  using assms by (simp_all add: RijndaelBlockEncrypt_def RijndaelBlockDecrypt_def
      RijndaelPadEncrypt_def RijndaelPadDecrypt_def)

section \<open>Properties\<close>

lemma Init_sessions:
  assumes "rijndael_dims r1" and "rijndael_dims r2" and "length iv = 16"
    and "mode \<in> {Mode_ECB, Mode_CBC}" and "keyLen \<in> {Key16Bytes, Key24Bytes, Key32Bytes}"
    and "key_len keyLen \<le> length key"
  obtains e d where
    "RijndaelInit r1 mode Direction_Encrypt (Some key) keyLen (Some iv) = Some (RIJNDAEL_SUCCESS, e)"
    "RijndaelInit r2 mode Direction_Decrypt (Some key) keyLen (Some iv) = Some (RIJNDAEL_SUCCESS, d)"
    "sessions_paired e d" "enc_session mode e" "dec_session mode d" "m_initVector d = m_initVector e"
  using RijndaelInit_paired [OF assms(1,2,3,3) _ _ assms(6), of mode mode] assms
  by (auto simp: supported_def enc_session_def dec_session_def)

text \<open>C8: in CBC mode, \<open>RijndaelBlockDecrypt\<close> in place restores the whole memory after
  \<open>RijndaelBlockEncrypt\<close> in place, for every key length, every region of at least one block and
  every length, whole number of blocks or not; both report the bits of the whole blocks.\<close>

theorem rijndael_cbc_buffer_roundtrip:
  assumes "rijndael_dims r1" and "rijndael_dims r2" and "length iv = 16"
    and "keyLen \<in> {Key16Bytes, Key24Bytes, Key32Bytes}" and "key_len keyLen \<le> length key"
  shows "\<exists>e d. RijndaelInit r1 Mode_CBC Direction_Encrypt (Some key) keyLen (Some iv) = Some (RIJNDAEL_SUCCESS, e) \<and>
    RijndaelInit r2 Mode_CBC Direction_Decrypt (Some key) keyLen (Some iv) = Some (RIJNDAEL_SUCCESS, d) \<and>
    (\<forall>mem x len. 16 \<le> len \<and> x + len \<le> length mem \<longrightarrow>
      (\<exists>mem1. RijndaelBlockEncrypt e mem (Some x) (8 * int len) x = (128 * int (len div 16), mem1) \<and>
        RijndaelBlockDecrypt d mem1 (Some x) (8 * int len) x = (128 * int (len div 16), mem)))"
proof -
  obtain e d where
    i: "RijndaelInit r1 Mode_CBC Direction_Encrypt (Some key) keyLen (Some iv) = Some (RIJNDAEL_SUCCESS, e)"
    "RijndaelInit r2 Mode_CBC Direction_Decrypt (Some key) keyLen (Some iv) = Some (RIJNDAEL_SUCCESS, d)"
    and s: "sessions_paired e d" "enc_session Mode_CBC e" "dec_session Mode_CBC d" "m_initVector d = m_initVector e"
    by (rule Init_sessions [OF assms(1-3) _ assms(4,5), of Mode_CBC]) auto
  have "\<exists>mem1. RijndaelBlockEncrypt e mem (Some x) (8 * int len) x = (128 * int (len div 16), mem1) \<and>
      RijndaelBlockDecrypt d mem1 (Some x) (8 * int len) x = (128 * int (len div 16), mem)"
    if "16 \<le> len" "x + len \<le> length mem" for mem x len
    using Block_CBC_inverse [OF s that] BlockEncrypt_CBC [OF s(1,2) that] by simp
  with i show ?thesis by blast
qed

theorem rijndael_cbc_buffer_roundtrip_witness:
  "\<exists>e d. RijndaelInit blank_session Mode_CBC Direction_Encrypt (Some (replicate 16 5)) Key16Bytes
      (Some (replicate 16 9)) = Some (RIJNDAEL_SUCCESS, e) \<and>
    RijndaelInit blank_session Mode_CBC Direction_Decrypt (Some (replicate 16 5)) Key16Bytes
      (Some (replicate 16 9)) = Some (RIJNDAEL_SUCCESS, d) \<and>
    (\<exists>mem1. RijndaelBlockEncrypt e (map of_nat [0..<48]) (Some 8) 256 8 = (256, mem1) \<and>
      RijndaelBlockDecrypt d mem1 (Some 8) 256 8 = (256, map of_nat [0..<48]))"
proof -
  obtain e d where "RijndaelInit blank_session Mode_CBC Direction_Encrypt (Some (replicate 16 5)) Key16Bytes
      (Some (replicate 16 9)) = Some (RIJNDAEL_SUCCESS, e)"
    and "RijndaelInit blank_session Mode_CBC Direction_Decrypt (Some (replicate 16 5)) Key16Bytes
      (Some (replicate 16 9)) = Some (RIJNDAEL_SUCCESS, d)"
    and a: "\<forall>mem x len. 16 \<le> len \<and> x + len \<le> length mem \<longrightarrow>
      (\<exists>mem1. RijndaelBlockEncrypt e mem (Some x) (8 * int len) x = (128 * int (len div 16), mem1) \<and>
        RijndaelBlockDecrypt d mem1 (Some x) (8 * int len) x = (128 * int (len div 16), mem))"
    using rijndael_cbc_buffer_roundtrip [of blank_session blank_session "replicate 16 9" Key16Bytes "replicate 16 5"]
    by (auto simp: key_len_def)
  then show ?thesis using a [rule_format, of 32 8 "map of_nat [0..<48]"] by auto
qed

text \<open>padding in CBC mode: for a message of any positive length, to a region that does not lie
  ahead of the input, \<open>RijndaelPadEncrypt\<close> writes the next larger multiple of 16 octets and
  \<open>RijndaelPadDecrypt\<close> of those octets, in place, gives back the length and the octets of the
  message.\<close>

theorem rijndael_cbc_padding_roundtrip:
  assumes "rijndael_dims r1" and "rijndael_dims r2" and "length iv = 16"
    and "keyLen \<in> {Key16Bytes, Key24Bytes, Key32Bytes}" and "key_len keyLen \<le> length key"
  shows "\<exists>e d. RijndaelInit r1 Mode_CBC Direction_Encrypt (Some key) keyLen (Some iv) = Some (RIJNDAEL_SUCCESS, e) \<and>
    RijndaelInit r2 Mode_CBC Direction_Decrypt (Some key) keyLen (Some iv) = Some (RIJNDAEL_SUCCESS, d) \<and>
    (\<forall>mem ip out len. 0 < len \<and> safe_regions ip out (Suc (len div 16)) \<and> ip + len \<le> length mem \<and>
        out + 16 * Suc (len div 16) \<le> length mem \<longrightarrow>
      (\<exists>mem1 mem2. RijndaelPadEncrypt e mem (Some ip) (int len) out = (16 * (int (len div 16) + 1), mem1) \<and>
        RijndaelPadDecrypt d mem1 (Some out) (16 * (int (len div 16) + 1)) out = (int len, mem2) \<and>
        rd mem2 out len = rd mem ip len))"
proof -
  obtain e d where
    i: "RijndaelInit r1 Mode_CBC Direction_Encrypt (Some key) keyLen (Some iv) = Some (RIJNDAEL_SUCCESS, e)"
    "RijndaelInit r2 Mode_CBC Direction_Decrypt (Some key) keyLen (Some iv) = Some (RIJNDAEL_SUCCESS, d)"
    and s: "sessions_paired e d" "enc_session Mode_CBC e" "dec_session Mode_CBC d" "m_initVector d = m_initVector e"
    by (rule Init_sessions [OF assms(1-3) _ assms(4,5), of Mode_CBC]) auto
  have "\<exists>mem1 mem2. RijndaelPadEncrypt e mem (Some ip) (int len) out = (16 * (int (len div 16) + 1), mem1) \<and>
      RijndaelPadDecrypt d mem1 (Some out) (16 * (int (len div 16) + 1)) out = (int len, mem2) \<and>
      rd mem2 out len = rd mem ip len"
    if "0 < len" "safe_regions ip out (Suc (len div 16))" "ip + len \<le> length mem"
      "out + 16 * Suc (len div 16) \<le> length mem" for mem ip out len
  proof -
    obtain rc mem1 where a: "RijndaelPadEncrypt e mem (Some ip) (int len) out = (rc, mem1)" by fastforce
    obtain rc2 mem2 where b: "RijndaelPadDecrypt d mem1 (Some out) rc out = (rc2, mem2)" by fastforce
    from Pad_CBC_inverse [OF s that a b] a b show ?thesis by auto
  qed
  with i show ?thesis by blast
qed

theorem rijndael_cbc_padding_roundtrip_witness:
  "\<exists>e d mem1 mem2. RijndaelInit blank_session Mode_CBC Direction_Encrypt (Some (replicate 24 5)) Key24Bytes
      (Some (replicate 16 9)) = Some (RIJNDAEL_SUCCESS, e) \<and>
    RijndaelInit blank_session Mode_CBC Direction_Decrypt (Some (replicate 24 5)) Key24Bytes
      (Some (replicate 16 9)) = Some (RIJNDAEL_SUCCESS, d) \<and>
    RijndaelPadEncrypt e (replicate 100 3) (Some 60) 32 0 = (48, mem1) \<and>
    RijndaelPadDecrypt d mem1 (Some 0) 48 0 = (32, mem2) \<and> rd mem2 0 32 = replicate 32 3"
proof -
  obtain e d where "RijndaelInit blank_session Mode_CBC Direction_Encrypt (Some (replicate 24 5)) Key24Bytes
      (Some (replicate 16 9)) = Some (RIJNDAEL_SUCCESS, e)"
    and "RijndaelInit blank_session Mode_CBC Direction_Decrypt (Some (replicate 24 5)) Key24Bytes
      (Some (replicate 16 9)) = Some (RIJNDAEL_SUCCESS, d)"
    and a: "\<forall>mem ip out len. 0 < len \<and> safe_regions ip out (Suc (len div 16)) \<and> ip + len \<le> length mem \<and>
        out + 16 * Suc (len div 16) \<le> length mem \<longrightarrow>
      (\<exists>mem1 mem2. RijndaelPadEncrypt e mem (Some ip) (int len) out = (16 * (int (len div 16) + 1), mem1) \<and>
        RijndaelPadDecrypt d mem1 (Some out) (16 * (int (len div 16) + 1)) out = (int len, mem2) \<and>
        rd mem2 out len = rd mem ip len)"
    using rijndael_cbc_padding_roundtrip [of blank_session blank_session "replicate 16 9" Key24Bytes "replicate 24 5"]
    by (auto simp: key_len_def)
  then show ?thesis
    using a [rule_format, of 32 60 0 "replicate 100 3"] by (auto simp: safe_regions_def rd_def)
qed

text \<open>padding in ECB mode is not symmetric. A message whose length is not a multiple of 16 makes
  the round trip; a message of whole blocks is padded by a block of sixteens, and
  \<open>RijndaelPadDecrypt\<close> answers \<open>RIJNDAEL_CORRUPTED_DATA\<close> because its test is \<open>padLen >= 16\<close>.\<close>

theorem rijndael_ecb_padding:
  assumes "rijndael_dims r1" and "rijndael_dims r2" and "length iv = 16"
    and "keyLen \<in> {Key16Bytes, Key24Bytes, Key32Bytes}" and "key_len keyLen \<le> length key"
  shows "\<exists>e d. RijndaelInit r1 Mode_ECB Direction_Encrypt (Some key) keyLen (Some iv) = Some (RIJNDAEL_SUCCESS, e) \<and>
    RijndaelInit r2 Mode_ECB Direction_Decrypt (Some key) keyLen (Some iv) = Some (RIJNDAEL_SUCCESS, d) \<and>
    (\<forall>mem ip out len. 0 < len \<and> safe_regions ip out (Suc (len div 16)) \<and> ip + len \<le> length mem \<and>
        out + 16 * Suc (len div 16) \<le> length mem \<longrightarrow>
      (\<exists>mem1 rc2 mem2. RijndaelPadEncrypt e mem (Some ip) (int len) out = (16 * (int (len div 16) + 1), mem1) \<and>
        RijndaelPadDecrypt d mem1 (Some out) (16 * (int (len div 16) + 1)) out = (rc2, mem2) \<and>
        (if len mod 16 = 0 then rc2 = RIJNDAEL_CORRUPTED_DATA
         else rc2 = int len \<and> rd mem2 out len = rd mem ip len)))"
proof -
  obtain e d where
    i: "RijndaelInit r1 Mode_ECB Direction_Encrypt (Some key) keyLen (Some iv) = Some (RIJNDAEL_SUCCESS, e)"
    "RijndaelInit r2 Mode_ECB Direction_Decrypt (Some key) keyLen (Some iv) = Some (RIJNDAEL_SUCCESS, d)"
    and s: "sessions_paired e d" "enc_session Mode_ECB e" "dec_session Mode_ECB d"
    by (rule Init_sessions [OF assms(1-3) _ assms(4,5), of Mode_ECB]) auto
  have "\<exists>mem1 rc2 mem2. RijndaelPadEncrypt e mem (Some ip) (int len) out = (16 * (int (len div 16) + 1), mem1) \<and>
      RijndaelPadDecrypt d mem1 (Some out) (16 * (int (len div 16) + 1)) out = (rc2, mem2) \<and>
      (if len mod 16 = 0 then rc2 = RIJNDAEL_CORRUPTED_DATA
       else rc2 = int len \<and> rd mem2 out len = rd mem ip len)"
    if "0 < len" "safe_regions ip out (Suc (len div 16))" "ip + len \<le> length mem"
      "out + 16 * Suc (len div 16) \<le> length mem" for mem ip out len
  proof -
    obtain rc mem1 where a: "RijndaelPadEncrypt e mem (Some ip) (int len) out = (rc, mem1)" by fastforce
    obtain rc2 mem2 where b: "RijndaelPadDecrypt d mem1 (Some out) rc out = (rc2, mem2)" by fastforce
    from Pad_ECB_inverse [OF s that a b] a b show ?thesis by auto
  qed
  with i show ?thesis by blast
qed

theorem rijndael_ecb_padding_witness:
  "\<exists>e d mem1 mem2. RijndaelInit blank_session Mode_ECB Direction_Encrypt (Some (replicate 16 5)) Key16Bytes
      (Some (replicate 16 9)) = Some (RIJNDAEL_SUCCESS, e) \<and>
    RijndaelInit blank_session Mode_ECB Direction_Decrypt (Some (replicate 16 5)) Key16Bytes
      (Some (replicate 16 9)) = Some (RIJNDAEL_SUCCESS, d) \<and>
    RijndaelPadEncrypt e (replicate 100 3) (Some 60) 32 0 = (48, mem1) \<and>
    RijndaelPadDecrypt d mem1 (Some 0) 48 0 = (RIJNDAEL_CORRUPTED_DATA, mem2)"
proof -
  obtain e d where "RijndaelInit blank_session Mode_ECB Direction_Encrypt (Some (replicate 16 5)) Key16Bytes
      (Some (replicate 16 9)) = Some (RIJNDAEL_SUCCESS, e)"
    and "RijndaelInit blank_session Mode_ECB Direction_Decrypt (Some (replicate 16 5)) Key16Bytes
      (Some (replicate 16 9)) = Some (RIJNDAEL_SUCCESS, d)"
    and a: "\<forall>mem ip out len. 0 < len \<and> safe_regions ip out (Suc (len div 16)) \<and> ip + len \<le> length mem \<and>
        out + 16 * Suc (len div 16) \<le> length mem \<longrightarrow>
      (\<exists>mem1 rc2 mem2. RijndaelPadEncrypt e mem (Some ip) (int len) out = (16 * (int (len div 16) + 1), mem1) \<and>
        RijndaelPadDecrypt d mem1 (Some out) (16 * (int (len div 16) + 1)) out = (rc2, mem2) \<and>
        (if len mod 16 = 0 then rc2 = RIJNDAEL_CORRUPTED_DATA
         else rc2 = int len \<and> rd mem2 out len = rd mem ip len))"
    using rijndael_ecb_padding [of blank_session blank_session "replicate 16 9" Key16Bytes "replicate 16 5"]
    by (auto simp: key_len_def)
  then show ?thesis
    using a [rule_format, of 32 60 0 "replicate 100 3"] by (auto simp: safe_regions_def)
qed

text \<open>CFB1 encryption does not depend on its plaintext: changing the input octets, with the
  previous content of the output block unchanged, never changes the output block.\<close>

theorem rijndael_cfb1_ignores_input:
  assumes "rijndael_dims r" and "length iv = 16" and "16 \<le> length key"
  shows "\<exists>e. RijndaelInit r Mode_CFB1 Direction_Encrypt (Some key) Key16Bytes (Some iv) = Some (RIJNDAEL_SUCCESS, e) \<and>
    (\<forall>mem ip out len msg msg'. length msg = length msg' \<and> ip + length msg \<le> out \<and> out + 16 \<le> length mem \<longrightarrow>
      rd (snd (RijndaelBlockEncrypt e (wr mem ip msg) (Some ip) len out)) out 16 =
      rd (snd (RijndaelBlockEncrypt e (wr mem ip msg') (Some ip) len out)) out 16)"
proof -
  have "supported Mode_CFB1 Direction_Encrypt Key16Bytes" "key_len Key16Bytes \<le> length key"
    using assms(3) by (simp_all add: supported_def key_len_def)
  from RijndaelInit_ok [OF this assms(1,2)]
  obtain e where i: "RijndaelInit r Mode_CFB1 Direction_Encrypt (Some key) Key16Bytes (Some iv) = Some (RIJNDAEL_SUCCESS, e)"
    and "m_state e = State_Valid" "m_mode e = Mode_CFB1" "m_direction e = Direction_Encrypt" "m_initVector e = iv"
    by blast
  then have s: "enc_session Mode_CFB1 e" using assms(2) by (simp add: enc_session_def)
  have "rd (snd (RijndaelBlockEncrypt e (wr mem ip msg) (Some ip) len out)) out 16 =
      rd (snd (RijndaelBlockEncrypt e (wr mem ip msg') (Some ip) len out)) out 16"
    if "length msg = length msg'" "ip + length msg \<le> out" "out + 16 \<le> length mem" for mem ip out len msg msg'
    using that by (intro BlockEncrypt_CFB1_agree [OF s]) (simp_all add: mem_simps dim_simps)
  with i show ?thesis by blast
qed

theorem rijndael_cfb1_ignores_input_witness:
  "\<exists>e. RijndaelInit blank_session Mode_CFB1 Direction_Encrypt (Some (replicate 16 5)) Key16Bytes
      (Some (replicate 16 9)) = Some (RIJNDAEL_SUCCESS, e) \<and>
    rd (snd (RijndaelBlockEncrypt e (wr (replicate 32 0) 0 (replicate 16 1)) (Some 0) 128 16)) 16 16 =
    rd (snd (RijndaelBlockEncrypt e (wr (replicate 32 0) 0 (replicate 16 2)) (Some 0) 128 16)) 16 16"
proof -
  obtain e where "RijndaelInit blank_session Mode_CFB1 Direction_Encrypt (Some (replicate 16 5)) Key16Bytes
      (Some (replicate 16 9)) = Some (RIJNDAEL_SUCCESS, e)"
    and a: "\<forall>mem ip out len msg msg'. length msg = length msg' \<and> ip + length msg \<le> out \<and> out + 16 \<le> length mem \<longrightarrow>
      rd (snd (RijndaelBlockEncrypt e (wr mem ip msg) (Some ip) len out)) out 16 =
      rd (snd (RijndaelBlockEncrypt e (wr mem ip msg') (Some ip) len out)) out 16"
    using rijndael_cfb1_ignores_input [of blank_session "replicate 16 9" "replicate 16 5"] by auto
  then show ?thesis
    using a [rule_format, of "replicate 16 1" "replicate 16 2" 0 16 "replicate 32 0" 128] by auto
qed

text \<open>after \<open>RijndaelInvalidate\<close>, or after a \<open>RijndaelInit\<close> that failed, each of the four
  buffer operations returns \<open>RIJNDAEL_NOT_INITIALIZED\<close> and leaves the memory as it was.\<close>

theorem rijndael_no_operation_without_session:
  assumes "s = RijndaelInvalidate r \<or>
    (\<exists>rc. RijndaelInit r mode dir key keyLen iv = Some (rc, s) \<and> \<not> (supported mode dir keyLen \<and> key \<noteq> None))"
  shows "RijndaelBlockEncrypt s mem ip len out = (RIJNDAEL_NOT_INITIALIZED, mem) \<and>
    RijndaelBlockDecrypt s mem ip len out = (RIJNDAEL_NOT_INITIALIZED, mem) \<and>
    RijndaelPadEncrypt s mem ip len out = (RIJNDAEL_NOT_INITIALIZED, mem) \<and>
    RijndaelPadDecrypt s mem ip len out = (RIJNDAEL_NOT_INITIALIZED, mem)"
proof -
  from assms have "m_state s \<noteq> State_Valid"
  proof
    assume "\<exists>rc. RijndaelInit r mode dir key keyLen iv = Some (rc, s) \<and> \<not> (supported mode dir keyLen \<and> key \<noteq> None)"
    then show ?thesis using RijndaelInit_fails [of mode dir keyLen key r iv] by auto
  qed (simp add: RijndaelInvalidate_def)
  then show ?thesis by (simp add: invalid_session_frame)
qed

theorem rijndael_no_operation_without_session_witness:
  "RijndaelBlockEncrypt (RijndaelInvalidate blank_session) [1, 2, 3] (Some 0) 128 0 = (RIJNDAEL_NOT_INITIALIZED, [1, 2, 3])"
  using rijndael_no_operation_without_session [of "RijndaelInvalidate blank_session" blank_session] by blast

end
