(* ===== verification/Hash_Stream.thy ===== *)
theory Hash_Stream
  imports Prelude
begin

text \<open>
  What the hash functions share: the conversions between machine words and octets of the two byte
  orders (\<^verbatim>\<open>PACK32\<close>, \<^verbatim>\<open>UNPACK32\<close>, \<^verbatim>\<open>PACK64\<close>, \<^verbatim>\<open>UNPACK64\<close> of \<^verbatim>\<open>sha2.c\<close>, the
  pointer casts of \<^verbatim>\<open>codec.c\<close>), and the locale \<open>streaming_hash\<close>, the contract of an
  init/update/final interface: the digest of a message that arrives in pieces is the hash of their
  concatenation.
\<close>

section \<open>Words and octets\<close>

definition load32le :: "bytes \<Rightarrow> u32" where
  "load32le b = ucast (b ! 0) OR push_bit 8 (ucast (b ! 1)) OR push_bit 16 (ucast (b ! 2)) OR
     push_bit 24 (ucast (b ! 3))"

definition store32le :: "u32 \<Rightarrow> bytes" where
  "store32le x = [ucast x, ucast (drop_bit 8 x), ucast (drop_bit 16 x), ucast (drop_bit 24 x)]"

definition PACK32 :: "bytes \<Rightarrow> u32" where
  "PACK32 str = ucast (str ! 3) OR push_bit 8 (ucast (str ! 2)) OR push_bit 16 (ucast (str ! 1)) OR
     push_bit 24 (ucast (str ! 0))"

definition UNPACK32 :: "u32 \<Rightarrow> bytes" where
  "UNPACK32 x = [ucast (drop_bit 24 x), ucast (drop_bit 16 x), ucast (drop_bit 8 x), ucast x]"

definition PACK64 :: "bytes \<Rightarrow> u64" where
  "PACK64 str = ucast (str ! 7) OR push_bit 8 (ucast (str ! 6)) OR push_bit 16 (ucast (str ! 5)) OR
     push_bit 24 (ucast (str ! 4)) OR push_bit 32 (ucast (str ! 3)) OR push_bit 40 (ucast (str ! 2)) OR
     push_bit 48 (ucast (str ! 1)) OR push_bit 56 (ucast (str ! 0))"

definition UNPACK64 :: "u64 \<Rightarrow> bytes" where
  "UNPACK64 x = [ucast (drop_bit 56 x), ucast (drop_bit 48 x), ucast (drop_bit 40 x), ucast (drop_bit 32 x),
     ucast (drop_bit 24 x), ucast (drop_bit 16 x), ucast (drop_bit 8 x), ucast x]"

text \<open>A 32-bit access through a pointer, on a machine of either byte order.\<close>

definition load32 :: "bool \<Rightarrow> bytes \<Rightarrow> u32" where
  "load32 le b = (if le then load32le b else PACK32 b)"

definition store32 :: "bool \<Rightarrow> u32 \<Rightarrow> bytes" where
  "store32 le x = (if le then store32le x else UNPACK32 x)"

lemma bit_octet_high [simp]: "8 \<le> n \<Longrightarrow> \<not> bit (a::u8) n"
  using bit_imp_le_length [of a n] by auto

lemma store32le_load32le [simp]: "length b = 4 \<Longrightarrow> store32le (load32le b) = b"
  by (elim length4E) (auto intro!: bit_word_eqI simp: store32le_def load32le_def bit_simps)

lemma UNPACK32_PACK32 [simp]: "length b = 4 \<Longrightarrow> UNPACK32 (PACK32 b) = b"
  by (elim length4E) (auto intro!: bit_word_eqI simp: UNPACK32_def PACK32_def bit_simps)

lemma load32le_store32le [simp]: "load32le (store32le x) = x"
proof (rule bit_word_eqI)
  fix n
  assume "n < LENGTH(32)"
  then consider "n < 8" | "8 \<le> n" "n < 16" | "16 \<le> n" "n < 24" | "24 \<le> n" "n < 32" by fastforce
  then show "bit (load32le (store32le x)) n = bit x n"
    by cases (auto simp: store32le_def load32le_def bit_simps)
qed

lemma PACK32_rev: "length b = 4 \<Longrightarrow> PACK32 (rev b) = load32le b"
  by (elim length4E) (simp add: PACK32_def load32le_def)

lemma UNPACK32_rev: "UNPACK32 x = rev (store32le x)"
  by (simp add: UNPACK32_def store32le_def)

lemma PACK32_UNPACK32 [simp]: "PACK32 (UNPACK32 x) = x"
proof -
  have "length (store32le x) = 4" by (simp add: store32le_def)
  then show ?thesis by (simp add: UNPACK32_rev PACK32_rev)
qed

lemma length_octets [simp]:
  "length (store32le x) = 4" "length (UNPACK32 x) = 4" "length (store32 le x) = 4" "length (UNPACK64 y) = 8"
  by (simp_all add: store32le_def UNPACK32_def UNPACK64_def store32_def)

lemma load32_store32 [simp]: "load32 le (store32 le x) = x"
  by (simp add: load32_def store32_def)

lemma store32_load32 [simp]: "length b = 4 \<Longrightarrow> store32 le (load32 le b) = b"
  by (simp add: load32_def store32_def)

section \<open>The contract of a hash function that is fed in pieces\<close>

text \<open>\<open>seen ctx m\<close>: the context stands for the message \<open>m\<close>; \<open>final\<close> returns the digest and the
  context it leaves behind.\<close>

locale streaming_hash =
  fixes fresh :: "'ctx \<Rightarrow> bool" and seen :: "'ctx \<Rightarrow> bytes \<Rightarrow> bool" and init :: "'ctx \<Rightarrow> 'ctx"
    and update :: "'ctx \<Rightarrow> bytes \<Rightarrow> 'ctx" and final :: "'ctx \<Rightarrow> bytes \<times> 'ctx"
    and hash :: "bytes \<Rightarrow> bytes" and piece_ok :: "bytes \<Rightarrow> bool"
  assumes seen_init: "fresh ctx \<Longrightarrow> seen (init ctx) []"
    and seen_update: "seen ctx m \<Longrightarrow> piece_ok p \<Longrightarrow> seen (update ctx p) (m @ p)"
    and seen_final: "seen ctx m \<Longrightarrow> fst (final ctx) = hash m"
    and fresh_final: "seen ctx m \<Longrightarrow> fresh (snd (final ctx))"
begin

lemma seen_pieces:
  "seen ctx m \<Longrightarrow> list_all piece_ok ps \<Longrightarrow> seen (foldl update ctx ps) (m @ concat ps)"
proof (induction ps arbitrary: ctx m)
  case (Cons p ps)
  then have "seen (update ctx p) (m @ p)" by (simp add: seen_update)
  from Cons.IH [OF this] Cons.prems(2) show ?case by simp
qed simp

lemma hash_pieces:
  "fresh ctx \<Longrightarrow> list_all piece_ok ps \<Longrightarrow> fst (final (foldl update (init ctx) ps)) = hash (concat ps)"
  using seen_final [OF seen_pieces [OF seen_init]] by simp

lemma hash_one: "fresh ctx \<Longrightarrow> piece_ok m \<Longrightarrow> fst (final (update (init ctx) m)) = hash m"
  using hash_pieces [of ctx "[m]"] by simp

text \<open>The context can be used again after \<open>final\<close>, whatever it hashed before.\<close>

lemma hash_again:
  assumes "fresh ctx" and "list_all piece_ok ps" and "list_all piece_ok qs"
  shows "fst (final (foldl update (init (snd (final (foldl update (init ctx) ps)))) qs)) = hash (concat qs)"
  using assms fresh_final [OF seen_pieces [OF seen_init]] by (intro hash_pieces) auto

end

end
