(* ===== verification/MD5.thy ===== *)
theory MD5
  imports Hash_Stream
begin

text \<open>
  The MD5 part of \<^verbatim>\<open>codec.c\<close>: \<open>MD5Init\<close>, \<open>MD5Update\<close>, \<open>MD5Final\<close>, \<open>MD5Transform\<close>,
  \<open>byteReverse\<close> and \<open>CodecGetMD5Binary\<close>. The byte order of the machine (\<open>le\<close>) and the size of a
  pointer (\<open>psz\<close>, which \<open>MD5Final\<close> passes to \<^verbatim>\<open>memset\<close>) are arguments of the model. The lemmas
  show that on either kind of machine the three operations compute, for any splitting of the message,
  the hash that pads the whole message and compresses its blocks (\<open>md5\<close>).
\<close>

section \<open>The context\<close>

record MD5_CTX =
  md5_buf :: "u32 list"
  md5_bits0 :: u32
  md5_bits1 :: u32
  md5_in :: bytes

definition byteReverse :: "bool \<Rightarrow> bytes \<Rightarrow> nat \<Rightarrow> bytes" where
  "byteReverse le b longs =
     (if le then b
      else fold (\<lambda>i b. wr b (4 * i) (store32 le (load32le (rd b (4 * i) 4)))) [0..<longs] b)"

text \<open>The cast \<open>(unsigned int *) ctx->in\<close>.\<close>

definition in_words :: "bool \<Rightarrow> bytes \<Rightarrow> u32 list" where
  "in_words le b = map (\<lambda>i. load32 le (rd b (4 * i) 4)) [0..<16]"

section \<open>The compression function\<close>

definition F1 :: "u32 \<Rightarrow> u32 \<Rightarrow> u32 \<Rightarrow> u32" where
  "F1 x y z = z XOR (x AND (y XOR z))"

definition F2 :: "u32 \<Rightarrow> u32 \<Rightarrow> u32 \<Rightarrow> u32" where
  "F2 x y z = F1 z x y"

definition F3 :: "u32 \<Rightarrow> u32 \<Rightarrow> u32 \<Rightarrow> u32" where
  "F3 x y z = x XOR y XOR z"

definition F4 :: "u32 \<Rightarrow> u32 \<Rightarrow> u32 \<Rightarrow> u32" where
  "F4 x y z = y XOR (x OR NOT z)"

definition MD5STEP :: "(u32 \<Rightarrow> u32 \<Rightarrow> u32 \<Rightarrow> u32) \<Rightarrow> u32 \<Rightarrow> u32 \<Rightarrow> u32 \<Rightarrow> u32 \<Rightarrow> u32 \<Rightarrow> nat \<Rightarrow> u32" where
  "MD5STEP f w x y z data s =
     (let w1 = w + (f x y z + data); w2 = push_bit s w1 OR drop_bit (32 - s) w1 in w2 + x)"

text \<open>The arguments of the 64 invocations: the function, the index of the data word, the constant and
  the rotation. From one invocation to the next the registers rotate by one place.\<close>

definition md5_steps :: "(nat \<times> nat \<times> u32 \<times> nat) list" where
  "md5_steps =
    [(1, 0, 0xd76aa478, 7), (1, 1, 0xe8c7b756, 12), (1, 2, 0x242070db, 17), (1, 3, 0xc1bdceee, 22),
     (1, 4, 0xf57c0faf, 7), (1, 5, 0x4787c62a, 12), (1, 6, 0xa8304613, 17), (1, 7, 0xfd469501, 22),
     (1, 8, 0x698098d8, 7), (1, 9, 0x8b44f7af, 12), (1, 10, 0xffff5bb1, 17), (1, 11, 0x895cd7be, 22),
     (1, 12, 0x6b901122, 7), (1, 13, 0xfd987193, 12), (1, 14, 0xa679438e, 17), (1, 15, 0x49b40821, 22),
     (2, 1, 0xf61e2562, 5), (2, 6, 0xc040b340, 9), (2, 11, 0x265e5a51, 14), (2, 0, 0xe9b6c7aa, 20),
     (2, 5, 0xd62f105d, 5), (2, 10, 0x02441453, 9), (2, 15, 0xd8a1e681, 14), (2, 4, 0xe7d3fbc8, 20),
     (2, 9, 0x21e1cde6, 5), (2, 14, 0xc33707d6, 9), (2, 3, 0xf4d50d87, 14), (2, 8, 0x455a14ed, 20),
     (2, 13, 0xa9e3e905, 5), (2, 2, 0xfcefa3f8, 9), (2, 7, 0x676f02d9, 14), (2, 12, 0x8d2a4c8a, 20),
     (3, 5, 0xfffa3942, 4), (3, 8, 0x8771f681, 11), (3, 11, 0x6d9d6122, 16), (3, 14, 0xfde5380c, 23),
     (3, 1, 0xa4beea44, 4), (3, 4, 0x4bdecfa9, 11), (3, 7, 0xf6bb4b60, 16), (3, 10, 0xbebfbc70, 23),
     (3, 13, 0x289b7ec6, 4), (3, 0, 0xeaa127fa, 11), (3, 3, 0xd4ef3085, 16), (3, 6, 0x04881d05, 23),
     (3, 9, 0xd9d4d039, 4), (3, 12, 0xe6db99e5, 11), (3, 15, 0x1fa27cf8, 16), (3, 2, 0xc4ac5665, 23),
     (4, 0, 0xf4292244, 6), (4, 7, 0x432aff97, 10), (4, 14, 0xab9423a7, 15), (4, 5, 0xfc93a039, 21),
     (4, 12, 0x655b59c3, 6), (4, 3, 0x8f0ccc92, 10), (4, 10, 0xffeff47d, 15), (4, 1, 0x85845dd1, 21),
     (4, 8, 0x6fa87e4f, 6), (4, 15, 0xfe2ce6e0, 10), (4, 6, 0xa3014314, 15), (4, 13, 0x4e0811a1, 21),
     (4, 4, 0xf7537e82, 6), (4, 11, 0xbd3af235, 10), (4, 2, 0x2ad7d2bb, 15), (4, 9, 0xeb86d391, 21)]"

definition md5_function :: "nat \<Rightarrow> u32 \<Rightarrow> u32 \<Rightarrow> u32 \<Rightarrow> u32" where
  "md5_function n = (if n = 1 then F1 else if n = 2 then F2 else if n = 3 then F3 else F4)"

definition MD5Transform :: "u32 list \<Rightarrow> u32 list \<Rightarrow> u32 list" where
  "MD5Transform buf data =
     (case fold (\<lambda>(f, k, t, s) (w, x, y, z). (z, MD5STEP (md5_function f) w x y z (data ! k + t) s, x, y))
             md5_steps (buf ! 0, buf ! 1, buf ! 2, buf ! 3) of
        (a, b, c, d) \<Rightarrow> [buf ! 0 + a, buf ! 1 + b, buf ! 2 + c, buf ! 3 + d])"

section \<open>Init, update, final\<close>

definition MD5Init :: "MD5_CTX \<Rightarrow> MD5_CTX" where
  "MD5Init ctx = ctx\<lparr>md5_buf := [0x67452301, 0xefcdab89, 0x98badcfe, 0x10325476],
     md5_bits0 := 0, md5_bits1 := 0\<rparr>"

text \<open>The loop over whole chunks and the copy of what remains.\<close>

function MD5Update_chunks :: "bool \<Rightarrow> u32 list \<Rightarrow> bytes \<Rightarrow> bytes \<Rightarrow> u32 list \<times> bytes" where
  "MD5Update_chunks le buf inb p =
     (if 64 \<le> length p
      then let inb' = byteReverse le (wr inb 0 (take 64 p)) 16
           in MD5Update_chunks le (MD5Transform buf (in_words le inb')) inb' (drop 64 p)
      else (buf, wr inb 0 p))"
  by pat_completeness auto
termination by (relation "measure (\<lambda>(_, _, _, p). length p)") auto

declare MD5Update_chunks.simps [simp del]

definition MD5Update :: "bool \<Rightarrow> MD5_CTX \<Rightarrow> bytes \<Rightarrow> MD5_CTX" where
  "MD5Update le ctx p =
     (let len = of_nat (length p) :: u32;
          t = md5_bits0 ctx;
          bits0 = t + push_bit 3 len;
          bits1 = (if bits0 < t then md5_bits1 ctx + 1 else md5_bits1 ctx) + drop_bit 29 len;
          ctx' = ctx\<lparr>md5_bits0 := bits0, md5_bits1 := bits1\<rparr>;
          used = unat (drop_bit 3 t AND 0x3f)
      in if used \<noteq> 0 \<and> length p < 64 - used
         then ctx'\<lparr>md5_in := wr (md5_in ctx) used p\<rparr>
         else let (buf, inb, p') =
                    (if used \<noteq> 0
                     then let inb = byteReverse le (wr (md5_in ctx) used (take (64 - used) p)) 16
                          in (MD5Transform (md5_buf ctx) (in_words le inb), inb, drop (64 - used) p)
                     else (md5_buf ctx, md5_in ctx, p));
                  (buf', inb') = MD5Update_chunks le buf inb p'
              in ctx'\<lparr>md5_buf := buf', md5_in := inb'\<rparr>)"

definition MD5Final :: "bool \<Rightarrow> nat \<Rightarrow> MD5_CTX \<Rightarrow> bytes \<times> MD5_CTX" where
  "MD5Final le psz ctx =
     (let count = unat (drop_bit 3 (md5_bits0 ctx) AND 0x3f);
          in1 = wr (md5_in ctx) count [0x80];
          p = count + 1;
          left = 64 - 1 - count;
          (buf1, in2) =
            (if left < 8
             then let inb = byteReverse le (wr in1 p (replicate left 0)) 16
                  in (MD5Transform (md5_buf ctx) (in_words le inb), wr inb 0 (replicate 56 0))
             else (md5_buf ctx, wr in1 p (replicate (left - 8) 0)));
          in3 = byteReverse le in2 14;
          in4 = wr (wr in3 56 (store32 le (md5_bits0 ctx))) 60 (store32 le (md5_bits1 ctx));
          buf2 = MD5Transform buf1 (in_words le in4);
          octets = byteReverse le (concat (map (store32 le) buf2)) 4;
          cleared = wr octets 0 (replicate psz 0)
      in (rd octets 0 16,
          ctx\<lparr>md5_buf := map (\<lambda>i. load32 le (rd cleared (4 * i) 4)) [0..<4], md5_in := in4\<rparr>))"

definition CodecGetMD5Binary :: "bool \<Rightarrow> nat \<Rightarrow> MD5_CTX \<Rightarrow> bytes \<Rightarrow> bytes" where
  "CodecGetMD5Binary le psz ctx data = fst (MD5Final le psz (MD5Update le (MD5Init ctx) data))"

section \<open>Reference\<close>

definition md5_iv :: "u32 list" where
  "md5_iv = [0x67452301, 0xefcdab89, 0x98badcfe, 0x10325476]"

definition le_words :: "bytes \<Rightarrow> u32 list" where
  "le_words b = map (\<lambda>i. load32le (rd b (4 * i) 4)) [0..<16]"

definition md5_compress :: "bytes \<Rightarrow> u32 list \<Rightarrow> u32 list" where
  "md5_compress b st = MD5Transform st (le_words b)"

text \<open>The padding of a message: one bit, zeros up to 56 octets modulo 64, and the number of bits as a
  64-bit little-endian number.\<close>

definition md5_tail :: "nat \<Rightarrow> bytes" where
  "md5_tail n = 0x80 # replicate ((119 - n mod 64) mod 64) 0 @
     (let bits = of_nat (8 * n) :: u64 in store32le (ucast bits) @ store32le (ucast (drop_bit 32 bits)))"

definition md5 :: "bytes \<Rightarrow> bytes" where
  "md5 m = concat (map store32le (fold md5_compress (blocks 64 (m @ md5_tail (length m))) md5_iv))"

section \<open>The byte order does not matter\<close>

lemma length_byteReverse [simp]: "4 * n \<le> length b \<Longrightarrow> length (byteReverse le b n) = length b"
proof (induction n)
  case (Suc n)
  then show ?case by (cases le) (auto simp: byteReverse_def dim_simps)
qed (simp add: byteReverse_def)

lemma rd_byteReverse:
  "4 * n \<le> length b \<Longrightarrow> 4 * k + 4 \<le> length b \<Longrightarrow> rd (byteReverse le b n) (4 * k) 4 =
    (if k < n then store32 le (load32le (rd b (4 * k) 4)) else rd b (4 * k) 4)"
proof (induction n)
  case 0
  then show ?case by (simp add: byteReverse_def)
next
  case (Suc n)
  show ?case
  proof (cases le)
    case True
    with Suc.prems show ?thesis by (simp add: byteReverse_def store32_def dim_simps)
  next
    case False
    have step: "byteReverse le b (Suc n) =
        wr (byteReverse le b n) (4 * n) (store32 le (load32le (rd (byteReverse le b n) (4 * n) 4)))"
      using False by (simp add: byteReverse_def)
    have l: "length (byteReverse le b n) = length b" using Suc.prems by simp
    consider "k < n" | "k = n" | "n < k" by linarith
    then show ?thesis
      using Suc.IH Suc.prems l unfolding step by cases (simp_all add: mem_simps)
  qed
qed

lemma in_words_byteReverse [simp]: "64 \<le> length b \<Longrightarrow> in_words le (byteReverse le b 16) = le_words b"
  by (auto simp: in_words_def le_words_def rd_byteReverse)

text \<open>Words stored through the cast and octets reversed afterwards.\<close>

lemma in_words_final:
  assumes "length b = 64"
  shows "in_words le (wr (wr (byteReverse le b 14) 56 (store32 le x)) 60 (store32 le y)) =
    le_words (rd b 0 56 @ store32le x @ store32le y)"
proof -
  let ?r = "byteReverse le b 14"
  have l: "length ?r = 64" using assms by simp
  have a: "rd (wr (wr ?r 56 (store32 le x)) 60 (store32 le y)) (4 * i) 4 =
      (if i < 14 then store32 le (load32le (rd b (4 * i) 4)) else if i = 14 then store32 le x else store32 le y)"
    if i: "i < 16" for i
  proof -
    consider "i < 14" | "i = 14" | "i = 15" using i by linarith
    then show ?thesis
      using l assms by cases (simp_all add: mem_simps dim_simps rd_byteReverse)
  qed
  have c: "rd (rd b 0 56 @ store32le x @ store32le y) (4 * i) 4 =
      (if i < 14 then rd b (4 * i) 4 else if i = 14 then store32le x else store32le y)" if i: "i < 16" for i
  proof -
    consider "i < 14" | "i = 14" | "i = 15" using i by linarith
    then show ?thesis
    proof cases
      case 1
      then have "4 \<le> 56 - 4 * i" by linarith
      with 1 assms show ?thesis by (simp add: rd_def drop_take min_def)
    qed (use assms in \<open>simp_all add: rd_def\<close>)
  qed
  show ?thesis
    unfolding in_words_def le_words_def by (intro map_cong refl) (auto simp: a c)
qed

lemma octets_byteReverse:
  assumes "length ws = 4"
  shows "rd (byteReverse le (concat (map (store32 le) ws)) 4) 0 16 = concat (map store32le ws)"
proof -
  obtain a b c d where ws: "ws = [a, b, c, d]" using assms by (rule length4E)
  let ?o = "concat (map (store32 le) ws)"
  have l: "length ?o = 16" by (simp add: ws)
  have cell: "rd ?o (4 * i) 4 = store32 le (ws ! i)" if i: "i < 4" for i
  proof -
    consider "i = 0" | "i = 1" | "i = 2" | "i = 3" using i by linarith
    then show ?thesis by cases (simp_all add: ws rd_def)
  qed
  have "store32 le (load32le (store32 le x)) = store32le x" for x
    by (cases le) (simp_all add: store32_def UNPACK32_rev)
  then have r: "rd (byteReverse le ?o 4) (4 * i) 4 = store32le (ws ! i)" if "i < 4" for i
    using that l rd_byteReverse [of 4 ?o i le] cell [OF that] by simp
  have "rd x 0 16 = rd x 0 4 @ rd x 4 4 @ rd x 8 4 @ rd x 12 4" for x :: bytes
    using rd_split [of x 0 4 12] rd_split [of x 4 4 8] rd_split [of x 8 4 4] by simp
  then show ?thesis using r [of 0] r [of 1] r [of 2] r [of 3] by (simp add: ws)
qed


section \<open>The contract\<close>

text \<open>\<open>md5_seen ctx m\<close>: the complete blocks of \<open>m\<close> have been compressed, the rest of \<open>m\<close> waits in
  the buffer and the two counters hold the number of bits modulo \<open>2 ^ 64\<close>.\<close>

definition md5_fresh :: "MD5_CTX \<Rightarrow> bool" where
  "md5_fresh ctx \<longleftrightarrow> length (md5_in ctx) = 64"

definition md5_seen :: "MD5_CTX \<Rightarrow> bytes \<Rightarrow> bool" where
  "md5_seen ctx m \<longleftrightarrow> length (md5_in ctx) = 64 \<and>
     md5_buf ctx = fold md5_compress (blocks 64 m) md5_iv \<and>
     rd (md5_in ctx) 0 (length m mod 64) = rest 64 m \<and>
     md5_bits0 ctx = of_nat (8 * length m) \<and> md5_bits1 ctx = of_nat (8 * length m div 2 ^ 32)"

lemma len32: "LENGTH(32) = 32"
  by simp

lemma md5_used: "unat (drop_bit 3 (of_nat (8 * n) :: u32) AND 0x3f) = n mod 64"
proof -
  have "drop_bit 3 (of_nat (8 * n) :: u32) AND 0x3f = take_bit 6 (drop_bit 3 (of_nat (8 * n)))"
    by (simp add: take_bit_eq_mask mask_numeral)
  then have "unat (drop_bit 3 (of_nat (8 * n) :: u32) AND 0x3f) = take_bit 6 (drop_bit 3 (8 * n mod 2 ^ 32))"
    by (simp only: unsigned_take_bit_eq unat_drop_bit_eq unat_of_nat len32)
  also have "8 * n mod 2 ^ 32 = 8 * (n mod 2 ^ 29)"
    using mult_mod_right [of 8 n "2 ^ 29"] by simp
  also have "take_bit 6 (drop_bit 3 (8 * (n mod 2 ^ 29))) = n mod 64"
    using mod_mod_cancel [of 64 "2 ^ 29" n] by (simp add: take_bit_eq_mod drop_bit_eq_div)
  finally show ?thesis .
qed

lemma md5_count_low: "(of_nat (8 * n) :: u32) + push_bit 3 (of_nat k) = of_nat (8 * (n + k))"
  by (simp add: push_bit_eq_mult)

lemma carry_mod:
  fixes a b M :: nat
  assumes "a < M" and "b < M"
  shows "(a + b) mod M < a \<longleftrightarrow> M \<le> a + b" and "(a + b) div M = (if M \<le> a + b then 1 else 0)"
proof -
  have "(a + b) mod M = (if M \<le> a + b then a + b - M else a + b)"
    using assms by (auto simp: le_mod_geq)
  then show "(a + b) mod M < a \<longleftrightarrow> M \<le> a + b" using assms by auto
  show "(a + b) div M = (if M \<le> a + b then 1 else 0)"
    using assms by (auto simp: le_div_geq)
qed

lemma md5_count_high:
  fixes n k :: nat
  defines "t \<equiv> of_nat (8 * n) :: u32"
  assumes "k < 2 ^ 32"
  shows "(if t + push_bit 3 (of_nat k) < t then of_nat (8 * n div 2 ^ 32) + 1 else of_nat (8 * n div 2 ^ 32)) +
    drop_bit 29 (of_nat k :: u32) = (of_nat (8 * (n + k) div 2 ^ 32) :: u32)"
proof -
  let ?a = "8 * n mod 2 ^ 32" and ?b = "8 * k mod 2 ^ 32"
  have t: "unat t = ?a" by (simp add: t_def unat_of_nat del: of_nat_mult)
  have s: "unat (t + push_bit 3 (of_nat k)) = (?a + ?b) mod 2 ^ 32"
    unfolding t_def md5_count_low by (simp add: unat_of_nat mod_simps distrib_left del: of_nat_mult of_nat_add)
  have d: "drop_bit 29 (of_nat k :: u32) = of_nat (8 * k div 2 ^ 32)"
  proof (rule word_unat_eq_iff [THEN iffD2])
    have "k div 2 ^ 29 < 2 ^ 32" "8 * k div 2 ^ 32 = k div 2 ^ 29" using assms(2) by simp_all
    then show "unat (drop_bit 29 (of_nat k :: u32)) = unat (of_nat (8 * k div 2 ^ 32) :: u32)"
      using assms(2) unfolding unat_drop_bit_eq unat_of_nat len32 by (simp add: drop_bit_eq_div)
  qed
  have carry: "t + push_bit 3 (of_nat k) < t \<longleftrightarrow> 2 ^ 32 \<le> ?a + ?b"
    unfolding word_less_nat_alt s t by (rule carry_mod) simp_all
  have "8 * (n + k) div 2 ^ 32 = 8 * n div 2 ^ 32 + 8 * k div 2 ^ 32 + (?a + ?b) div 2 ^ 32"
    unfolding distrib_left by (rule div_add1_eq)
  moreover have "(?a + ?b) div 2 ^ 32 = (if 2 ^ 32 \<le> ?a + ?b then 1 else 0)"
    by (rule carry_mod) simp_all
  ultimately have "8 * (n + k) div 2 ^ 32 =
      8 * n div 2 ^ 32 + 8 * k div 2 ^ 32 + (if 2 ^ 32 \<le> ?a + ?b then 1 else 0)"
    by (rule back_subst [where P = "\<lambda>x. _ = _ + x"])
  then show ?thesis
    unfolding d carry by (cases "2 ^ 32 \<le> ?a + ?b") simp_all
qed


lemma length_MD5Transform [simp]: "length (MD5Transform b w) = 4"
  by (simp add: MD5Transform_def split: prod.split)

lemma length_md5_state [simp]: "length (fold md5_compress bs md5_iv) = 4"
  by (induction bs rule: rev_induct) (simp_all add: md5_iv_def md5_compress_def)

lemma MD5Update_chunks_blocks:
  assumes "length inb = 64"
  shows "\<exists>inb'. MD5Update_chunks le buf inb p = (fold md5_compress (blocks 64 p) buf, inb') \<and>
    length inb' = 64 \<and> rd inb' 0 (length p mod 64) = rest 64 p"
  using assms
proof (induction "length p" arbitrary: buf inb p rule: less_induct)
  case less
  show ?case
  proof (cases "64 \<le> length p")
    case True
    let ?b = "take 64 p" and ?q = "drop 64 p"
    have b: "length ?b = 64" using True by simp
    let ?in = "byteReverse le (wr inb 0 ?b) 16"
    have p: "p = ?b @ ?q" by simp
    have w: "wr inb 0 ?b = ?b" using b less.prems by (intro wr_all) simp
    have i: "length ?in = 64" using b w by simp
    have "length ?q < length p" using True by simp
    from less.hyps [OF this i] obtain inb' where
      "MD5Update_chunks le (md5_compress ?b buf) ?in ?q = (fold md5_compress (blocks 64 ?q) (md5_compress ?b buf), inb')"
      "length inb' = 64" "rd inb' 0 (length ?q mod 64) = rest 64 ?q" by blast
    moreover have "MD5Transform buf (in_words le ?in) = md5_compress ?b buf"
      using b w by (simp add: md5_compress_def)
    moreover have "blocks 64 p = ?b # blocks 64 ?q" "rest 64 p = rest 64 ?q" "length p mod 64 = length ?q mod 64"
      using b True blocks_one [of ?b 64 ?q] rest_one [of ?b 64 ?q] by (simp_all add: le_mod_geq)
    ultimately show ?thesis using True by (subst MD5Update_chunks.simps) (auto simp: Let_def)
  next
    case False
    then have "rd (wr inb 0 p) 0 (length p) = p" "length (wr inb 0 p) = 64"
      using less.prems by (auto simp: mem_simps dim_simps)
    with False show ?thesis by (subst MD5Update_chunks.simps) simp
  qed
qed

lemma md5_seen_init: "md5_fresh ctx \<Longrightarrow> md5_seen (MD5Init ctx) []"
  by (simp add: md5_fresh_def md5_seen_def MD5Init_def md5_iv_def rd_def)

declare MD5Update_chunks.simps [simp del]

lemma md5_seen_update:
  assumes s: "md5_seen ctx m" and k: "length p < 2 ^ 32"
  shows "md5_seen (MD5Update le ctx p) (m @ p)"
proof -
  let ?u = "length m mod 64" and ?r = "rest 64 m"
  have r: "length ?r = ?u" by (simp add: length_rest)
  have u: "unat (drop_bit 3 (md5_bits0 ctx) AND 0x3f) = ?u" and l: "length (md5_in ctx) = 64"
    and b: "md5_buf ctx = fold md5_compress (blocks 64 m) md5_iv" and inr: "rd (md5_in ctx) 0 ?u = ?r"
    using s md5_used [of "length m"] by (simp_all add: md5_seen_def del: of_nat_mult)
  define c where "c = ctx\<lparr>md5_bits0 := of_nat (8 * length (m @ p)), md5_bits1 := of_nat (8 * length (m @ p) div 2 ^ 32)\<rparr>"
  have bl: "blocks 64 (m @ p) = blocks 64 m @ blocks 64 (?r @ p)" and re: "rest 64 (m @ p) = rest 64 (?r @ p)"
    by (rule blocks_append rest_append; simp)+
  have le: "length (m @ p) mod 64 = length (?r @ p) mod 64" using r by (simp add: mod_simps)
  have cnt: "md5_bits0 ctx + push_bit 3 (of_nat (length p)) = of_nat (8 * length (m @ p))"
    "(if md5_bits0 ctx + push_bit 3 (of_nat (length p)) < md5_bits0 ctx then md5_bits1 ctx + 1 else md5_bits1 ctx) +
      drop_bit 29 (of_nat (length p)) = of_nat (8 * length (m @ p) div 2 ^ 32)"
    using s md5_count_low [of "length m" "length p"] md5_count_high [OF k, of "length m"]
    by (simp_all only: md5_seen_def length_append)
  have upd: "MD5Update le ctx p =
      (if ?u \<noteq> 0 \<and> length p < 64 - ?u then c\<lparr>md5_in := wr (md5_in ctx) ?u p\<rparr>
       else let (buf, inb, p') =
                  (if ?u \<noteq> 0
                   then let inb = byteReverse le (wr (md5_in ctx) ?u (take (64 - ?u) p)) 16
                        in (MD5Transform (md5_buf ctx) (in_words le inb), inb, drop (64 - ?u) p)
                   else (md5_buf ctx, md5_in ctx, p));
                (buf', inb') = MD5Update_chunks le buf inb p'
            in c\<lparr>md5_buf := buf', md5_in := inb'\<rparr>)"
    unfolding MD5Update_def Let_def u cnt(2) unfolding cnt(1) c_def ..
  have seen: "md5_seen (c\<lparr>md5_buf := fold md5_compress (blocks 64 (?r @ p)) (md5_buf ctx), md5_in := inb\<rparr>) (m @ p)"
    if "length inb = 64" "rd inb 0 (length (?r @ p) mod 64) = rest 64 (?r @ p)" for inb
    using that b unfolding md5_seen_def bl re le c_def by simp
  have u64: "?u < 64" by simp
  consider "?u \<noteq> 0" "length p < 64 - ?u" | "?u \<noteq> 0" "64 - ?u \<le> length p" | "?u = 0" by linarith
  then show ?thesis
  proof cases
    case 1
    have "c\<lparr>md5_buf := fold md5_compress (blocks 64 (?r @ p)) (md5_buf ctx), md5_in := wr (md5_in ctx) ?u p\<rparr> =
        c\<lparr>md5_in := wr (md5_in ctx) ?u p\<rparr>"
      using 1 r by (simp add: c_def)
    moreover have "rd (wr (md5_in ctx) ?u p) 0 (?u + length p) = ?r @ p"
      using 1 l inr rd_split [of "wr (md5_in ctx) ?u p" 0 ?u "length p"] by (simp add: mem_simps)
    ultimately show ?thesis
      using 1 upd seen [of "wr (md5_in ctx) ?u p"] l r by (simp add: dim_simps)
  next
    case 2
    let ?q = "take (64 - ?u) p"
    let ?blk = "?r @ ?q" and ?p = "drop (64 - ?u) p"
    have blk: "length ?blk = 64" using 2 r u64 by simp
    have w: "wr (md5_in ctx) ?u ?q = ?blk"
      using 2 l inr u64 by (simp add: wr_def rd_def)
    have split: "?r @ p = ?blk @ ?p" by simp
    have i: "length (byteReverse le ?blk 16) = 64" using blk by simp
    obtain inb where ch: "MD5Update_chunks le (md5_compress ?blk (md5_buf ctx)) (byteReverse le ?blk 16) ?p =
        (fold md5_compress (blocks 64 ?p) (md5_compress ?blk (md5_buf ctx)), inb)"
      and inb: "length inb = 64" "rd inb 0 (length ?p mod 64) = rest 64 ?p"
      using MD5Update_chunks_blocks [OF i] by blast
    have bl': "blocks 64 (?r @ p) = ?blk # blocks 64 ?p" and re': "rest 64 (?r @ p) = rest 64 ?p"
      unfolding split using blk by (rule blocks_one rest_one; simp)+
    have le': "length (?r @ p) mod 64 = length ?p mod 64"
      unfolding split length_append [of ?blk] blk by simp
    have tr: "MD5Transform (md5_buf ctx) (in_words le (byteReverse le ?blk 16)) = md5_compress ?blk (md5_buf ctx)"
      using blk by (simp add: md5_compress_def)
    have cond: "(length p < 64 - ?u) = False" "(?u \<noteq> 0) = True" using 2 by simp_all
    have "MD5Update le ctx p =
        c\<lparr>md5_buf := fold md5_compress (blocks 64 (?r @ p)) (md5_buf ctx), md5_in := inb\<rparr>"
      unfolding upd cond simp_thms if_False if_True Let_def w tr prod.case ch bl' by simp
    moreover have "rd inb 0 (length (?r @ p) mod 64) = rest 64 (?r @ p)" unfolding le' re' by (rule inb(2))
    ultimately show ?thesis using seen [OF inb(1)] by simp
  next
    case 3
    then have "?r = []" using r by simp
    moreover obtain inb where "MD5Update_chunks le (md5_buf ctx) (md5_in ctx) p = (fold md5_compress (blocks 64 p) (md5_buf ctx), inb)"
      "length inb = 64" "rd inb 0 (length p mod 64) = rest 64 p"
      using MD5Update_chunks_blocks [OF l] by blast
    ultimately show ?thesis using 3 upd seen [of inb] by simp
  qed
qed

lemma md5_bits_ucast:
  "(ucast (of_nat n :: u64) :: u32) = of_nat n"
  "(ucast (drop_bit 32 (of_nat n :: u64)) :: u32) = of_nat (n div 2 ^ 32)"
  unfolding drop_bit_eq_div [symmetric] by (rule bit_word_eqI; simp add: bit_simps)+

lemma md5_tail_short:
  "n mod 64 < 56 \<Longrightarrow> md5_tail n = 0x80 # replicate (55 - n mod 64) 0 @
     store32le (of_nat (8 * n)) @ store32le (of_nat (8 * n div 2 ^ 32))"
proof -
  assume "n mod 64 < 56"
  then have "(119 - n mod 64) mod 64 = 55 - n mod 64" by (simp add: le_mod_geq)
  then show ?thesis by (simp only: md5_tail_def Let_def md5_bits_ucast)
qed

lemma md5_tail_long:
  "56 \<le> n mod 64 \<Longrightarrow> md5_tail n = 0x80 # replicate (63 - n mod 64) 0 @ replicate 56 0 @
     store32le (of_nat (8 * n)) @ store32le (of_nat (8 * n div 2 ^ 32))"
proof -
  assume a: "56 \<le> n mod 64"
  have "n mod 64 < 64" by simp
  with a have "(119 - n mod 64) mod 64 = (63 - n mod 64) + 56" by simp
  then show ?thesis by (simp only: md5_tail_def Let_def md5_bits_ucast replicate_add append_assoc)
qed

lemma md5_seen_final:
  assumes s: "md5_seen ctx m"
  shows "fst (MD5Final le psz ctx) = md5 m" and "md5_fresh (snd (MD5Final le psz ctx))"
proof -
  let ?u = "length m mod 64" and ?r = "rest 64 m" and ?x = "md5_bits0 ctx" and ?y = "md5_bits1 ctx"
  let ?in = "md5_in ctx" and ?buf = "md5_buf ctx"
  have r: "length ?r = ?u" by (simp add: length_rest)
  have u: "unat (drop_bit 3 ?x AND 0x3f) = ?u" and l: "length ?in = 64"
    and b: "?buf = fold md5_compress (blocks 64 m) md5_iv" and inr: "rd ?in 0 ?u = ?r"
    and x: "?x = of_nat (8 * length m)" and y: "?y = of_nat (8 * length m div 2 ^ 32)"
    using s md5_used [of "length m"] by (simp_all add: md5_seen_def del: of_nat_mult)
  have tk: "take ?u ?in = ?r" using inr by (simp add: rd_def)
  have u64: "?u < 64" by simp
  obtain buf1 in2 where st:
    "(if 64 - 1 - ?u < 8
      then let inb = byteReverse le (wr (wr ?in ?u [0x80]) (?u + 1) (replicate (64 - 1 - ?u) 0)) 16
           in (MD5Transform ?buf (in_words le inb), wr inb 0 (replicate 56 0))
      else (?buf, wr (wr ?in ?u [0x80]) (?u + 1) (replicate (64 - 1 - ?u - 8) 0))) = (buf1, in2)"
    by fastforce
  have fin: "length in2 = 64 \<and>
    fold md5_compress (blocks 64 (m @ md5_tail (length m))) md5_iv =
      md5_compress (rd in2 0 56 @ store32le ?x @ store32le ?y) buf1"
  proof (cases "?u < 56")
    case True
    then have "\<not> 64 - 1 - ?u < 8" "64 - 1 - ?u - 8 = 55 - ?u" by linarith+
    then have in2: "in2 = wr (wr ?in ?u [0x80]) (?u + 1) (replicate (55 - ?u) 0)" "buf1 = ?buf"
      using st by (simp_all only: if_False prod.inject)
    have blk: "rd in2 0 56 = ?r @ 0x80 # replicate (55 - ?u) 0"
    proof -
      have "?u + (1 + (55 - ?u)) = 56" using True by linarith
      then have "rd in2 0 56 = rd in2 0 ?u @ rd in2 ?u 1 @ rd in2 (?u + 1) (55 - ?u)"
        using rd_split [of in2 0 ?u "1 + (55 - ?u)"] rd_split [of in2 ?u 1 "55 - ?u"] by simp
      then show ?thesis using True l r inr by (simp add: in2 mem_simps dim_simps)
    qed
    have "?r @ md5_tail (length m) = (rd in2 0 56 @ store32le ?x @ store32le ?y) @ []"
      using md5_tail_short [OF True] by (simp add: blk x y)
    then have "blocks 64 (?r @ md5_tail (length m)) = [rd in2 0 56 @ store32le ?x @ store32le ?y]"
      using True r by (simp add: blk blocks_one [of _ 64 "[]", simplified])
    then show ?thesis
      using True l b blocks_append [of 64 m "md5_tail (length m)"] by (simp add: in2 dim_simps)
  next
    case False
    let ?b1 = "?r @ 0x80 # replicate (63 - ?u) 0"
    have b1: "length ?b1 = 64" using r u64 by simp
    have w: "wr (wr ?in ?u [0x80]) (?u + 1) (replicate (63 - ?u) 0) = ?b1"
      using l r u64 by (simp add: wr_def tk)
    have "64 - 1 - ?u < 8" "64 - 1 - ?u = 63 - ?u" using False u64 by linarith+
    then have in2: "in2 = wr (byteReverse le ?b1 16) 0 (replicate 56 0)"
      "buf1 = MD5Transform ?buf (in_words le (byteReverse le ?b1 16))"
      using st by (simp_all only: if_True prod.inject Let_def w)
    have buf1: "buf1 = md5_compress ?b1 ?buf" using b1 by (simp add: in2 md5_compress_def)
    have blk: "rd in2 0 56 = replicate 56 0"
      using b1 by (simp add: in2 mem_simps)
    have "?r @ md5_tail (length m) = ?b1 @ (rd in2 0 56 @ store32le ?x @ store32le ?y) @ []"
      using md5_tail_long [of "length m"] False by (simp add: blk x y)
    then have "blocks 64 (?r @ md5_tail (length m)) = [?b1, rd in2 0 56 @ store32le ?x @ store32le ?y]"
      using b1 by (simp only: blocks_one zero_less_numeral) (simp add: blk blocks_one [of _ 64 "[]", simplified])
    then show ?thesis
      using b1 b blocks_append [of 64 m "md5_tail (length m)"] by (simp add: in2(1) buf1 dim_simps)
  qed
  let ?buf2 = "MD5Transform buf1 (in_words le (wr (wr (byteReverse le in2 14) 56 (store32 le ?x)) 60 (store32 le ?y)))"
  have "?buf2 = fold md5_compress (blocks 64 (m @ md5_tail (length m))) md5_iv"
    using fin by (simp add: in_words_final md5_compress_def)
  then have "rd (byteReverse le (concat (map (store32 le) ?buf2)) 4) 0 16 = md5 m"
    by (simp add: octets_byteReverse md5_def)
  moreover have "MD5Final le psz ctx =
    (rd (byteReverse le (concat (map (store32 le) ?buf2)) 4) 0 16,
     ctx\<lparr>md5_buf := map (\<lambda>i. load32 le (rd (wr (byteReverse le (concat (map (store32 le) ?buf2)) 4) 0 (replicate psz 0)) (4 * i) 4)) [0..<4],
       md5_in := wr (wr (byteReverse le in2 14) 56 (store32 le ?x)) 60 (store32 le ?y)\<rparr>)"
    unfolding MD5Final_def Let_def u st [unfolded Let_def] prod.case ..
  ultimately show "fst (MD5Final le psz ctx) = md5 m" and "md5_fresh (snd (MD5Final le psz ctx))"
    using fin by (simp_all add: md5_fresh_def dim_simps)
qed

interpretation md5_hash: streaming_hash md5_fresh md5_seen MD5Init "MD5Update le" "MD5Final le psz" md5
  "\<lambda>p. length p < 2 ^ 32" for le psz
  by unfold_locales (auto intro: md5_seen_init md5_seen_update md5_seen_final)

lemma CodecGetMD5Binary_md5:
  "md5_fresh ctx \<Longrightarrow> length data < 2 ^ 32 \<Longrightarrow> CodecGetMD5Binary le psz ctx data = md5 data"
  unfolding CodecGetMD5Binary_def by (rule md5_hash.hash_one)

lemma length_md5 [simp]: "length (md5 m) = 16"
proof -
  obtain a b c d where "fold md5_compress (blocks 64 (m @ md5_tail (length m))) md5_iv = [a, b, c, d]"
    using length_md5_state by (rule length4E)
  then show ?thesis by (simp add: md5_def)
qed

text \<open>What \<open>MD5Final\<close> leaves in the context.\<close>

lemma MD5Final_context:
  "\<exists>octets. length octets = 16 \<and> fst (MD5Final le psz ctx) = octets \<and>
    md5_buf (snd (MD5Final le psz ctx)) = map (\<lambda>i. load32 le (rd (wr octets 0 (replicate psz 0)) (4 * i) 4)) [0..<4]"
proof -
  have o: "length (byteReverse le (concat (map (store32 le) (MD5Transform b w))) 4) = 16" for b w
  proof -
    obtain a1 a2 a3 a4 where "MD5Transform b w = [a1, a2, a3, a4]" using length_MD5Transform by (rule length4E)
    then show ?thesis by simp
  qed
  show ?thesis
    unfolding MD5Final_def Let_def by (auto split: prod.split simp: o rd_all)
qed

section \<open>Properties\<close>

text \<open>A context on the stack before its first use.\<close>

definition md5_blank :: MD5_CTX where
  "md5_blank = \<lparr>md5_buf = [0, 0, 0, 0], md5_bits0 = 0, md5_bits1 = 0, md5_in = replicate 64 0\<rparr>"

lemma md5_blank_fresh [simp]: "md5_fresh md5_blank"
  by (simp add: md5_fresh_def md5_blank_def)

text \<open>C13: on a machine of either byte order, a message fed to \<open>MD5Update\<close> in any number of pieces (each
  shorter than the range of \<^verbatim>\<open>unsigned\<close>) has the digest of the reference definition, which pads
  the whole message and compresses it block by block; the bit count is carried across the two 32-bit
  counters.\<close>

theorem md5_of_pieces:
  assumes "length (md5_in ctx) = 64" and "\<forall>p \<in> set ps. length p < 2 ^ 32"
  shows "fst (MD5Final le psz (foldl (MD5Update le) (MD5Init ctx) ps)) = md5 (concat ps)"
  using assms md5_hash.hash_pieces [of ctx ps le psz] by (simp add: md5_fresh_def list_all_iff)

theorem md5_of_pieces_witness:
  "fst (MD5Final False 8 (foldl (MD5Update False) (MD5Init md5_blank) [replicate 60 1, [2, 3], replicate 70 4])) =
   md5 (replicate 60 1 @ [2, 3] @ replicate 70 4)"
  using md5_of_pieces [of md5_blank "[replicate 60 1, [2, 3], replicate 70 4]" False 8]
  by (simp add: md5_blank_def)

text \<open>The test vectors of RFC 1321 for \<open>CodecGetMD5Binary\<close>, on machines of both byte orders: the
  empty message and \<open>abc\<close>.\<close>

theorem md5_test_vectors:
  "CodecGetMD5Binary le psz md5_blank [] =
     [0xd4, 0x1d, 0x8c, 0xd9, 0x8f, 0x00, 0xb2, 0x04, 0xe9, 0x80, 0x09, 0x98, 0xec, 0xf8, 0x42, 0x7e] \<and>
   CodecGetMD5Binary le psz md5_blank [0x61, 0x62, 0x63] =
     [0x90, 0x01, 0x50, 0x98, 0x3c, 0xd2, 0x4f, 0xb0, 0xd6, 0x96, 0x3f, 0x7d, 0x28, 0xe1, 0x7f, 0x72]"
proof -
  have "md5 [] = [0xd4, 0x1d, 0x8c, 0xd9, 0x8f, 0x00, 0xb2, 0x04, 0xe9, 0x80, 0x09, 0x98, 0xec, 0xf8, 0x42, 0x7e]"
    by code_simp
  moreover have "md5 [0x61, 0x62, 0x63] =
      [0x90, 0x01, 0x50, 0x98, 0x3c, 0xd2, 0x4f, 0xb0, 0xd6, 0x96, 0x3f, 0x7d, 0x28, 0xe1, 0x7f, 0x72]"
    by code_simp
  moreover have "CodecGetMD5Binary le psz md5_blank m = md5 m" if "length m < 2 ^ 32" for m
    using that by (simp add: CodecGetMD5Binary_md5)
  ultimately show ?thesis by simp
qed

text \<open>\<open>MD5Final\<close> is meant to clear the context, but it clears as many octets as a pointer has. With
  pointers of at most eight octets, the last eight octets of the digest can still be read from the
  context.\<close>

theorem md5_final_leaves_digest:
  assumes "psz \<le> 8"
  shows "concat (map (store32 le) (drop 2 (md5_buf (snd (MD5Final le psz ctx))))) = drop 8 (fst (MD5Final le psz ctx))"
proof -
  obtain oct where l: "length oct = 16" and f: "fst (MD5Final le psz ctx) = oct"
    and b: "md5_buf (snd (MD5Final le psz ctx)) = map (\<lambda>i. load32 le (rd (wr oct 0 (replicate psz 0)) (4 * i) 4)) [0..<4]"
    using MD5Final_context by blast
  have up: "[0..<4] = [0, 1, 2, 3::nat]" by (simp add: upt_rec)
  have "rd (wr oct 0 (replicate psz 0)) p 4 = rd oct p 4" if "8 \<le> p" for p
    using that assms l by (intro rd_wr_after) auto
  then have "concat (map (store32 le) (drop 2 (md5_buf (snd (MD5Final le psz ctx))))) = rd oct 8 4 @ rd oct 12 4"
    using l unfolding b up by (simp add: dim_simps)
  also have "\<dots> = drop 8 oct" using l by (elim length16E) (simp add: rd_def)
  finally show ?thesis using f by simp
qed

theorem md5_final_leaves_digest_witness:
  "concat (map (store32 True) (drop 2 (md5_buf (snd (MD5Final True 8 (MD5Init md5_blank)))))) =
   drop 8 (fst (MD5Final True 8 (MD5Init md5_blank)))"
  using md5_final_leaves_digest [of 8 True "MD5Init md5_blank"] by simp

end
