(* ===== verification/SHA2.thy ===== *)
theory SHA2
  imports Hash_Stream
begin

text \<open>
  \<^verbatim>\<open>sha2.c\<close>: SHA-224, SHA-256, SHA-384 and SHA-512. The source writes the update and final
  functions out four times with other constants; here they are two definitions with the block size,
  the compression function and the digest length as arguments (\<open>sha2_update\<close>, \<open>sha2_final\<close>), used
  eight times. The counters \<open>tot_len\<close> and \<open>len\<close> are 32-bit words and wrap as in the source. The
  rolled branches of the loops are modelled (\<^verbatim>\<open>UNROLL_LOOPS\<close> is off in the source). The lemmas
  show that the digest of a message in pieces is the hash of the whole, and that this hash is the one
  of the standard for messages below \<open>2 ^ 29\<close> octets.
\<close>

section \<open>Constants\<close>

definition sha224_h0 :: "u32 list" where
  "sha224_h0 =
    [0xc1059ed8, 0x367cd507, 0x3070dd17, 0xf70e5939,
     0xffc00b31, 0x68581511, 0x64f98fa7, 0xbefa4fa4]"

definition sha256_h0 :: "u32 list" where
  "sha256_h0 =
    [0x6a09e667, 0xbb67ae85, 0x3c6ef372, 0xa54ff53a,
     0x510e527f, 0x9b05688c, 0x1f83d9ab, 0x5be0cd19]"

definition sha384_h0 :: "u64 list" where
  "sha384_h0 =
    [0xcbbb9d5dc1059ed8, 0x629a292a367cd507,
     0x9159015a3070dd17, 0x152fecd8f70e5939,
     0x67332667ffc00b31, 0x8eb44a8768581511,
     0xdb0c2e0d64f98fa7, 0x47b5481dbefa4fa4]"

definition sha512_h0 :: "u64 list" where
  "sha512_h0 =
    [0x6a09e667f3bcc908, 0xbb67ae8584caa73b,
     0x3c6ef372fe94f82b, 0xa54ff53a5f1d36f1,
     0x510e527fade682d1, 0x9b05688c2b3e6c1f,
     0x1f83d9abfb41bd6b, 0x5be0cd19137e2179]"

text \<open>The round constants, in decimal; the source writes them in hexadecimal.\<close>

definition sha256_k :: "u32 list" where
  "sha256_k =
    [1116352408, 1899447441, 3049323471, 3921009573, 961987163, 1508970993,
     2453635748, 2870763221, 3624381080, 310598401, 607225278, 1426881987,
     1925078388, 2162078206, 2614888103, 3248222580, 3835390401, 4022224774,
     264347078, 604807628, 770255983, 1249150122, 1555081692, 1996064986,
     2554220882, 2821834349, 2952996808, 3210313671, 3336571891, 3584528711,
     113926993, 338241895, 666307205, 773529912, 1294757372, 1396182291,
     1695183700, 1986661051, 2177026350, 2456956037, 2730485921, 2820302411,
     3259730800, 3345764771, 3516065817, 3600352804, 4094571909, 275423344,
     430227734, 506948616, 659060556, 883997877, 958139571, 1322822218,
     1537002063, 1747873779, 1955562222, 2024104815, 2227730452, 2361852424,
     2428436474, 2756734187, 3204031479, 3329325298]"

definition sha512_k :: "u64 list" where
  "sha512_k =
    [4794697086780616226, 8158064640168781261, 13096744586834688815, 16840607885511220156,
     4131703408338449720, 6480981068601479193, 10538285296894168987, 12329834152419229976,
     15566598209576043074, 1334009975649890238, 2608012711638119052, 6128411473006802146,
     8268148722764581231, 9286055187155687089, 11230858885718282805, 13951009754708518548,
     16472876342353939154, 17275323862435702243, 1135362057144423861, 2597628984639134821,
     3308224258029322869, 5365058923640841347, 6679025012923562964, 8573033837759648693,
     10970295158949994411, 12119686244451234320, 12683024718118986047, 13788192230050041572,
     14330467153632333762, 15395433587784984357, 489312712824947311, 1452737877330783856,
     2861767655752347644, 3322285676063803686, 5560940570517711597, 5996557281743188959,
     7280758554555802590, 8532644243296465576, 9350256976987008742, 10552545826968843579,
     11727347734174303076, 12113106623233404929, 14000437183269869457, 14369950271660146224,
     15101387698204529176, 15463397548674623760, 17586052441742319658, 1182934255886127544,
     1847814050463011016, 2177327727835720531, 2830643537854262169, 3796741975233480872,
     4115178125766777443, 5681478168544905931, 6601373596472566643, 7507060721942968483,
     8399075790359081724, 8693463985226723168, 9568029438360202098, 10144078919501101548,
     10430055236837252648, 11840083180663258601, 13761210420658862357, 14299343276471374635,
     14566680578165727644, 15097957966210449927, 16922976911328602910, 17689382322260857208,
     500013540394364858, 748580250866718886, 1242879168328830382, 1977374033974150939,
     2944078676154940804, 3659926193048069267, 4368137639120453308, 4836135668995329356,
     5532061633213252278, 6448918945643986474, 6902733635092675308, 7801388544844847127]"

section \<open>Contexts\<close>

record 'w sha_ctx =
  tot_len :: u32
  ctx_len :: u32
  ctx_block :: bytes
  ctx_h :: "'w list"

type_synonym sha256_ctx = "u32 sha_ctx"
type_synonym sha512_ctx = "u64 sha_ctx"

section \<open>Functions on words\<close>

definition SHFR :: "'a::len word \<Rightarrow> nat \<Rightarrow> 'a word" where
  "SHFR x n = drop_bit n x"

definition ROTR :: "'a::len word \<Rightarrow> nat \<Rightarrow> 'a word" where
  "ROTR x n = drop_bit n x OR push_bit (LENGTH('a) - n) x"

definition CH :: "'a::len word \<Rightarrow> 'a word \<Rightarrow> 'a word \<Rightarrow> 'a word" where
  "CH x y z = (x AND y) XOR (NOT x AND z)"

definition MAJ :: "'a::len word \<Rightarrow> 'a word \<Rightarrow> 'a word \<Rightarrow> 'a word" where
  "MAJ x y z = (x AND y) XOR (x AND z) XOR (y AND z)"

definition SHA256_F1 :: "u32 \<Rightarrow> u32" where
  "SHA256_F1 x = ROTR x 2 XOR ROTR x 13 XOR ROTR x 22"

definition SHA256_F2 :: "u32 \<Rightarrow> u32" where
  "SHA256_F2 x = ROTR x 6 XOR ROTR x 11 XOR ROTR x 25"

definition SHA256_F3 :: "u32 \<Rightarrow> u32" where
  "SHA256_F3 x = ROTR x 7 XOR ROTR x 18 XOR SHFR x 3"

definition SHA256_F4 :: "u32 \<Rightarrow> u32" where
  "SHA256_F4 x = ROTR x 17 XOR ROTR x 19 XOR SHFR x 10"

definition SHA512_F1 :: "u64 \<Rightarrow> u64" where
  "SHA512_F1 x = ROTR x 28 XOR ROTR x 34 XOR ROTR x 39"

definition SHA512_F2 :: "u64 \<Rightarrow> u64" where
  "SHA512_F2 x = ROTR x 14 XOR ROTR x 18 XOR ROTR x 41"

definition SHA512_F3 :: "u64 \<Rightarrow> u64" where
  "SHA512_F3 x = ROTR x 1 XOR ROTR x 8 XOR SHFR x 7"

definition SHA512_F4 :: "u64 \<Rightarrow> u64" where
  "SHA512_F4 x = ROTR x 19 XOR ROTR x 61 XOR SHFR x 6"

section \<open>Compression\<close>

definition SHA256_SCR :: "u32 list \<Rightarrow> nat \<Rightarrow> u32" where
  "SHA256_SCR w i = SHA256_F4 (w ! (i - 2)) + w ! (i - 7) + SHA256_F3 (w ! (i - 15)) + w ! (i - 16)"

definition SHA512_SCR :: "u64 list \<Rightarrow> nat \<Rightarrow> u64" where
  "SHA512_SCR w i = SHA512_F4 (w ! (i - 2)) + w ! (i - 7) + SHA512_F3 (w ! (i - 15)) + w ! (i - 16)"

text \<open>The schedule \<open>w[0..63]\<close>, filled from left to right.\<close>

definition sha256_schedule :: "bytes \<Rightarrow> u32 list" where
  "sha256_schedule sub_block =
     fold (\<lambda>j w. w @ [SHA256_SCR w j]) [16..<64] (map (\<lambda>j. PACK32 (rd sub_block (4 * j) 4)) [0..<16])"

definition sha512_schedule :: "bytes \<Rightarrow> u64 list" where
  "sha512_schedule sub_block =
     fold (\<lambda>j w. w @ [SHA512_SCR w j]) [16..<80] (map (\<lambda>j. PACK64 (rd sub_block (8 * j) 8)) [0..<16])"

definition sha256_round :: "u32 list \<Rightarrow> nat \<Rightarrow> u32 list \<Rightarrow> u32 list" where
  "sha256_round w j wv =
     (let t1 = wv ! 7 + SHA256_F2 (wv ! 4) + CH (wv ! 4) (wv ! 5) (wv ! 6) + sha256_k ! j + w ! j;
          t2 = SHA256_F1 (wv ! 0) + MAJ (wv ! 0) (wv ! 1) (wv ! 2)
      in [t1 + t2, wv ! 0, wv ! 1, wv ! 2, wv ! 3 + t1, wv ! 4, wv ! 5, wv ! 6])"

definition sha512_round :: "u64 list \<Rightarrow> nat \<Rightarrow> u64 list \<Rightarrow> u64 list" where
  "sha512_round w j wv =
     (let t1 = wv ! 7 + SHA512_F2 (wv ! 4) + CH (wv ! 4) (wv ! 5) (wv ! 6) + sha512_k ! j + w ! j;
          t2 = SHA512_F1 (wv ! 0) + MAJ (wv ! 0) (wv ! 1) (wv ! 2)
      in [t1 + t2, wv ! 0, wv ! 1, wv ! 2, wv ! 3 + t1, wv ! 4, wv ! 5, wv ! 6])"

definition sha256_compress :: "bytes \<Rightarrow> u32 list \<Rightarrow> u32 list" where
  "sha256_compress sub_block h =
     (let w = sha256_schedule sub_block; wv = fold (sha256_round w) [0..<64] h
      in map (\<lambda>j. h ! j + wv ! j) [0..<8])"

definition sha512_compress :: "bytes \<Rightarrow> u64 list \<Rightarrow> u64 list" where
  "sha512_compress sub_block h =
     (let w = sha512_schedule sub_block; wv = fold (sha512_round w) [0..<80] h
      in map (\<lambda>j. h ! j + wv ! j) [0..<8])"

text \<open>The loop over \<open>block_nb\<close> blocks of the message.\<close>

definition sha256_transf :: "u32 list \<Rightarrow> bytes \<Rightarrow> nat \<Rightarrow> u32 list" where
  "sha256_transf h message block_nb =
     fold (\<lambda>i h. sha256_compress (rd message (64 * i) 64) h) [0..<block_nb] h"

definition sha512_transf :: "u64 list \<Rightarrow> bytes \<Rightarrow> nat \<Rightarrow> u64 list" where
  "sha512_transf h message block_nb =
     fold (\<lambda>i h. sha512_compress (rd message (128 * i) 128) h) [0..<block_nb] h"

section \<open>Init, update, final\<close>

definition sha2_init :: "'w list \<Rightarrow> 'w sha_ctx \<Rightarrow> 'w sha_ctx" where
  "sha2_init h0 ctx = ctx\<lparr>ctx_h := h0, ctx_len := 0, tot_len := 0\<rparr>"

text \<open>\<open>bs\<close> is the block size and \<open>sh\<close> its logarithm.\<close>

definition sha2_update ::
  "('w list \<Rightarrow> bytes \<Rightarrow> nat \<Rightarrow> 'w list) \<Rightarrow> nat \<Rightarrow> nat \<Rightarrow> 'w sha_ctx \<Rightarrow> bytes \<Rightarrow> 'w sha_ctx" where
  "sha2_update transf bs sh ctx message =
     (let len = of_nat (length message) :: u32;
          tmp_len = of_nat bs - ctx_len ctx;
          rem_len = (if len < tmp_len then len else tmp_len);
          block = wr (ctx_block ctx) (unat (ctx_len ctx)) (take (unat rem_len) message)
      in if ctx_len ctx + len < of_nat bs
         then ctx\<lparr>ctx_block := block, ctx_len := ctx_len ctx + len\<rparr>
         else let new_len = len - rem_len;
                  block_nb = new_len div of_nat bs;
                  shifted_message = drop (unat rem_len) message;
                  h1 = transf (ctx_h ctx) block 1;
                  h2 = transf h1 shifted_message (unat block_nb);
                  rem_len' = new_len mod of_nat bs
              in ctx\<lparr>ctx_block := wr block 0 (rd shifted_message (unat (push_bit sh block_nb)) (unat rem_len')),
                     ctx_h := h2, ctx_len := rem_len',
                     tot_len := tot_len ctx + push_bit sh (block_nb + 1)\<rparr>)"

text \<open>\<open>res\<close> is the number of octets of the last block that the padding needs: 9 or 17.\<close>

definition sha2_final ::
  "('w list \<Rightarrow> bytes \<Rightarrow> nat \<Rightarrow> 'w list) \<Rightarrow> nat \<Rightarrow> nat \<Rightarrow> nat \<Rightarrow> ('w \<Rightarrow> bytes) \<Rightarrow> nat \<Rightarrow>
   'w sha_ctx \<Rightarrow> bytes \<times> 'w sha_ctx" where
  "sha2_final transf bs sh res unpack n ctx =
     (let block_nb = 1 + (if of_nat (bs - res) < ctx_len ctx mod of_nat bs then 1 else 0) :: u32;
          len_b = push_bit 3 (tot_len ctx + ctx_len ctx);
          pm_len = push_bit sh block_nb;
          block1 = wr (ctx_block ctx) (unat (ctx_len ctx)) (replicate (unat (pm_len - ctx_len ctx)) 0);
          block2 = block1[unat (ctx_len ctx) := 0x80];
          block3 = wr block2 (unat pm_len - 4) (UNPACK32 len_b);
          h = transf (ctx_h ctx) block3 (unat block_nb)
      in (concat (map (\<lambda>i. unpack (h ! i)) [0..<n]), ctx\<lparr>ctx_block := block3, ctx_h := h\<rparr>))"

definition sha256_init :: "sha256_ctx \<Rightarrow> sha256_ctx" where
  "sha256_init = sha2_init sha256_h0"

definition sha256_update :: "sha256_ctx \<Rightarrow> bytes \<Rightarrow> sha256_ctx" where
  "sha256_update = sha2_update sha256_transf 64 6"

definition sha256_final :: "sha256_ctx \<Rightarrow> bytes \<times> sha256_ctx" where
  "sha256_final = sha2_final sha256_transf 64 6 9 UNPACK32 8"

definition sha256 :: "sha256_ctx \<Rightarrow> bytes \<Rightarrow> bytes" where
  "sha256 ctx message = fst (sha256_final (sha256_update (sha256_init ctx) message))"

definition sha512_init :: "sha512_ctx \<Rightarrow> sha512_ctx" where
  "sha512_init = sha2_init sha512_h0"

definition sha512_update :: "sha512_ctx \<Rightarrow> bytes \<Rightarrow> sha512_ctx" where
  "sha512_update = sha2_update sha512_transf 128 7"

definition sha512_final :: "sha512_ctx \<Rightarrow> bytes \<times> sha512_ctx" where
  "sha512_final = sha2_final sha512_transf 128 7 17 UNPACK64 8"

definition sha512 :: "sha512_ctx \<Rightarrow> bytes \<Rightarrow> bytes" where
  "sha512 ctx message = fst (sha512_final (sha512_update (sha512_init ctx) message))"

definition sha384_init :: "sha512_ctx \<Rightarrow> sha512_ctx" where
  "sha384_init = sha2_init sha384_h0"

definition sha384_update :: "sha512_ctx \<Rightarrow> bytes \<Rightarrow> sha512_ctx" where
  "sha384_update = sha2_update sha512_transf 128 7"

definition sha384_final :: "sha512_ctx \<Rightarrow> bytes \<times> sha512_ctx" where
  "sha384_final = sha2_final sha512_transf 128 7 17 UNPACK64 6"

definition sha384 :: "sha512_ctx \<Rightarrow> bytes \<Rightarrow> bytes" where
  "sha384 ctx message = fst (sha384_final (sha384_update (sha384_init ctx) message))"

definition sha224_init :: "sha256_ctx \<Rightarrow> sha256_ctx" where
  "sha224_init = sha2_init sha224_h0"

definition sha224_update :: "sha256_ctx \<Rightarrow> bytes \<Rightarrow> sha256_ctx" where
  "sha224_update = sha2_update sha256_transf 64 6"

definition sha224_final :: "sha256_ctx \<Rightarrow> bytes \<times> sha256_ctx" where
  "sha224_final = sha2_final sha256_transf 64 6 9 UNPACK32 7"

definition sha224 :: "sha256_ctx \<Rightarrow> bytes \<Rightarrow> bytes" where
  "sha224 ctx message = fst (sha224_final (sha224_update (sha224_init ctx) message))"

section \<open>Reference\<close>

text \<open>The padding as the source writes it: a one bit, zeros, and a 32-bit count of bits.\<close>

definition sha2_tail :: "nat \<Rightarrow> nat \<Rightarrow> nat \<Rightarrow> bytes" where
  "sha2_tail bs res n = 0x80 # replicate ((2 * bs - res - n mod bs) mod bs + (res - 5)) 0 @
     UNPACK32 (of_nat (8 * n))"

definition sha2_hash ::
  "(bytes \<Rightarrow> 'w list \<Rightarrow> 'w list) \<Rightarrow> nat \<Rightarrow> nat \<Rightarrow> ('w \<Rightarrow> bytes) \<Rightarrow> nat \<Rightarrow> 'w list \<Rightarrow> bytes \<Rightarrow> bytes" where
  "sha2_hash compress bs res unpack n h0 m =
     (let h = fold compress (blocks bs (m @ sha2_tail bs res (length m))) h0
      in concat (map (\<lambda>i. unpack (h ! i)) [0..<n]))"

definition sha2_fresh :: "nat \<Rightarrow> 'w sha_ctx \<Rightarrow> bool" where
  "sha2_fresh bs ctx \<longleftrightarrow> length (ctx_block ctx) = 2 * bs"

definition sha2_seen :: "(bytes \<Rightarrow> 'w list \<Rightarrow> 'w list) \<Rightarrow> nat \<Rightarrow> 'w list \<Rightarrow> 'w sha_ctx \<Rightarrow> bytes \<Rightarrow> bool" where
  "sha2_seen compress bs h0 ctx m \<longleftrightarrow> length (ctx_block ctx) = 2 * bs \<and>
     ctx_h ctx = fold compress (blocks bs m) h0 \<and>
     ctx_len ctx = of_nat (length m mod bs) \<and> rd (ctx_block ctx) 0 (length m mod bs) = rest bs m \<and>
     tot_len ctx = of_nat (length m div bs * bs)"

section \<open>Counters below \<open>2 ^ 32\<close>\<close>

lemma u32_less: "a < 2 ^ 32 \<Longrightarrow> b < 2 ^ 32 \<Longrightarrow> (of_nat a :: u32) < of_nat b \<longleftrightarrow> a < b"
  by (simp add: word_less_nat_alt unat_of_nat)

lemma u32_unat: "a < 2 ^ 32 \<Longrightarrow> unat (of_nat a :: u32) = a"
  by (simp add: unat_of_nat)

lemma u32_div: "a < 2 ^ 32 \<Longrightarrow> b < 2 ^ 32 \<Longrightarrow> (of_nat a :: u32) div of_nat b = of_nat (a div b)"
  by (subst word_arith_nat_div) (simp only: u32_unat)

lemma u32_mod: "a < 2 ^ 32 \<Longrightarrow> b < 2 ^ 32 \<Longrightarrow> (of_nat a :: u32) mod of_nat b = of_nat (a mod b)"
  by (subst word_arith_nat_mod) (simp only: u32_unat)

lemma u32_push: "push_bit n (of_nat a :: u32) = of_nat (a * 2 ^ n)"
  by (simp add: push_bit_eq_mult)

lemma drop_exact: "n = length xs \<Longrightarrow> drop n (xs @ ys) = ys"
  by simp

section \<open>The contract\<close>

locale sha2_family =
  fixes compress :: "bytes \<Rightarrow> 'w list \<Rightarrow> 'w list" and transf :: "'w list \<Rightarrow> bytes \<Rightarrow> nat \<Rightarrow> 'w list"
    and bs sh res :: nat and h0 :: "'w list" and unpack :: "'w \<Rightarrow> bytes" and n :: nat
  assumes transf_fold: "transf h msg k = fold (\<lambda>i h. compress (rd msg (bs * i) bs) h) [0..<k] h"
    and layout: "bs = 64 \<and> sh = 6 \<and> res = 9 \<or> bs = 128 \<and> sh = 7 \<and> res = 17"
begin

lemma sizes: "0 < bs" "bs \<le> 128" "2 ^ sh = bs" "5 < res" "res < bs"
  using layout by auto

lemma transf_one: "length b = bs \<Longrightarrow> transf h (b @ x) 1 = compress b h"
  by (simp add: transf_fold rd_def)

lemma transf_blocks: "k * bs \<le> length msg \<Longrightarrow> transf h msg k = fold compress (nblocks bs k msg) h"
proof (induction k)
  case (Suc k)
  have s: "nblocks bs (Suc k) msg = nblocks bs k msg @ [rd msg (bs * k) bs]"
    using nblocks_add [of bs k 1 msg] by (simp add: rd_def mult.commute)
  from Suc show ?case by (simp del: nblocks.simps add: s) (simp add: transf_fold)
qed (simp add: transf_fold)

lemma seen_init: "sha2_fresh bs ctx \<Longrightarrow> sha2_seen compress bs h0 (sha2_init h0 ctx) []"
  using sizes(1) by (simp add: sha2_fresh_def sha2_seen_def sha2_init_def rd_def blocks_def rest_def)

text \<open>\<open>sha2_update\<close> with the counters read as numbers.\<close>

lemma update_nat:
  assumes "ctx_len ctx = of_nat u" and "u < bs" and "length p \<le> 2 ^ 32 - 256"
  shows "sha2_update transf bs sh ctx p =
    (if u + length p < bs
     then ctx\<lparr>ctx_block := wr (ctx_block ctx) u p, ctx_len := of_nat (u + length p)\<rparr>
     else let q = drop (bs - u) p; block = wr (ctx_block ctx) u (take (bs - u) p)
          in ctx\<lparr>ctx_block := wr block 0 (rd q (length q div bs * bs) (length q mod bs)),
             ctx_h := transf (transf (ctx_h ctx) block 1) q (length q div bs),
             ctx_len := of_nat (length q mod bs),
             tot_len := tot_len ctx + of_nat ((length q div bs + 1) * bs)\<rparr>)"
proof -
  let ?k = "length p"
  have small: "u < 2 ^ 32" "bs < 2 ^ 32" "?k < 2 ^ 32" "u + ?k < 2 ^ 32" "bs - u < 2 ^ 32"
    using assms(2,3) sizes(2) by simp_all
  have tmp: "of_nat bs - (of_nat u :: u32) = of_nat (bs - u)" using assms(2) by (simp add: of_nat_diff)
  have add: "(of_nat u :: u32) + of_nat ?k = of_nat (u + ?k)" by simp
  show ?thesis
  proof (cases "u + ?k < bs")
    case True
    then have "?k < bs - u" by simp
    with True small show ?thesis
      unfolding sha2_update_def Let_def assms(1) tmp add u32_less [OF small(4,2)] u32_less [OF small(3,5)]
      by (simp add: u32_unat)
  next
    case False
    then have k: "\<not> ?k < bs - u" and le: "bs - u \<le> ?k" by simp_all
    let ?q = "drop (bs - u) p"
    have new: "(of_nat ?k :: u32) - of_nat (bs - u) = of_nat (length ?q)"
      using le by (simp add: of_nat_diff)
    have q: "length ?q < 2 ^ 32" "length ?q div bs < 2 ^ 32" "length ?q mod bs < 2 ^ 32" "length ?q div bs * bs < 2 ^ 32"
    proof -
      show a: "length ?q < 2 ^ 32" using small(3) by simp
      show "length ?q div bs < 2 ^ 32" "length ?q mod bs < 2 ^ 32" "length ?q div bs * bs < 2 ^ 32"
        by (rule le_less_trans [OF _ a]; simp)+
    qed
    have one: "(of_nat (length ?q div bs) :: u32) + 1 = of_nat (length ?q div bs + 1)" by simp
    show ?thesis
      unfolding sha2_update_def Let_def assms(1) tmp add u32_less [OF small(4,2)] u32_less [OF small(3,5)]
        if_not_P [OF False] if_not_P [OF k] new u32_div [OF q(1) small(2)] u32_mod [OF q(1) small(2)] one u32_push
        sizes(3) u32_unat [OF small(1)] u32_unat [OF small(5)] u32_unat [OF q(2)] u32_unat [OF q(3)] u32_unat [OF q(4)]
      ..
  qed
qed


lemma nblocks_whole: "nblocks bs (length q div bs) q = blocks bs q"
  by (simp add: blocks_def)

lemma seen_update:
  assumes s: "sha2_seen compress bs h0 ctx m" and k: "length p \<le> 2 ^ 32 - 256"
  shows "sha2_seen compress bs h0 (sha2_update transf bs sh ctx p) (m @ p)"
proof -
  let ?u = "length m mod bs" and ?r = "rest bs m" and ?b = "ctx_block ctx"
  have u: "?u < bs" using sizes(1) by simp
  have r: "length ?r = ?u" using sizes(1) by (simp add: length_rest)
  have l: "length ?b = 2 * bs" and h: "ctx_h ctx = fold compress (blocks bs m) h0"
    and cl: "ctx_len ctx = of_nat ?u" and inr: "rd ?b 0 ?u = ?r" and tot: "tot_len ctx = of_nat (length m div bs * bs)"
    using s by (simp_all add: sha2_seen_def)
  have bl: "blocks bs (m @ p) = blocks bs m @ blocks bs (?r @ p)" and re: "rest bs (m @ p) = rest bs (?r @ p)"
    using sizes(1) by (rule blocks_append rest_append)+
  have mp: "length (m @ p) = length m div bs * bs + length (?r @ p)"
    using r by (simp add: add.assoc [symmetric])
  have mo: "length (m @ p) mod bs = length (?r @ p) mod bs"
    and di: "length (m @ p) div bs = length m div bs + length (?r @ p) div bs"
    unfolding mp using sizes(1) by simp_all
  show ?thesis
  proof (cases "?u + length p < bs")
    case True
    have "rd (wr ?b ?u p) 0 (?u + length p) = ?r @ p"
      using True l inr rd_split [of "wr ?b ?u p" 0 ?u "length p"] by (simp add: mem_simps)
    moreover have "length (wr ?b ?u p) = 2 * bs" using True l by (simp add: dim_simps)
    ultimately show ?thesis
      using True r h tot unfolding update_nat [OF cl u k] sha2_seen_def bl re mo di by simp
  next
    case False
    let ?q = "drop (bs - ?u) p" and ?blk = "?r @ take (bs - ?u) p"
    have blk: "length ?blk = bs" using False r u by simp
    have w: "wr ?b ?u (take (bs - ?u) p) = ?blk @ drop bs ?b"
      using False l inr u by (simp add: wr_def rd_def)
    have split: "?r @ p = ?blk @ ?q" by simp
    have bq: "blocks bs (?r @ p) = ?blk # blocks bs ?q" and rq: "rest bs (?r @ p) = rest bs ?q"
      unfolding split using blk sizes(1) by (rule blocks_one rest_one)+
    have lq: "length (?r @ p) = bs + length ?q" unfolding split length_append [of ?blk] blk ..
    have mq: "length (?r @ p) mod bs = length ?q mod bs" "length (?r @ p) div bs = length ?q div bs + 1"
      unfolding lq using sizes(1) by (simp_all only: mod_add_self1 div_add_self1 order.strict_implies_not_eq not_False_eq_True neq0_conv)
    have tr: "transf (transf (ctx_h ctx) (?blk @ drop bs ?b) 1) ?q (length ?q div bs) =
        fold compress (blocks bs ?q) (compress ?blk (ctx_h ctx))"
      unfolding transf_one [OF blk] nblocks_whole [symmetric] by (rule transf_blocks) simp
    have rst: "rd q (length q div bs * bs) (length q mod bs) = rest bs q" for q :: bytes
      unfolding rest_def rd_def by (simp add: minus_div_mult_eq_mod)
    have rl: "length (rest bs ?q) = length ?q mod bs" using sizes(1) by (rule length_rest)
    have b2: "length (?blk @ drop bs ?b) = 2 * bs" unfolding length_append [of ?blk] blk using l by simp
    have "length ?q mod bs < bs" using sizes(1) by (rule mod_less_divisor)
    with rl b2 have le: "0 + length (rest bs ?q) \<le> length (?blk @ drop bs ?b)" by linarith
    have fin: "rd (wr (?blk @ drop bs ?b) 0 (rest bs ?q)) 0 (length ?q mod bs) = rest bs ?q"
      "length (wr (?blk @ drop bs ?b) 0 (rest bs ?q)) = 2 * bs"
      using rd_wr_same [OF le rl [symmetric]] length_wr [OF le] b2 by simp_all
    have t: "tot_len ctx + of_nat ((length ?q div bs + 1) * bs) =
        of_nat ((length m div bs + (length ?q div bs + 1)) * bs)"
      unfolding tot by (simp add: algebra_simps)
    show ?thesis
      unfolding update_nat [OF cl u k] if_not_P [OF False] Let_def w tr rst t
      unfolding sha2_seen_def bl re mo di bq rq mq using h fin by simp
  qed
qed

text \<open>\<open>sha2_final\<close>: the block buffer holds one or two whole blocks when the length has been stored.\<close>

lemma final_block:
  assumes l: "length b = 2 * bs" and u: "u < bs" and inr: "rd b 0 u = r"
  shows "bs - res < u \<Longrightarrow>
      wr ((wr b u (replicate (2 * bs - u) 0))[u := 0x80]) (2 * bs - 4) (UNPACK32 x) =
      r @ 0x80 # replicate (2 * bs - u - 5) 0 @ UNPACK32 x"
    and "u \<le> bs - res \<Longrightarrow>
      wr ((wr b u (replicate (bs - u) 0))[u := 0x80]) (bs - 4) (UNPACK32 x) =
      r @ 0x80 # replicate (bs - u - 5) 0 @ UNPACK32 x @ drop bs b"
proof -
  have r: "take u b = r" "length r = u" using inr l u by (auto simp: rd_def)
  have upd: "(wr b u (replicate (Suc k) 0))[u := 0x80] = r @ 0x80 # replicate k 0 @ drop (u + Suc k) b" for k
    using r by (simp add: wr_def list_update_append)
  have gen: "wr ((wr b u (replicate (k + 5) 0))[u := 0x80]) (u + Suc k) (UNPACK32 x) =
      r @ 0x80 # replicate k 0 @ UNPACK32 x @ drop (u + (k + 5)) b" for k
  proof -
    have "drop (u + Suc k + 4) (r @ 0x80 # replicate (k + 4) 0 @ drop (u + Suc (k + 4)) b) = drop (u + (k + 5)) b"
    proof -
      have "u + Suc k + 4 = length r + length (0x80 # replicate (k + 4) (0::u8))" "u + Suc (k + 4) = u + (k + 5)"
        using r(2) by simp_all
      then have "drop (u + Suc k + 4) ((r @ 0x80 # replicate (k + 4) 0) @ drop (u + (k + 5)) b) = drop (u + (k + 5)) b"
        by (intro drop_exact) simp
      then show ?thesis using \<open>u + Suc (k + 4) = u + (k + 5)\<close> by (simp only: append_assoc append_Cons)
    qed
    moreover have "take (u + Suc k) (r @ 0x80 # replicate (k + 4) 0 @ drop (u + Suc (k + 4)) b) = r @ 0x80 # replicate k 0"
      using r(2) by simp
    moreover have "(wr b u (replicate (k + 5) 0))[u := 0x80] = r @ 0x80 # replicate (k + 4) 0 @ drop (u + Suc (k + 4)) b"
      using upd [of "k + 4"] by (simp add: numeral_eq_Suc)
    ultimately show ?thesis unfolding wr_def [of _ "u + Suc k"] length_octets by simp
  qed
  show "wr ((wr b u (replicate (2 * bs - u) 0))[u := 0x80]) (2 * bs - 4) (UNPACK32 x) =
      r @ 0x80 # replicate (2 * bs - u - 5) 0 @ UNPACK32 x" if "bs - res < u"
  proof -
    obtain k where k: "2 * bs = u + (k + 5)"
    proof
      show "2 * bs = u + ((2 * bs - u - 5) + 5)" using u sizes(4,5) by linarith
    qed
    then have "2 * bs - u = k + 5" "2 * bs - 4 = u + Suc k" "2 * bs - u - 5 = k" by linarith+
    then show ?thesis using gen [of k] k l by (simp only: append_Nil2 drop_all order_refl)
  qed
  show "wr ((wr b u (replicate (bs - u) 0))[u := 0x80]) (bs - 4) (UNPACK32 x) =
      r @ 0x80 # replicate (bs - u - 5) 0 @ UNPACK32 x @ drop bs b" if "u \<le> bs - res"
  proof -
    have k: "bs - u = (bs - u - 5) + 5" "bs - 4 = u + Suc (bs - u - 5)" "u + (bs - u) = bs"
      using that sizes(4,5) by linarith+
    show ?thesis using gen [of "bs - u - 5"] by (simp only: k(1) [symmetric] k(2) [symmetric] k(3))
  qed
qed

lemma tail_blocks:
  assumes "length r = u" and "u = k mod bs"
  shows "bs - res < u \<Longrightarrow> r @ sha2_tail bs res k = r @ 0x80 # replicate (2 * bs - u - 5) 0 @ UNPACK32 (of_nat (8 * k))"
    and "u \<le> bs - res \<Longrightarrow> r @ sha2_tail bs res k = r @ 0x80 # replicate (bs - u - 5) 0 @ UNPACK32 (of_nat (8 * k))"
proof -
  have u: "u < bs" using assms(2) sizes(1) by simp
  show "r @ sha2_tail bs res k = r @ 0x80 # replicate (2 * bs - u - 5) 0 @ UNPACK32 (of_nat (8 * k))"
    if "bs - res < u"
  proof -
    have "2 * bs - res - u < bs" using that sizes(4,5) by linarith
    then have "(2 * bs - res - u) mod bs + (res - 5) = 2 * bs - u - 5" using sizes(4,5) u by simp
    then show ?thesis by (simp add: sha2_tail_def assms(2))
  qed
  show "r @ sha2_tail bs res k = r @ 0x80 # replicate (bs - u - 5) 0 @ UNPACK32 (of_nat (8 * k))"
    if "u \<le> bs - res"
  proof -
    have "2 * bs - res - u = bs + (bs - res - u)" "bs - res - u < bs" using that sizes(4,5) by linarith+
    then have "(2 * bs - res - u) mod bs = bs - res - u" by (metis mod_add_self1 mod_less)
    then have "(2 * bs - res - u) mod bs + (res - 5) = bs - u - 5"
      using that sizes(4,5) by linarith
    then show ?thesis by (simp add: sha2_tail_def assms(2))
  qed
qed

lemma seen_final:
  assumes s: "sha2_seen compress bs h0 ctx m"
  shows "fst (sha2_final transf bs sh res unpack n ctx) = sha2_hash compress bs res unpack n h0 m"
    and "sha2_fresh bs (snd (sha2_final transf bs sh res unpack n ctx))"
proof -
  let ?u = "length m mod bs" and ?r = "rest bs m" and ?b = "ctx_block ctx"
  let ?x = "of_nat (8 * length m) :: u32"
  have u: "?u < bs" "?u < 2 ^ 32" "bs < 2 ^ 32" "bs - res < 2 ^ 32"
  proof -
    show a: "?u < bs" using sizes(1) by simp
    have "(128::nat) < 2 ^ 32" by simp
    then show "?u < 2 ^ 32" "bs < 2 ^ 32" "bs - res < 2 ^ 32" using sizes(2) a by linarith+
  qed
  have r: "length ?r = ?u" using sizes(1) by (simp add: length_rest)
  have l: "length ?b = 2 * bs" and h: "ctx_h ctx = fold compress (blocks bs m) h0"
    and cl: "ctx_len ctx = of_nat ?u" and inr: "rd ?b 0 ?u = ?r" and tot: "tot_len ctx = of_nat (length m div bs * bs)"
    using s by (simp_all add: sha2_seen_def)
  have lb: "push_bit 3 (tot_len ctx + ctx_len ctx) = ?x"
  proof -
    have "tot_len ctx + ctx_len ctx = of_nat (length m)"
      unfolding tot cl of_nat_add [symmetric] by simp
    then show ?thesis by (simp add: push_bit_eq_mult)
  qed
  define two where "two \<longleftrightarrow> bs - res < ?u"
  have nb: "1 + (if of_nat (bs - res) < ctx_len ctx mod of_nat bs then 1 else 0) = (of_nat (if two then 2 else 1) :: u32)"
    unfolding cl u32_mod [OF u(2,3)] mod_mod_trivial u32_less [OF u(4,2)] two_def by simp
  have pm: "push_bit sh (of_nat (if two then 2 else 1) :: u32) = of_nat ((if two then 2 else 1) * bs)"
    unfolding u32_push sizes(3) ..
  have pb: "(if two then 2 else 1) * bs < 2 ^ 32" using sizes(2) by simp
  have df: "of_nat ((if two then 2 else 1) * bs) - ctx_len ctx = of_nat ((if two then 2 else 1) * bs - ?u)"
    unfolding cl using u(1) by (subst of_nat_diff) auto
  have db: "(if two then 2 else 1) * bs - ?u < 2 ^ 32" using pb by linarith
  have tb: "(if two then 2 else 1::nat) < 2 ^ 32" by simp
  define b3 where "b3 = wr ((wr ?b ?u (replicate ((if two then 2 else 1) * bs - ?u) 0))[?u := 0x80])
    ((if two then 2 else 1) * bs - 4) (UNPACK32 ?x)"
  have fin: "sha2_final transf bs sh res unpack n ctx =
      (let h = transf (ctx_h ctx) b3 (if two then 2 else 1)
       in (concat (map (\<lambda>i. unpack (h ! i)) [0..<n]), ctx\<lparr>ctx_block := b3, ctx_h := h\<rparr>))"
    unfolding sha2_final_def Let_def nb pm lb df u32_unat [OF pb] u32_unat [OF db] u32_unat [OF tb]
    unfolding cl u32_unat [OF u(2)] b3_def ..
  have key: "length b3 = 2 * bs \<and> transf (ctx_h ctx) b3 (if two then 2 else 1) =
      fold compress (blocks bs (m @ sha2_tail bs res (length m))) h0"
  proof (cases two)
    case True
    then have b3: "b3 = ?r @ sha2_tail bs res (length m)"
      using final_block(1) [OF l u(1) inr] tail_blocks(1) [OF r refl] unfolding two_def b3_def by simp
    have "length b3 = 2 * bs"
    proof -
      have "?u + (5 + (2 * bs - ?u - 5)) = 2 * bs" using u(1) sizes(4,5) by linarith
      then show ?thesis using b3 tail_blocks(1) [OF r refl] True r by (simp add: two_def)
    qed
    then have "blocks bs b3 = nblocks bs 2 b3" using sizes(1) by (simp add: blocks_def)
    with True \<open>length b3 = 2 * bs\<close> show ?thesis
      using h blocks_append [OF sizes(1), of m "sha2_tail bs res (length m)"] b3
      by (simp add: transf_blocks del: nblocks.simps)
  next
    case False
    let ?blk = "?r @ sha2_tail bs res (length m)"
    have le: "?u \<le> bs - res" using False by (simp add: two_def)
    have b3: "b3 = ?blk @ drop bs ?b"
      using False final_block(2) [OF l u(1) inr le] tail_blocks(2) [OF r refl le] unfolding b3_def by simp
    have blk: "length ?blk = bs"
      using tail_blocks(2) [OF r refl le] le r sizes(4,5) by simp
    have "blocks bs ?blk = [?blk]" using blk sizes(1) blocks_one [of ?blk bs "[]"] by (simp del: blocks_one)
    with False blk show ?thesis
      using h l blocks_append [OF sizes(1), of m "sha2_tail bs res (length m)"]
        transf_one [OF blk, of "fold compress (blocks bs m) h0" "drop bs ?b"]
      unfolding b3 by simp
  qed
  show "fst (sha2_final transf bs sh res unpack n ctx) = sha2_hash compress bs res unpack n h0 m"
    and "sha2_fresh bs (snd (sha2_final transf bs sh res unpack n ctx))"
    using key unfolding fin sha2_hash_def Let_def sha2_fresh_def by simp_all
qed

end

sublocale sha2_family \<subseteq> stream: streaming_hash "sha2_fresh bs" "sha2_seen compress bs h0" "sha2_init h0"
  "sha2_update transf bs sh" "sha2_final transf bs sh res unpack n" "sha2_hash compress bs res unpack n h0"
  "\<lambda>p. length p \<le> 2 ^ 32 - 256"
  by unfold_locales (auto intro: seen_init seen_update seen_final)

interpretation sha256_fam: sha2_family sha256_compress sha256_transf 64 6 9 sha256_h0 UNPACK32 8
  by unfold_locales (simp_all add: sha256_transf_def)




section \<open>The standard\<close>

text \<open>The padding of the standard: the count of bits has 64 bits (SHA-224, SHA-256) or 128 bits, of
  which the upper half is zero for every message that fits in an address space.\<close>

definition sha2_std_tail :: "nat \<Rightarrow> nat \<Rightarrow> nat \<Rightarrow> bytes" where
  "sha2_std_tail bs res n = 0x80 # replicate ((2 * bs - res - n mod bs) mod bs) 0 @
     replicate (res - 9) 0 @ UNPACK64 (of_nat (8 * n))"


lemma bit_u32_high [simp]: "32 \<le> n \<Longrightarrow> \<not> bit (a::u32) n"
  using bit_imp_le_length [of a n] by auto

lemma bit_octet64 [simp]: "bit (ucast (a::u8) :: u64) n \<longleftrightarrow> n < 8 \<and> bit a n"
  by (auto simp: bit_simps dest: bit_imp_le_length)

lemma PACK64_UNPACK64: "PACK64 (UNPACK64 x) = x"
proof (rule bit_word_eqI)
  fix n
  assume "n < LENGTH(64)"
  then consider "n < 8" | "8 \<le> n" "n < 16" | "16 \<le> n" "n < 24" | "24 \<le> n" "n < 32"
    | "32 \<le> n" "n < 40" | "40 \<le> n" "n < 48" | "48 \<le> n" "n < 56" | "56 \<le> n" "n < 64" by fastforce
  then show "bit (PACK64 (UNPACK64 x)) n = bit x n"
    by cases (auto simp: UNPACK64_def PACK64_def bit_simps)
qed

lemma PACK64_low: "PACK64 ([0, 0, 0, 0] @ UNPACK32 y) = ucast y"
proof (rule bit_word_eqI)
  fix n
  assume "n < LENGTH(64)"
  then consider "n < 8" | "8 \<le> n" "n < 16" | "16 \<le> n" "n < 24" | "24 \<le> n" "n < 32" | "32 \<le> n" by fastforce
  then show "bit (PACK64 ([0, 0, 0, 0] @ UNPACK32 y)) n = bit (ucast y :: u64) n"
    by cases (auto simp: UNPACK32_def PACK64_def bit_simps)
qed


text \<open>Below \<open>2 ^ 32\<close> bits the 32-bit count is the 64-bit count, above it never is.\<close>

lemma UNPACK64_low_iff:
  assumes "8 * n < 2 ^ 64"
  shows "UNPACK64 (of_nat (8 * n)) = [0, 0, 0, 0] @ UNPACK32 (of_nat (8 * n)) \<longleftrightarrow> n < 2 ^ 29"
proof -
  let ?x = "of_nat (8 * n) :: u64" and ?y = "of_nat (8 * n) :: u32"
  have inj: "UNPACK64 a = b \<longleftrightarrow> a = PACK64 b" if "\<exists>c. b = UNPACK64 c" for a b
    using that PACK64_UNPACK64 by metis
  have low: "\<exists>c. [0, 0, 0, 0] @ UNPACK32 y = UNPACK64 c" for y
  proof
    show "[0, 0, 0, 0] @ UNPACK32 y = UNPACK64 (ucast y)"
      by (auto simp: UNPACK32_def UNPACK64_def intro!: bit_word_eqI simp: bit_simps)
  qed
  have "UNPACK64 ?x = [0, 0, 0, 0] @ UNPACK32 ?y \<longleftrightarrow> ?x = ucast ?y"
    using inj [OF low] by (simp only: PACK64_low)
  also have "\<dots> \<longleftrightarrow> unat ?x = unat (ucast ?y :: u64)" by (rule word_unat_eq_iff)
  also have "unat (ucast ?y :: u64) = 8 * n mod 2 ^ 32"
    by (simp only: unsigned_ucast_eq unat_of_nat) (simp add: take_bit_eq_mod)
  also have "unat ?x = 8 * n" using assms by (simp only: unat_of_nat) simp
  also have "8 * n = 8 * n mod 2 ^ 32 \<longleftrightarrow> 8 * n < 2 ^ 32" by (metis mod_less mod_less_divisor zero_less_numeral zero_less_power)
  finally show ?thesis by simp
qed

lemma sha2_tail_std_iff:
  assumes "8 * n < 2 ^ 64" and "bs = 64 \<and> res = 9 \<or> bs = 128 \<and> res = 17"
  shows "sha2_tail bs res n = sha2_std_tail bs res n \<longleftrightarrow> n < 2 ^ 29"
proof -
  have r: "res - 5 = (res - 9) + 4" using assms(2) by auto
  have z: "replicate 4 (0::u8) = [0, 0, 0, 0]" by (simp add: numeral_eq_Suc)
  have "sha2_tail bs res n = sha2_std_tail bs res n \<longleftrightarrow>
      [0, 0, 0, 0] @ UNPACK32 (of_nat (8 * n)) = UNPACK64 (of_nat (8 * n))"
    unfolding sha2_tail_def sha2_std_tail_def r replicate_add z by simp
  then show ?thesis using UNPACK64_low_iff [OF assms(1)] by (simp only: eq_commute)
qed


section \<open>Properties\<close>

definition sha256_blank :: sha256_ctx where
  "sha256_blank = \<lparr>tot_len = 0, ctx_len = 0, ctx_block = replicate 128 0, ctx_h = replicate 8 0\<rparr>"


lemmas sha2_defs =
  sha256_init_def sha256_update_def sha256_final_def sha224_init_def sha224_update_def sha224_final_def
  sha384_init_def sha384_update_def sha384_final_def sha512_init_def sha512_update_def sha512_final_def




text \<open>The message \<open>abc\<close>: its padded block and the schedule of that block.\<close>

definition abc_block :: bytes where
  "abc_block = [0x61, 0x62, 0x63, 0x80] @ replicate 59 0 @ [0x18]"

definition abc_schedule :: "u32 list" where
  "abc_schedule =
    [0x61626380, 0x00000000, 0x00000000, 0x00000000, 0x00000000, 0x00000000, 0x00000000, 0x00000000,
     0x00000000, 0x00000000, 0x00000000, 0x00000000, 0x00000000, 0x00000000, 0x00000000, 0x00000018,
     0x61626380, 0x000f0000, 0x7da86405, 0x600003c6, 0x3e9d7b78, 0x0183fc00, 0x12dcbfdb, 0xe2e2c38e,
     0xc8215c1a, 0xb73679a2, 0xe5bc3909, 0x32663c5b, 0x9d209d67, 0xec8726cb, 0x702138a4, 0xd3b7973b,
     0x93f5997f, 0x3b68ba73, 0xaff4ffc1, 0xf10a5c62, 0x0a8b3996, 0x72af830a, 0x9409e33e, 0x24641522,
     0x9f47bf94, 0xf0a64f5a, 0x3e246a79, 0x27333ba3, 0x0c4763f2, 0x840abf27, 0x7a290d5d, 0x065c43da,
     0xfb3e89cb, 0xcc7617db, 0xb9e66c34, 0xa9993667, 0x84badedd, 0xc21462bc, 0x1487472c, 0xb20f7a99,
     0xef57b9cd, 0xebe6b238, 0x9fe3095e, 0x78bc8d4b, 0xa43fcf15, 0x668b2ff8, 0xeeaba2cc, 0x12b1edeb]"

lemma abc_blocks: "blocks 64 ([0x61, 0x62, 0x63] @ sha2_tail 64 9 (length [0x61, 0x62, 0x63 :: u8])) = [abc_block]"
  by code_simp

lemma abc_schedule: "sha256_schedule abc_block = abc_schedule"
  by code_simp

lemma abc_compress:
  "map (\<lambda>j. sha256_h0 ! j + fold (sha256_round abc_schedule) [0..<64] sha256_h0 ! j) [0..<8] =
    [0xba7816bf, 0x8f01cfea, 0x414140de, 0x5dae2223, 0xb00361a3, 0x96177a9c, 0xb410ff61, 0xf20015ad]"
  by code_simp

text \<open>\<open>sha256\<close> of \<open>abc\<close> is the digest that the test vectors of the source give.\<close>

theorem sha256_test_vector:
  "sha256 sha256_blank [0x61, 0x62, 0x63] =
    [0xba, 0x78, 0x16, 0xbf, 0x8f, 0x01, 0xcf, 0xea, 0x41, 0x41, 0x40, 0xde, 0x5d, 0xae, 0x22, 0x23,
     0xb0, 0x03, 0x61, 0xa3, 0x96, 0x17, 0x7a, 0x9c, 0xb4, 0x10, 0xff, 0x61, 0xf2, 0x00, 0x15, 0xad]"
proof -
  have "sha256 sha256_blank [0x61, 0x62, 0x63] = sha2_hash sha256_compress 64 9 UNPACK32 8 sha256_h0 [0x61, 0x62, 0x63]"
    unfolding sha256_def sha2_defs
    by (rule sha256_fam.stream.hash_one) (simp_all add: sha2_fresh_def sha256_blank_def)
  also have "\<dots> = concat (map (\<lambda>i. UNPACK32 ([0xba7816bf, 0x8f01cfea, 0x414140de, 0x5dae2223,
      0xb00361a3, 0x96177a9c, 0xb410ff61, 0xf20015ad] ! i)) [0..<8])"
    unfolding sha2_hash_def abc_blocks fold.simps o_apply id_apply sha256_compress_def abc_schedule Let_def abc_compress ..
  also have "\<dots> =
    [0xba, 0x78, 0x16, 0xbf, 0x8f, 0x01, 0xcf, 0xea, 0x41, 0x41, 0x40, 0xde, 0x5d, 0xae, 0x22, 0x23,
     0xb0, 0x03, 0x61, 0xa3, 0x96, 0x17, 0x7a, 0x9c, 0xb4, 0x10, 0xff, 0x61, 0xf2, 0x00, 0x15, 0xad]"
    by code_simp
  finally show ?thesis .
qed

text \<open>the count of bits that \<open>sha256_final\<close> stores has 32 bits only. For every message the digest is
  that of the message with the padding \<open>sha2_tail\<close>, and this padding is the one of the standard
  exactly for messages below \<open>2 ^ 29\<close> octets.\<close>

theorem sha256_count_wraps:
  assumes "length m \<le> 2 ^ 32 - 256" and "length (ctx_block c) = 128"
  shows "sha256 c m = sha2_hash sha256_compress 64 9 UNPACK32 8 sha256_h0 m \<and>
    (sha2_tail 64 9 (length m) = sha2_std_tail 64 9 (length m) \<longleftrightarrow> length m < 2 ^ 29)"
proof
  show "sha256 c m = sha2_hash sha256_compress 64 9 UNPACK32 8 sha256_h0 m"
    unfolding sha256_def sha2_defs
    by (rule sha256_fam.stream.hash_one) (use assms in \<open>simp_all add: sha2_fresh_def\<close>)
  have "8 * length m < 2 ^ 64" using assms(1) by simp
  then show "sha2_tail 64 9 (length m) = sha2_std_tail 64 9 (length m) \<longleftrightarrow> length m < 2 ^ 29"
    by (rule sha2_tail_std_iff) simp
qed

theorem sha256_count_wraps_witness:
  "sha2_tail 64 9 (length (replicate (2 ^ 29) (0::u8))) \<noteq> sha2_std_tail 64 9 (length (replicate (2 ^ 29) (0::u8)))"
  using sha256_count_wraps [of "replicate (2 ^ 29) 0" sha256_blank] by (simp add: sha256_blank_def)

text \<open>The sum \<open>ctx->len + len\<close> wraps as well. When a piece brings it to \<open>2 ^ 32\<close> or more, the update
  function takes the branch for short input: it compresses nothing and forgets all but the first
  octets of the piece.\<close>

theorem sha256_update_length_wraps:
  assumes "ctx_len ctx = of_nat u" and "u < 64" and "length p < 2 ^ 32" and "2 ^ 32 \<le> u + length p"
  shows "ctx_h (sha256_update ctx p) = ctx_h ctx \<and> tot_len (sha256_update ctx p) = tot_len ctx \<and>
    ctx_len (sha256_update ctx p) = of_nat (u + length p - 2 ^ 32)"
proof -
  have "(of_nat u :: u32) + of_nat (length p) = of_nat (u + length p - 2 ^ 32)"
    using assms(4) by (simp add: of_nat_diff)
  moreover have "(of_nat (u + length p - 2 ^ 32) :: u32) < of_nat 64"
    using assms(2,3) by (subst u32_less) auto
  ultimately show ?thesis
    unfolding sha256_update_def sha2_update_def Let_def assms(1) by simp
qed

theorem sha256_update_length_wraps_witness:
  "ctx_len (sha256_update (sha256_blank\<lparr>ctx_len := 1\<rparr>) (replicate (2 ^ 32 - 1) 7)) = 0"
  using sha256_update_length_wraps [of "sha256_blank\<lparr>ctx_len := 1\<rparr>" 1 "replicate (2 ^ 32 - 1) 7"] by simp

end
