(* ===== verification/RC4.thy ===== *)
theory RC4
  imports Prelude "HOL-Library.Multiset"
begin

text \<open>
  \<open>CodecRC4\<close> of \<^verbatim>\<open>codec.c\<close>: the key schedule and the key stream. The text is read and written
  octet by octet at the same index, so the caller may pass one buffer for both, as
  \<open>CodecGenerateEncryptionKey\<close> does. The lemmas show that the table stays a permutation of the 256
  octets and that the operation is its own inverse.
\<close>

section \<open>Operations\<close>

text \<open>\<open>t = rc4[i]; rc4[i] = rc4[j]; rc4[j] = t\<close>.\<close>

definition rc4_swap :: "bytes \<Rightarrow> nat \<Rightarrow> nat \<Rightarrow> bytes" where
  "rc4_swap rc4 i j = (let t = rc4 ! i in (rc4[i := rc4 ! j])[j := t])"

definition rc4_schedule :: "bytes \<Rightarrow> nat \<Rightarrow> bytes" where
  "rc4_schedule key keylen =
     snd (fold (\<lambda>i (j, rc4). let j' = (j + unat (rc4 ! i) + unat (key ! (i mod keylen))) mod 256
                             in (j', rc4_swap rc4 i j'))
            [0..<256] (0, map of_nat [0..<256]))"

fun rc4_loop :: "nat \<Rightarrow> nat \<Rightarrow> bytes \<Rightarrow> bytes \<Rightarrow> bytes" where
  "rc4_loop a b rc4 [] = []"
| "rc4_loop a b rc4 (x # textin) =
     (let a' = (a + 1) mod 256;
          b' = (b + unat (rc4 ! a')) mod 256;
          rc4' = rc4_swap rc4 a' b';
          k = rc4' ! ((unat (rc4' ! a') + unat (rc4' ! b')) mod 256)
      in (x XOR k) # rc4_loop a' b' rc4' textin)"

definition CodecRC4 :: "bytes \<Rightarrow> nat \<Rightarrow> bytes \<Rightarrow> nat \<Rightarrow> bytes" where
  "CodecRC4 key keylen textin textlen = rc4_loop 0 0 (rc4_schedule key keylen) (take textlen textin)"

section \<open>The table is a permutation\<close>

lemma length_rc4_swap [simp]: "length (rc4_swap rc4 i j) = length rc4"
  by (simp add: rc4_swap_def Let_def)

lemma mset_rc4_swap [simp]: "i < length rc4 \<Longrightarrow> j < length rc4 \<Longrightarrow> mset (rc4_swap rc4 i j) = mset rc4"
  by (simp add: rc4_swap_def Let_def mset_swap)

lemma rc4_schedule_perm: "mset (rc4_schedule key keylen) = mset (map of_nat [0..<256])"
proof -
  let ?f = "\<lambda>i (j, rc4). let j' = (j + unat (rc4 ! i) + unat (key ! (i mod keylen))) mod 256
                         in (j', rc4_swap rc4 i j')"
  have "mset (snd (fold ?f is (j, rc4))) = mset rc4"
    if "\<forall>i \<in> set is. i < 256" "length rc4 = 256" for "is" j and rc4 :: bytes
    using that by (induction "is" arbitrary: j rc4) (auto simp: Let_def)
  from this [of "[0..<256]" "map of_nat [0..<256]" 0] show ?thesis
    by (simp add: rc4_schedule_def)
qed

lemma length_rc4_schedule [simp]: "length (rc4_schedule key keylen) = 256"
  using mset_eq_length [OF rc4_schedule_perm] by simp

section \<open>Encryption and decryption\<close>

lemma length_rc4_loop [simp]: "length (rc4_loop a b rc4 xs) = length xs"
  by (induction xs arbitrary: a b rc4) (auto simp: Let_def)

lemma rc4_loop_twice [simp]: "rc4_loop a b rc4 (rc4_loop a b rc4 xs) = xs"
  by (induction xs arbitrary: a b rc4) (auto simp: Let_def)

lemma length_CodecRC4 [simp]: "length (CodecRC4 key keylen xs n) = min (length xs) n"
  by (simp add: CodecRC4_def min.commute)

lemma CodecRC4_inverse: "CodecRC4 key keylen (CodecRC4 key keylen xs n) n = take n xs"
  by (simp add: CodecRC4_def take_all)

section \<open>Reference\<close>

text \<open>The algorithm with 8-bit registers, whose arithmetic wraps by itself, and the table as a function.\<close>

definition ref_swap :: "(u8 \<Rightarrow> u8) \<Rightarrow> u8 \<Rightarrow> u8 \<Rightarrow> u8 \<Rightarrow> u8" where
  "ref_swap s i j = s(i := s j, j := s i)"

definition ref_schedule :: "bytes \<Rightarrow> nat \<Rightarrow> u8 \<Rightarrow> u8" where
  "ref_schedule key keylen =
     snd (fold (\<lambda>i (j, s). let j' = j + s i + key ! (unat i mod keylen) in (j', ref_swap s i j'))
            (map of_nat [0..<256]) (0, \<lambda>x. x))"

fun ref_loop :: "u8 \<Rightarrow> u8 \<Rightarrow> (u8 \<Rightarrow> u8) \<Rightarrow> bytes \<Rightarrow> bytes" where
  "ref_loop a b s [] = []"
| "ref_loop a b s (x # xs) =
     (let a' = a + 1; b' = b + s a'; s' = ref_swap s a' b'
      in (x XOR s' (s' a' + s' b')) # ref_loop a' b' s' xs)"

definition table :: "(u8 \<Rightarrow> u8) \<Rightarrow> bytes" where
  "table s = map (\<lambda>i. s (of_nat i)) [0..<256]"

lemma length_table [simp]: "length (table s) = 256"
  by (simp add: table_def)

lemma unat_256 [simp]: "unat (x::u8) < 256"
  using unsigned_less [of x] by simp

lemma table_nth [simp]: "table s ! unat x = s x"
  by (simp add: table_def)

lemma table_swap: "rc4_swap (table s) (unat i) (unat j) = table (ref_swap s i j)"
proof (rule nth_equalityI)
  fix k
  assume "k < length (rc4_swap (table s) (unat i) (unat j))"
  then obtain x :: u8 where k: "k = unat x" by (intro that [of "of_nat k"]) (simp add: unat_of_nat)
  show "rc4_swap (table s) (unat i) (unat j) ! k = table (ref_swap s i j) ! k"
    unfolding k by (simp add: rc4_swap_def ref_swap_def Let_def nth_list_update word_unat_eq_iff)
qed simp

lemma unat_add_256: "(unat (x::u8) + unat y) mod 256 = unat (x + y)"
  by (simp add: unat_word_ariths)

lemma rc4_loop_ref: "rc4_loop (unat a) (unat b) (table s) xs = ref_loop a b s xs"
proof (induction xs arbitrary: a b s)
  case (Cons x xs)
  have a: "(unat a + 1) mod 256 = unat (a + 1)" using unat_add_256 [of a 1] by simp
  show ?case
    unfolding rc4_loop.simps ref_loop.simps Let_def a table_nth unat_add_256 table_swap Cons.IH ..
qed simp

lemma rc4_schedule_ref: "rc4_schedule key keylen = table (ref_schedule key keylen)"
proof -
  let ?f = "\<lambda>i (j, rc4). let j' = (j + unat (rc4 ! i) + unat (key ! (i mod keylen))) mod 256
                         in (j', rc4_swap rc4 i j')"
  let ?g = "\<lambda>i (j, s). let j' = j + s i + key ! (unat i mod keylen) in (j', ref_swap s i j')"
  have "fold ?f (map unat is) (unat j, table s) = (case fold ?g is (j, s) of (j, s) \<Rightarrow> (unat j, table s))"
    for "is" :: "u8 list" and j s
  proof (induction "is" arbitrary: j s)
    case (Cons i "is")
    have "(unat j + unat (s i) + unat (key ! (unat i mod keylen))) mod 256 =
        unat (j + s i + key ! (unat i mod keylen))"
      by (simp add: unat_word_ariths mod_simps)
    then show ?case using Cons.IH by (simp add: Let_def table_swap)
  qed simp
  from this [of "map of_nat [0..<256]" 0 "\<lambda>x. x"] have
    "fold ?f (map unat (map of_nat [0..<256] :: u8 list)) (0, table (\<lambda>x. x)) =
      (case fold ?g (map of_nat [0..<256]) (0, \<lambda>x. x) of (j, s) \<Rightarrow> (unat j, table s))" by simp
  moreover have "map unat (map of_nat [0..<256] :: u8 list) = [0..<256]"
    by (rule nth_equalityI) (simp_all add: unat_of_nat)
  ultimately show ?thesis
    by (simp add: rc4_schedule_def ref_schedule_def table_def split: prod.split)
qed

section \<open>Properties\<close>

text \<open>C28: \<open>CodecRC4\<close>, which computes with \<open>int\<close> registers and \<open>% 256\<close>, is the RC4 algorithm on 8-bit
  registers, for every key, text and length.\<close>

theorem rc4_reference:
  "CodecRC4 key keylen text textlen = ref_loop 0 0 (ref_schedule key keylen) (take textlen text)"
  using rc4_loop_ref [of 0 0] by (simp add: CodecRC4_def rc4_schedule_ref)

text \<open>\<open>CodecRC4\<close> with the same key decrypts what it encrypted; the table that the key schedule
  builds is a permutation of the 256 octets.\<close>

theorem rc4_roundtrip:
  "CodecRC4 key keylen (CodecRC4 key keylen text (length text)) (length text) = text \<and>
   mset (rc4_schedule key keylen) = mset (map of_nat [0..<256])"
  by (simp add: CodecRC4_inverse rc4_schedule_perm)

end
