(* ===== verification/Codec.thy ===== *)
theory Codec
  imports Rijndael_Modes MD5 SHA2 RC4 "HOL-Library.Signed_Division" "HOL-Library.Monad_Syntax"
begin

text \<open>
  The codec of \<^verbatim>\<open>codec.c\<close> and \<^verbatim>\<open>codec.h\<close>: the \<^verbatim>\<open>Codec\<close> structure and its accessors, the
  derivation of the encryption key from a password, the page key and the initial vector of a page
  number, and the encryption and decryption of a database page with its special treatment of page 1.
  The compile-time switch \<^verbatim>\<open>CODEC_TYPE\<close> is an argument (the default of \<^verbatim>\<open>codec.h\<close> is
  \<open>AES128\<close>), and so is what the machine decides: the byte order, the size of a pointer and the
  content of fresh stack variables (\<open>env\<close>). A page is a region of a memory, so that the copies
  inside page 1 are the ones of the source.
\<close>

section \<open>Data\<close>

datatype codec_type = AES128 | AES256

definition KEYLENGTH :: "codec_type \<Rightarrow> nat" where
  "KEYLENGTH ct = (case ct of AES128 \<Rightarrow> 16 | AES256 \<Rightarrow> 32)"

definition CODEC_SHA_ITER :: nat where
  "CODEC_SHA_ITER = 4001"

definition SQLITE_MAX_PAGE_SIZE :: int where
  "SQLITE_MAX_PAGE_SIZE = 65536"

text \<open>\<open>SQLite format 3\<close> with its terminating zero.\<close>

definition SQLITE_FILE_HEADER :: bytes where
  "SQLITE_FILE_HEADER = [0x53, 0x51, 0x4c, 0x69, 0x74, 0x65, 0x20, 0x66, 0x6f, 0x72, 0x6d, 0x61, 0x74, 0x20, 0x33, 0]"

record env =
  env_le :: bool
  env_psz :: nat
  env_md5 :: MD5_CTX
  env_sha :: sha256_ctx

text \<open>\<open>m_bt\<close> is the B-tree the codec belongs to, a pointer that is only stored and returned.\<close>

record Codec =
  m_isEncrypted :: int
  m_hasReadKey :: int
  m_readKey :: bytes
  m_hasWriteKey :: int
  m_writeKey :: bytes
  m_aes :: Rijndael
  m_bt :: nat
  m_page :: bytes

section \<open>Hashes and the initial vector\<close>

abbreviation (input) MD5Binary :: "env \<Rightarrow> bytes \<Rightarrow> bytes" where
  "MD5Binary env data \<equiv> CodecGetMD5Binary (env_le env) (env_psz env) (env_md5 env) data"

definition CodecGetSHABinary :: "env \<Rightarrow> bytes \<Rightarrow> bytes" where
  "CodecGetSHABinary env data = sha256 (env_sha env) data"

definition MODMULT :: "int \<Rightarrow> int \<Rightarrow> int \<Rightarrow> int \<Rightarrow> int \<Rightarrow> int" where
  "MODMULT a b c m s =
     (let q = s sdiv a; s' = b * (s - a * q) - c * q in if s' < 0 then s' + m else s')"

text \<open>\<open>0xff & (z >> k)\<close>.\<close>

definition octet :: "int \<Rightarrow> nat \<Rightarrow> u8" where
  "octet z k = word_of_int (0xff AND drop_bit k z)"

definition initkey :: "int \<Rightarrow> bytes" where
  "initkey seed =
     snd (fold (\<lambda>j (z, key). let z' = MODMULT 52774 40692 3791 2147483399 z
                             in (z', key @ [octet z' 0, octet z' 8, octet z' 16, octet z' 24]))
            [0..<4] (seed + 1, []))"

definition CodecGenerateInitialVector :: "env \<Rightarrow> int \<Rightarrow> bytes" where
  "CodecGenerateInitialVector env seed = MD5Binary env (initkey seed)"

section \<open>Page encryption\<close>

text \<open>The key of a page: the codec key, the page number and a constant.\<close>

definition nkey :: "codec_type \<Rightarrow> bytes \<Rightarrow> int \<Rightarrow> bytes" where
  "nkey ct encryptionKey page =
     take (KEYLENGTH ct) encryptionKey @ [octet page 0, octet page 8, octet page 16, octet page 24] @
     [0x73, 0x41, 0x6c, 0x54]"

definition pagekey :: "env \<Rightarrow> codec_type \<Rightarrow> bytes \<Rightarrow> int \<Rightarrow> bytes" where
  "pagekey env ct encryptionKey page =
     (case ct of AES256 \<Rightarrow> CodecGetSHABinary env (nkey ct encryptionKey page)
      | AES128 \<Rightarrow> MD5Binary env (nkey ct encryptionKey page))"

text \<open>The return codes of the cipher are ignored, as in the source; the result is \<open>None\<close> only if the
  key schedule did not return.\<close>

definition CodecAES ::
  "env \<Rightarrow> codec_type \<Rightarrow> Codec \<Rightarrow> int \<Rightarrow> int \<Rightarrow> bytes \<Rightarrow> bytes \<Rightarrow> nat \<Rightarrow> int \<Rightarrow> nat \<Rightarrow> (Codec \<times> bytes) option" where
  "CodecAES env ct codec page encrypt encryptionKey mem datain datalen dataout =
     do {
       (rc, aes) \<leftarrow> RijndaelInit (m_aes codec) Mode_CBC
                      (if encrypt \<noteq> 0 then Direction_Encrypt else Direction_Decrypt)
                      (Some (pagekey env ct encryptionKey page))
                      (case ct of AES256 \<Rightarrow> Key32Bytes | AES128 \<Rightarrow> Key16Bytes)
                      (Some (CodecGenerateInitialVector env page));
       let (len, mem') = (if encrypt \<noteq> 0
                          then RijndaelBlockEncrypt aes mem (Some datain) (datalen * 8) dataout
                          else RijndaelBlockDecrypt aes mem (Some datain) (datalen * 8) dataout);
       Some (codec\<lparr>m_aes := aes\<rparr>, mem')
     }"

definition CodecEncrypt ::
  "env \<Rightarrow> codec_type \<Rightarrow> Codec \<Rightarrow> int \<Rightarrow> bytes \<Rightarrow> nat \<Rightarrow> int \<Rightarrow> int \<Rightarrow> (Codec \<times> bytes) option" where
  "CodecEncrypt env ct codec page mem data len useWriteKey =
     (let key = (if useWriteKey \<noteq> 0 then m_writeKey codec else m_readKey codec)
      in if page = 1
         then let dbHeader = rd mem (data + 16) 8
              in do {
                   (codec1, mem1) \<leftarrow> CodecAES env ct codec page 1 key mem data 16 data;
                   (codec2, mem2) \<leftarrow> CodecAES env ct codec1 page 1 key mem1 (data + 16) (len - 16) (data + 16);
                   let mem3 = wr mem2 (data + 8) (rd mem2 (data + 16) 8);
                   Some (codec2, wr mem3 (data + 16) dbHeader)
                 }
         else CodecAES env ct codec page 1 key mem data len data)"

text \<open>The test on the plain part of the header of page 1: a power of two between 512 and 65536 as the
  page size, and the three fixed payload fractions.\<close>

definition header_plausible :: "bytes \<Rightarrow> bool" where
  "header_plausible dbHeader \<longleftrightarrow>
     (let dbPageSize = push_bit 8 (uint (dbHeader ! 0)) OR push_bit 16 (uint (dbHeader ! 1))
      in dbPageSize \<ge> 512 \<and> dbPageSize \<le> SQLITE_MAX_PAGE_SIZE \<and> ((dbPageSize - 1) AND dbPageSize) = 0 \<and>
         dbHeader ! 5 = 0x40 \<and> dbHeader ! 6 = 0x20 \<and> dbHeader ! 7 = 0x20)"

definition CodecDecrypt ::
  "env \<Rightarrow> codec_type \<Rightarrow> Codec \<Rightarrow> int \<Rightarrow> bytes \<Rightarrow> nat \<Rightarrow> int \<Rightarrow> (Codec \<times> bytes) option" where
  "CodecDecrypt env ct codec page mem data len =
     (let dbHeader = rd mem (data + 16) 8;
          plain = (page = 1 \<and> header_plausible dbHeader);
          mem1 = (if plain then wr mem (data + 16) (rd mem (data + 8) 8) else mem);
          offset = (if plain then 16 else 0)
      in do {
           (codec', mem2) \<leftarrow> CodecAES env ct codec page 0 (m_readKey codec) mem1 (data + offset)
                               (len - int offset) (data + offset);
           Some (codec', if page = 1 \<and> offset \<noteq> 0 \<and> rd mem2 (data + 16) 8 = dbHeader
                         then wr mem2 data SQLITE_FILE_HEADER else mem2)
         })"

section \<open>Key derivation\<close>

definition padding :: bytes where
  "padding =
    [0x28, 0xBF, 0x4E, 0x5E, 0x4E, 0x75, 0x8A, 0x41, 0x64, 0x00, 0x4E, 0x56, 0xFF, 0xFA, 0x01, 0x08,
     0x2E, 0x2E, 0x00, 0xB6, 0xD0, 0x68, 0x3E, 0x80, 0x2F, 0x0C, 0xA9, 0xFE, 0x64, 0x53, 0x69, 0x7A]"

text \<open>\<open>password\<close> holds the \<open>pswdlen\<close> octets the caller passes; a negative length counts as none.\<close>

definition CodecPadPassword :: "bytes \<Rightarrow> int \<Rightarrow> bytes" where
  "CodecPadPassword password pswdlen =
     (let m = (if pswdlen > 32 then 32 else pswdlen);
          pswd = take (nat m) password
      in pswd @ take (32 - length pswd) padding)"

text \<open>\<open>MD5Init(&ctx); MD5Update(...); MD5Final(digest, &ctx)\<close> on the local context, over pieces.\<close>

definition md5_local :: "env \<Rightarrow> MD5_CTX \<Rightarrow> bytes list \<Rightarrow> bytes \<times> MD5_CTX" where
  "md5_local env ctx ps =
     MD5Final (env_le env) (env_psz env) (foldl (MD5Update (env_le env)) (MD5Init ctx) ps)"

text \<open>The two loops \<open>for (k = 0; k < 50; ++k)\<close>.\<close>

definition md5_50 :: "env \<Rightarrow> bytes \<times> MD5_CTX \<Rightarrow> bytes \<times> MD5_CTX" where
  "md5_50 env = fold (\<lambda>k (digest, ctx). md5_local env ctx [take 16 digest]) [0..<50]"

text \<open>The loop \<open>for (i = 0; i < 20; ++i)\<close> that encrypts \<open>ownerKey\<close> in place.\<close>

definition rc4_20 :: "bytes \<Rightarrow> bytes \<Rightarrow> bytes" where
  "rc4_20 digest =
     fold (\<lambda>i ownerKey. CodecRC4 (map (\<lambda>j. digest ! j XOR of_nat i) [0..<16]) 16 ownerKey 32) [0..<20]"

definition CodecGenerateEncryptionKey :: "env \<Rightarrow> codec_type \<Rightarrow> bytes \<Rightarrow> int \<Rightarrow> bytes" where
  "CodecGenerateEncryptionKey env ct userPassword passwordLength =
     (let userPad = CodecPadPassword userPassword passwordLength
      in case ct of
           AES256 \<Rightarrow>
             (let digest = sha256 (env_sha env) userPad
              in take (KEYLENGTH ct)
                   (fold (\<lambda>k digest. sha256 (env_sha env) (take (KEYLENGTH ct) digest)) [0..<CODEC_SHA_ITER] digest))
         | AES128 \<Rightarrow>
             (let ownerPad = CodecPadPassword [] 0;
                  (digest, ctx) = md5_50 env (md5_local env (env_md5 env) [ownerPad]);
                  ownerKey = rc4_20 digest userPad;
                  (digest', ctx') = md5_50 env (md5_local env ctx [userPad, ownerKey])
              in take 16 digest'))"

section \<open>The structure\<close>

text \<open>\<open>sqlite3_malloc\<close> returns fresh memory for the cipher session or null; the source does not test
  the result, so that null is a null dereference, the value \<open>None\<close> here.\<close>

definition CodecInit :: "Rijndael option \<Rightarrow> Codec \<Rightarrow> Codec option" where
  "CodecInit block codec =
     do {
       aes \<leftarrow> block;
       Some (codec\<lparr>m_isEncrypted := 0, m_hasReadKey := 0, m_hasWriteKey := 0, m_aes := RijndaelCreate aes\<rparr>)
     }"

definition CodecSetIsEncrypted :: "Codec \<Rightarrow> int \<Rightarrow> Codec" where
  "CodecSetIsEncrypted codec isEncrypted = codec\<lparr>m_isEncrypted := isEncrypted\<rparr>"

definition CodecSetHasReadKey :: "Codec \<Rightarrow> int \<Rightarrow> Codec" where
  "CodecSetHasReadKey codec hasReadKey = codec\<lparr>m_hasReadKey := hasReadKey\<rparr>"

definition CodecSetHasWriteKey :: "Codec \<Rightarrow> int \<Rightarrow> Codec" where
  "CodecSetHasWriteKey codec hasWriteKey = codec\<lparr>m_hasWriteKey := hasWriteKey\<rparr>"

definition CodecSetBtree :: "Codec \<Rightarrow> nat \<Rightarrow> Codec" where
  "CodecSetBtree codec bt = codec\<lparr>m_bt := bt\<rparr>"

definition CodecIsEncrypted :: "Codec \<Rightarrow> int" where
  "CodecIsEncrypted codec = m_isEncrypted codec"

definition CodecHasReadKey :: "Codec \<Rightarrow> int" where
  "CodecHasReadKey codec = m_hasReadKey codec"

definition CodecHasWriteKey :: "Codec \<Rightarrow> int" where
  "CodecHasWriteKey codec = m_hasWriteKey codec"

definition CodecGetBtree :: "Codec \<Rightarrow> nat" where
  "CodecGetBtree codec = m_bt codec"

text \<open>\<open>CodecGetPageBuffer\<close> is the address of the fifth octet of \<open>m_page\<close>.\<close>

definition CodecGetPageBuffer :: nat where
  "CodecGetPageBuffer = 4"

definition CodecCopy :: "Codec \<Rightarrow> Codec \<Rightarrow> Codec" where
  "CodecCopy codec other =
     codec\<lparr>m_isEncrypted := m_isEncrypted other, m_hasReadKey := m_hasReadKey other,
       m_hasWriteKey := m_hasWriteKey other, m_readKey := m_readKey other,
       m_writeKey := m_writeKey other, m_bt := m_bt other, m_aes := RijndaelInvalidate (m_aes codec)\<rparr>"

definition CodecCopyKey :: "Codec \<Rightarrow> int \<Rightarrow> Codec" where
  "CodecCopyKey codec read2write =
     (if read2write \<noteq> 0 then codec\<lparr>m_writeKey := m_readKey codec\<rparr>
      else codec\<lparr>m_readKey := m_writeKey codec\<rparr>)"

definition CodecGenerateReadKey :: "env \<Rightarrow> codec_type \<Rightarrow> Codec \<Rightarrow> bytes \<Rightarrow> int \<Rightarrow> Codec" where
  "CodecGenerateReadKey env ct codec userPassword passwordLength =
     codec\<lparr>m_readKey := CodecGenerateEncryptionKey env ct userPassword passwordLength\<rparr>"

definition CodecGenerateWriteKey :: "env \<Rightarrow> codec_type \<Rightarrow> Codec \<Rightarrow> bytes \<Rightarrow> int \<Rightarrow> Codec" where
  "CodecGenerateWriteKey env ct codec userPassword passwordLength =
     codec\<lparr>m_writeKey := CodecGenerateEncryptionKey env ct userPassword passwordLength\<rparr>"

section \<open>Lengths of digests and keys\<close>

definition env_ok :: "env \<Rightarrow> bool" where
  "env_ok env \<longleftrightarrow> length (md5_in (env_md5 env)) = 64 \<and> length (ctx_block (env_sha env)) = 128"

lemma length_MD5Binary: "env_ok env \<Longrightarrow> length data < 2 ^ 32 \<Longrightarrow> length (MD5Binary env data) = 16"
  by (simp add: CodecGetMD5Binary_md5 md5_fresh_def env_ok_def)

lemma length_sha2_hash32: "length (sha2_hash sha256_compress 64 9 UNPACK32 8 h0 m) = 32"
  by (simp add: sha2_hash_def Let_def length_concat comp_def upt_rec)

lemma sha256_hash:
  "env_ok env \<Longrightarrow> length m \<le> 2 ^ 32 - 256 \<Longrightarrow>
   sha256 (env_sha env) m = sha2_hash sha256_compress 64 9 UNPACK32 8 sha256_h0 m"
  unfolding sha256_def sha2_defs
  by (rule sha256_fam.stream.hash_one) (simp_all add: sha2_fresh_def env_ok_def)

lemma length_sha256: "env_ok env \<Longrightarrow> length m \<le> 2 ^ 32 - 256 \<Longrightarrow> length (sha256 (env_sha env) m) = 32"
  by (simp add: sha256_hash length_sha2_hash32)

lemma length_initkey [simp]: "length (initkey seed) = 16"
proof -
  have up: "[0..<4] = [0, 1, 2, 3::nat]" by (simp add: upt_rec)
  show ?thesis by (simp add: initkey_def Let_def up)
qed

lemma length_iv: "env_ok env \<Longrightarrow> length (CodecGenerateInitialVector env seed) = 16"
  by (simp add: CodecGenerateInitialVector_def length_MD5Binary)

lemma KEYLENGTH_le: "KEYLENGTH ct \<le> 32"
  by (simp add: KEYLENGTH_def split: codec_type.split)

lemma length_pagekey: "env_ok env \<Longrightarrow> length (pagekey env ct key page) = KEYLENGTH ct"
proof -
  assume e: "env_ok env"
  have "length (nkey ct key page) \<le> 40" using KEYLENGTH_le [of ct] by (simp add: nkey_def)
  then have "length (nkey ct key page) < 2 ^ 32" "length (nkey ct key page) \<le> 2 ^ 32 - 256" by simp_all
  with e show ?thesis
    by (cases ct) (simp_all add: pagekey_def KEYLENGTH_def length_MD5Binary CodecGetSHABinary_def length_sha256)
qed

section \<open>One region of a page\<close>

abbreviation (input) aes_keylen :: "codec_type \<Rightarrow> int" where
  "aes_keylen ct \<equiv> (case ct of AES256 \<Rightarrow> Key32Bytes | AES128 \<Rightarrow> Key16Bytes)"

lemma key_len_aes [simp]: "key_len (aes_keylen ct) = KEYLENGTH ct"
  by (simp add: key_len_def KEYLENGTH_def split: codec_type.split)

lemma aes_keylen_supported: "aes_keylen ct \<in> {Key16Bytes, Key24Bytes, Key32Bytes}"
  by (simp split: codec_type.split)

text \<open>The cipher text of the whole blocks of a region; octets beyond the last whole block are kept.\<close>

definition region_enc :: "Rijndael \<Rightarrow> bytes \<Rightarrow> bytes" where
  "region_enc e b = concat (cbc_enc (RijndaelEncrypt e) (m_initVector e) (blocks 16 b)) @ rest 16 b"

lemma mem_blocks_blocks: "x + len \<le> length mem \<Longrightarrow> mem_blocks mem x (len div 16) = blocks 16 (rd mem x len)"
proof -
  assume "x + len \<le> length mem"
  then have l: "length (rd mem x len) = len" by (simp add: dim_simps)
  have "rd mem x len = rd mem x (16 * (len div 16)) @ rd mem (x + 16 * (len div 16)) (len mod 16)"
    using rd_split [of mem x "16 * (len div 16)" "len mod 16"] by simp
  moreover have "length (rd mem x (16 * (len div 16))) = len div 16 * 16"
    using \<open>x + len \<le> length mem\<close> div_times_less_eq_dividend [of len 16] by (intro length_rd [THEN trans]) auto
  ultimately show ?thesis
    using l nblocks_prefix [of "len div 16" 16 "rd mem x (16 * (len div 16))"] by (simp add: mem_blocks_def blocks_def)
qed

lemma rest_rd: "x + len \<le> length mem \<Longrightarrow> rest 16 (rd mem x len) = rd mem (x + 16 * (len div 16)) (len mod 16)"
  by (simp add: rest_def rd_def drop_take minus_mult_div_eq_mod mult.commute [of _ 16] add.commute)

lemma wr_keep:
  assumes "x + length c + k \<le> length mem"
  shows "wr mem x (c @ rd mem (x + length c) k) = wr mem x c"
proof -
  have "rd (wr mem x c) (x + length c) k = rd mem (x + length c) k"
    using assms by (intro rd_wr_after) auto
  moreover have "length (wr mem x c) = length mem" using assms by (simp add: dim_simps)
  ultimately show ?thesis
    using assms wr_rd_same [of "x + length c" k "wr mem x c"] wr_append [of x c "rd mem (x + length c) k" mem]
    by (simp add: dim_simps)
qed

lemma length_region_enc:
  assumes "sessions_paired e d" shows "length (region_enc e b) = length b"
proof -
  have "blocks16 (cbc_enc (RijndaelEncrypt e) (m_initVector e) (blocks 16 b))"
    using rij.length_enc [OF assms] by simp
  then show ?thesis by (simp add: region_enc_def length_rest blocks_def)
qed

lemma blocks16_blocks: "blocks16 (blocks 16 b)"
  unfolding blocks16_def blocks_def by (intro ballI nblocks_length_mem [where xs = b]) simp_all

lemma region_encrypt:
  assumes "sessions_paired e d" and "enc_session Mode_CBC e" and "16 \<le> len" and "x + len \<le> length mem"
  shows "RijndaelBlockEncrypt e mem (Some x) (8 * int len) x =
    (128 * int (len div 16), wr mem x (region_enc e (rd mem x len)))"
proof -
  define c where "c = concat (cbc_enc (RijndaelEncrypt e) (m_initVector e) (blocks 16 (rd mem x len)))"
  have l: "length (rd mem x len) = len" using assms(4) by (simp add: dim_simps)
  have "blocks16 (cbc_enc (RijndaelEncrypt e) (m_initVector e) (blocks 16 (rd mem x len)))"
    using rij.length_enc [OF assms(1)] by simp
  then have c: "length c = 16 * (len div 16)" using l by (simp add: c_def blocks_def)
  have "16 * (len div 16) + len mod 16 = len" by simp
  then have "wr mem x (c @ rd mem (x + length c) (len mod 16)) = wr mem x c"
    using c assms(4) by (intro wr_keep) linarith
  moreover have "region_enc e (rd mem x len) = c @ rd mem (x + length c) (len mod 16)"
    unfolding region_enc_def rest_rd [OF assms(4)] c unfolding c_def ..
  moreover have "concat (cbc_enc (RijndaelEncrypt e) (m_initVector e) (mem_blocks mem x (len div 16))) = c"
    by (simp only: c_def mem_blocks_blocks [OF assms(4)])
  ultimately show ?thesis by (simp only: BlockEncrypt_CBC [OF assms])
qed

lemma region_decrypt:
  assumes p: "sessions_paired e d" and "dec_session Mode_CBC d" and iv: "m_initVector d = m_initVector e" 
    and "16 \<le> len" and x: "x + len \<le> length mem" and b: "length b = len" and "rd mem x len = region_enc e b"
  shows "RijndaelBlockDecrypt d mem (Some x) (8 * int len) x = (128 * int (len div 16), wr mem x b)"
proof -
  let ?f = "RijndaelDecrypt d" and ?cs = "cbc_enc (RijndaelEncrypt e) (m_initVector e) (blocks 16 b)"
  have ivl: "length (m_initVector e) = 16" using assms(2) iv by (simp add: dec_session_def)
  have cs: "blocks16 ?cs" "length ?cs = len div 16" using rij.length_enc [OF p] b by (simp_all add: blocks_def)
  have lc: "length (concat ?cs) = len div 16 * 16" using cs by simp
  have bl: "blocks 16 (concat ?cs @ rest 16 b) = ?cs"
  proof -
    have "length (concat ?cs @ rest 16 b) div 16 = len div 16"
      using lc b by (simp add: length_rest)
    moreover have "nblocks 16 (len div 16) (concat ?cs @ rest 16 b) = nblocks 16 (len div 16) (concat ?cs)"
      using lc by (intro nblocks_prefix) simp
    moreover have "nblocks 16 (length xs) (concat xs) = xs" if "blocks16 xs" for xs
      using that by (induction xs) auto
    ultimately show ?thesis using cs unfolding blocks_def [of 16 "concat ?cs @ rest 16 b"] by metis
  qed
  have mb: "mem_blocks mem x (len div 16) = ?cs"
    using mem_blocks_blocks [OF x] assms(7) bl by (simp add: region_enc_def)
  have sum: "16 * (len div 16) + len mod 16 = len" by simp
  have rb: "rd mem (x + 16 * (len div 16)) (len mod 16) = rest 16 b"
  proof -
    have "rest 16 (rd mem x len) = rest 16 b"
      using assms(7) lc b rest_append [of 16 "concat ?cs" "rest 16 b"]
      by (simp add: region_enc_def rest_def length_rest)
    then show ?thesis by (simp only: rest_rd [OF x])
  qed
  have "CBC_dec_loop ?f (m_initVector d) (len div 16) x x mem = wr mem x (concat (cbc_dec ?f (m_initVector e) ?cs))"
    unfolding iv mb [symmetric]
    by (rule CBC_dec_loop_blocks) (use rij.length_dec [OF p] ivl x sum in \<open>auto simp: safe_regions_def\<close>)
  also have "cbc_dec ?f (m_initVector e) ?cs = blocks 16 b"
    using p blocks16_blocks ivl by (rule rij.cbc_inverse)
  also have "wr mem x (concat (blocks 16 b)) = wr mem x b"
  proof -
    have "length (concat (blocks 16 b)) = 16 * (len div 16)"
      using blocks16_blocks [of b] b by (simp add: blocks_def)
    then show ?thesis
      using wr_keep [of x "concat (blocks 16 b)" "len mod 16" mem] rb blocks_rest [of 16 b] x sum by simp
  qed
  finally show ?thesis using BlockDecrypt_CBC [OF p assms(2,4)] by simp
qed

section \<open>Pages\<close>

lemma CodecAES_region:
  assumes e: "env_ok env" and c: "rijndael_dims (m_aes c)"
  shows "\<exists>e. rijndael_dims e \<and> (\<forall>b. length (region_enc e b) = length b) \<and>
    (\<forall>len mem x. 16 \<le> len \<and> x + len \<le> length mem \<longrightarrow>
      CodecAES env ct c page 1 key mem x (int len) x = Some (c\<lparr>m_aes := e\<rparr>, wr mem x (region_enc e (rd mem x len)))) \<and>
    (\<forall>c2. rijndael_dims (m_aes c2) \<longrightarrow> (\<exists>d. rijndael_dims d \<and>
      (\<forall>len mem x b. 16 \<le> len \<and> x + len \<le> length mem \<and> length b = len \<and> rd mem x len = region_enc e b \<longrightarrow>
        CodecAES env ct c2 page 0 key mem x (int len) x = Some (c2\<lparr>m_aes := d\<rparr>, wr mem x b))))"
proof -
  let ?k = "pagekey env ct key page" and ?iv = "CodecGenerateInitialVector env page" and ?kl = "aes_keylen ct"
  have l: "length ?iv = 16" "key_len ?kl \<le> length ?k" using e by (simp_all add: length_iv length_pagekey)
  have sup: "supported Mode_CBC Direction_Encrypt ?kl" "supported Mode_CBC Direction_Decrypt ?kl"
    by (simp_all add: supported_def split: codec_type.split)
  have pair: "\<exists>e d. RijndaelInit (m_aes c) Mode_CBC Direction_Encrypt (Some ?k) ?kl (Some ?iv) = Some (RIJNDAEL_SUCCESS, e) \<and>
      RijndaelInit r2 Mode_CBC Direction_Decrypt (Some ?k) ?kl (Some ?iv) = Some (RIJNDAEL_SUCCESS, d) \<and>
      sessions_paired e d \<and> enc_session Mode_CBC e \<and> dec_session Mode_CBC d \<and> m_initVector d = m_initVector e \<and>
      rijndael_dims e \<and> rijndael_dims d" if "rijndael_dims r2" for r2
    using RijndaelInit_paired [OF c that l(1) l(1) sup l(2)] l(1)
    by (auto simp: enc_session_def dec_session_def)
  obtain e where i: "RijndaelInit (m_aes c) Mode_CBC Direction_Encrypt (Some ?k) ?kl (Some ?iv) = Some (RIJNDAEL_SUCCESS, e)"
    and pe: "\<exists>d. sessions_paired e d" and s: "enc_session Mode_CBC e" and de: "rijndael_dims e"
    using pair [OF c] by blast
  have enc: "CodecAES env ct c page 1 key mem x (int len) x = Some (c\<lparr>m_aes := e\<rparr>, wr mem x (region_enc e (rd mem x len)))"
    if "16 \<le> len" "x + len \<le> length mem" for len mem x
    using pe region_encrypt [OF _ s that] by (auto simp: CodecAES_def i mult.commute)
  have dec: "\<exists>d. rijndael_dims d \<and>
      (\<forall>len mem x b. 16 \<le> len \<and> x + len \<le> length mem \<and> length b = len \<and> rd mem x len = region_enc e b \<longrightarrow>
        CodecAES env ct c2 page 0 key mem x (int len) x = Some (c2\<lparr>m_aes := d\<rparr>, wr mem x b))"
    if c2: "rijndael_dims (m_aes c2)" for c2
  proof -
    obtain d where j: "RijndaelInit (m_aes c2) Mode_CBC Direction_Decrypt (Some ?k) ?kl (Some ?iv) = Some (RIJNDAEL_SUCCESS, d)"
      and p: "sessions_paired e d" and sd: "dec_session Mode_CBC d" and iv: "m_initVector d = m_initVector e"
      and dd: "rijndael_dims d"
      using pair [OF c2] i by auto
    have "CodecAES env ct c2 page 0 key mem x (int len) x = Some (c2\<lparr>m_aes := d\<rparr>, wr mem x b)"
      if "16 \<le> len" "x + len \<le> length mem" "length b = len" "rd mem x len = region_enc e b" for len mem x b
      using region_decrypt [OF p sd iv that] by (simp add: CodecAES_def j mult.commute)
    with dd show ?thesis by blast
  qed
  from pe length_region_enc have "\<forall>b. length (region_enc e b) = length b" by blast
  with de enc dec show ?thesis by blast
qed

lemma CodecAES_regionE:
  assumes "env_ok env" and "rijndael_dims (m_aes c)" and "rijndael_dims (m_aes c2)"
  obtains e d where "rijndael_dims e" "\<And>b. length (region_enc e b) = length b"
    "\<And>len mem x. 16 \<le> len \<Longrightarrow> x + len \<le> length mem \<Longrightarrow>
      CodecAES env ct c page 1 key mem x (int len) x = Some (c\<lparr>m_aes := e\<rparr>, wr mem x (region_enc e (rd mem x len)))"
    "\<And>len mem x b. 16 \<le> len \<Longrightarrow> x + len \<le> length mem \<Longrightarrow> length b = len \<Longrightarrow> rd mem x len = region_enc e b \<Longrightarrow>
      CodecAES env ct c2 page 0 key mem x (int len) x = Some (c2\<lparr>m_aes := d\<rparr>, wr mem x b)"
  using CodecAES_region [OF assms(1,2), of ct page key] assms(3) by metis

lemma length_file_header [simp]: "length SQLITE_FILE_HEADER = 16"
  by (simp add: SQLITE_FILE_HEADER_def)

lemma take_wr: "p \<le> q \<Longrightarrow> q \<le> length m \<Longrightarrow> take p (wr m q bs) = take p m"
  by (simp add: wr_def)

lemma drop_wr: "q + length bs \<le> p \<Longrightarrow> q + length bs \<le> length m \<Longrightarrow> drop p (wr m q bs) = drop p m"
  by (simp add: wr_def)

lemma region_eqI:
  assumes "take p m = take p m'" and "rd m p n = rd m' p n" and "drop (p + n) m = drop (p + n) m'"
  shows "m = m'"
proof -
  have "x = take p x @ rd x p n @ drop (p + n) x" for x :: "'a list"
    by (simp add: rd_def) (metis add.commute append_take_drop_id drop_drop)
  from this [of m] this [of m'] assms show ?thesis by simp
qed

lemma region_restore:
  assumes "take p m = take p mem" and "drop (p + len) m = drop (p + len) mem" and "length m = length mem"
    and "rd m (p + 16) (len - 16) = rd mem (p + 16) (len - 16)" and "rd mem p 16 = h" and "length h = 16"
    and "16 \<le> len" and "p + len \<le> length mem"
  shows "wr m p h = mem"
proof (rule region_eqI [of p _ _ len])
  have p: "p + length h \<le> length m" using assms by linarith
  show "take p (wr m p h) = take p mem" using p assms(1) by (simp add: take_wr)
  have "drop (p + len) (wr m p h) = drop (p + len) m" using p assms(6,7) by (intro drop_wr) auto
  with assms(2) show "drop (p + len) (wr m p h) = drop (p + len) mem" by simp
  have "rd (wr m p h) p 16 = h" using p assms(6) by (intro rd_wr_same) auto
  moreover have "rd (wr m p h) (p + 16) (len - 16) = rd m (p + 16) (len - 16)"
    using p assms(6) by (intro rd_wr_after) auto
  moreover have "rd x p len = rd x p 16 @ rd x (p + 16) (len - 16)" for x :: "'a list"
    using rd_split [of x p 16 "len - 16"] assms(7) by simp
  ultimately show "rd (wr m p h) p len = rd mem p len" using assms(4,5) by simp
qed

text \<open>The key that \<open>CodecEncrypt\<close> uses.\<close>

abbreviation (input) use_key :: "Codec \<Rightarrow> int \<Rightarrow> bytes" where
  "use_key c useWriteKey \<equiv> (if useWriteKey \<noteq> 0 then m_writeKey c else m_readKey c)"

lemma page_roundtrip:
  assumes "env_ok env" and "rijndael_dims (m_aes c)" and "rijndael_dims (m_aes c2)"
    and "page \<noteq> 1" and "16 \<le> len" and "data + len \<le> length mem" and "m_readKey c2 = use_key c w"
  shows "\<exists>c' mem1 c2'. CodecEncrypt env ct c page mem data (int len) w = Some (c', mem1) \<and>
    length mem1 = length mem \<and> take data mem1 = take data mem \<and> drop (data + len) mem1 = drop (data + len) mem \<and>
    CodecDecrypt env ct c2 page mem1 data (int len) = Some (c2', mem)"
proof -
  obtain e d where le: "\<And>b. length (region_enc e b) = length b"
    and enc: "\<And>len mem x. 16 \<le> len \<Longrightarrow> x + len \<le> length mem \<Longrightarrow>
      CodecAES env ct c page 1 (use_key c w) mem x (int len) x =
        Some (c\<lparr>m_aes := e\<rparr>, wr mem x (region_enc e (rd mem x len)))"
    and dec: "\<And>len mem x b. 16 \<le> len \<Longrightarrow> x + len \<le> length mem \<Longrightarrow> length b = len \<Longrightarrow> rd mem x len = region_enc e b \<Longrightarrow>
      CodecAES env ct c2 page 0 (use_key c w) mem x (int len) x = Some (c2\<lparr>m_aes := d\<rparr>, wr mem x b)"
    by (rule CodecAES_regionE [OF assms(1-3), of ct page "use_key c w"]) blast
  let ?b = "rd mem data len"
  let ?m = "wr mem data (region_enc e ?b)"
  have b: "length ?b = len" using assms(6) by (simp add: dim_simps)
  have m: "length ?m = length mem" "rd ?m data len = region_enc e ?b"
    using le b assms(6) by (simp_all add: dim_simps mem_simps)
  have "CodecEncrypt env ct c page mem data (int len) w = Some (c\<lparr>m_aes := e\<rparr>, ?m)"
    using enc assms(4,5,6) by (simp add: CodecEncrypt_def)
  moreover have "CodecDecrypt env ct c2 page ?m data (int len) = Some (c2\<lparr>m_aes := d\<rparr>, wr ?m data ?b)"
    using dec [of len data ?m ?b] m b assms(4-7) by (simp add: CodecDecrypt_def)
  moreover have "wr ?m data ?b = mem"
    using le b assms(6) by (simp add: mem_simps)
  moreover have "take data ?m = take data mem" "drop (data + len) ?m = drop (data + len) mem"
    using le b assms(6) by (simp_all add: wr_def)
  ultimately show ?thesis using m(1) by auto
qed


lemma decrypt_page1:
  assumes "rd mem (data + 16) 8 = h" and "header_plausible h"
    and "CodecAES env ct c 1 0 (m_readKey c) (wr mem (data + 16) (rd mem (data + 8) 8)) (data + 16) (len - int 16) (data + 16) =
      Some (c', mem2)"
  shows "CodecDecrypt env ct c 1 mem data len =
    Some (c', if rd mem2 (data + 16) 8 = h then wr mem2 data SQLITE_FILE_HEADER else mem2)"
  using assms by (simp add: CodecDecrypt_def)

text \<open>Page 1: the first sixteen octets are replaced by the file header, octets 16 to 23 stay readable.\<close>

lemma page1_roundtrip:
  assumes "env_ok env" and "rijndael_dims (m_aes c)" and "rijndael_dims (m_aes c2)"
    and "32 \<le> len" and "data + len \<le> length mem" and "m_readKey c2 = use_key c w"
    and hd: "header_plausible (rd mem (data + 16) 8)" and magic: "rd mem data 16 = SQLITE_FILE_HEADER"
  shows "\<exists>c' mem1 c2'. CodecEncrypt env ct c 1 mem data (int len) w = Some (c', mem1) \<and>
    length mem1 = length mem \<and> rd mem1 (data + 16) 8 = rd mem (data + 16) 8 \<and>
    CodecDecrypt env ct c2 1 mem1 data (int len) = Some (c2', mem)"
proof -
  let ?k = "use_key c w" and ?n = "len - 16" and ?h = "rd mem (data + 16) 8"
  obtain e1 where d1: "rijndael_dims (m_aes (c\<lparr>m_aes := e1\<rparr>))" and l1: "\<And>b. length (region_enc e1 b) = length b"
    and enc1: "\<And>len mem x. 16 \<le> len \<Longrightarrow> x + len \<le> length mem \<Longrightarrow>
      CodecAES env ct c 1 1 ?k mem x (int len) x = Some (c\<lparr>m_aes := e1\<rparr>, wr mem x (region_enc e1 (rd mem x len)))"
    by (rule CodecAES_regionE [OF assms(1-3), of ct 1 ?k]) simp
  obtain e d where l: "\<And>b. length (region_enc e b) = length b"
    and enc: "\<And>len mem x. 16 \<le> len \<Longrightarrow> x + len \<le> length mem \<Longrightarrow>
      CodecAES env ct (c\<lparr>m_aes := e1\<rparr>) 1 1 ?k mem x (int len) x =
        Some ((c\<lparr>m_aes := e1\<rparr>)\<lparr>m_aes := e\<rparr>, wr mem x (region_enc e (rd mem x len)))"
    and dec: "\<And>len mem x b. 16 \<le> len \<Longrightarrow> x + len \<le> length mem \<Longrightarrow> length b = len \<Longrightarrow> rd mem x len = region_enc e b \<Longrightarrow>
      CodecAES env ct c2 1 0 ?k mem x (int len) x = Some (c2\<lparr>m_aes := d\<rparr>, wr mem x b)"
    by (rule CodecAES_regionE [OF assms(1) d1 assms(3), of ct 1 ?k]) blast
  have n: "16 \<le> ?n" "len = 16 + ?n" "int len - 16 = int ?n" using assms(4) by simp_all
  let ?a = "rd mem data 16" and ?b = "rd mem (data + 16) ?n"
  let ?m1 = "wr mem data (region_enc e1 ?a)"
  let ?m2 = "wr ?m1 (data + 16) (region_enc e ?b)"
  let ?m3 = "wr ?m2 (data + 8) (rd ?m2 (data + 16) 8)"
  let ?m4 = "wr ?m3 (data + 16) ?h"
  have la: "length ?a = 16" and lb: "length ?b = ?n" and lh: "length ?h = 8"
    using assms(4,5) by (simp_all add: dim_simps)
  have lm: "length ?m1 = length mem" "length ?m2 = length mem" "length ?m3 = length mem" "length ?m4 = length mem"
    using assms(4,5) l1 l la lb lh by (simp_all add: dim_simps)
  have r1: "rd ?m1 (data + 16) ?n = ?b" using assms(4,5) l1 la by (simp add: mem_simps)
  have E: "CodecEncrypt env ct c 1 mem data (int len) w = Some (c\<lparr>m_aes := e\<rparr>, ?m4)"
  proof -
    have "CodecAES env ct c 1 1 ?k mem data 16 data = Some (c\<lparr>m_aes := e1\<rparr>, ?m1)"
      using enc1 [of 16 data mem] assms(4,5) by simp
    moreover have "CodecAES env ct (c\<lparr>m_aes := e1\<rparr>) 1 1 ?k ?m1 (data + 16) (int len - 16) (data + 16) =
        Some ((c\<lparr>m_aes := e1\<rparr>)\<lparr>m_aes := e\<rparr>, ?m2)"
      using enc [of ?n "data + 16" ?m1, unfolded r1] n(1) lm(1) assms(4,5) unfolding n(3) by simp
    ultimately show ?thesis by (simp only: CodecEncrypt_def Let_def if_True bind.bind_lunit split) simp
  qed
  have h4: "rd ?m4 (data + 16) 8 = ?h" using lm lh assms(4,5) by (simp add: mem_simps)
  let ?m5 = "wr ?m4 (data + 16) (rd ?m4 (data + 8) 8)"
  have r8: "rd ?m4 (data + 8) 8 = rd ?m2 (data + 16) 8"
    using lm lh assms(4,5) by (simp add: mem_simps dim_simps)
  have m5: "rd ?m5 (data + 16) ?n = region_enc e ?b"
  proof -
    have "rd ?m5 (data + 16) (8 + (?n - 8)) = rd ?m5 (data + 16) 8 @ rd ?m5 (data + 16 + 8) (?n - 8)"
      by (rule rd_split)
    moreover have "rd ?m5 (data + 16) 8 = rd ?m2 (data + 16) 8"
      unfolding r8 using lm assms(4,5) by (simp add: mem_simps dim_simps)
    moreover have "rd ?m5 (data + 16 + 8) (?n - 8) = rd ?m2 (data + 16 + 8) (?n - 8)"
      unfolding r8 using lm lh assms(4,5) by (simp add: mem_simps dim_simps)
    moreover have "rd ?m2 (data + 16) (8 + (?n - 8)) = rd ?m2 (data + 16) 8 @ rd ?m2 (data + 16 + 8) (?n - 8)"
      by (rule rd_split)
    moreover have "rd ?m2 (data + 16) ?n = region_enc e ?b" using lm lb l assms(4,5) by (simp add: mem_simps)
    moreover have "8 + (?n - 8) = ?n" using n(1) by simp
    ultimately show ?thesis by simp
  qed
  have lm5: "length ?m5 = length mem" unfolding r8 using lm assms(4,5) by (simp add: dim_simps)
  let ?m6 = "wr ?m5 (data + 16) ?b"
  have h6: "rd ?m6 (data + 16) 8 = ?h"
  proof -
    have "rd ?m6 (data + 16) ?n = ?b" using lm5 lb assms(4,5) by (simp add: mem_simps)
    then have "take 8 (rd ?m6 (data + 16) ?n) = take 8 ?b" by simp
    then show ?thesis using n(1) by (simp add: rd_def min_def)
  qed
  have D: "CodecDecrypt env ct c2 1 ?m4 data (int len) = Some (c2\<lparr>m_aes := d\<rparr>, wr ?m6 data SQLITE_FILE_HEADER)"
  proof -
    have "CodecAES env ct c2 1 0 (m_readKey c2) ?m5 (data + 16) (int len - int 16) (data + 16) = Some (c2\<lparr>m_aes := d\<rparr>, ?m6)"
    proof -
      have i: "int len - int 16 = int ?n" using assms(4) by simp
      have "data + 16 + ?n \<le> length ?m5" unfolding lm5 using assms(4,5) by linarith
      from dec [OF n(1) this lb m5] show ?thesis unfolding i assms(6) .
    qed
    from decrypt_page1 [OF h4 hd this] show ?thesis unfolding if_P [OF h6] .
  qed
  have lm6: "length ?m6 = length mem" using lm5 lb assms(4,5) by (simp add: dim_simps)
  have "wr ?m6 data SQLITE_FILE_HEADER = mem"
  proof (rule region_restore [OF _ _ lm6])
    show "take data ?m6 = take data mem" using lm lm5 assms(4,5) by (simp add: take_wr)
    show "drop (data + len) ?m6 = drop (data + len) mem"
      unfolding r8 using lm lm5 l l1 la lb lh assms(4,5) by (simp add: drop_wr dim_simps)
    show "rd ?m6 (data + 16) (len - 16) = ?b" using lm5 lb assms(4,5) by (simp add: mem_simps)
  qed (use magic assms(4,5) in simp_all)
  with E D h4 lm(4) show ?thesis by auto
qed

section \<open>The initial vector and the page key\<close>

lemma MODMULT_schrage:
  assumes "0 \<le> s" and "s < 2 ^ 31"
  shows "MODMULT 52774 40692 3791 2147483399 s = 40692 * s mod 2147483399"
    and "\<bar>40692 * (s - 52774 * (s sdiv 52774))\<bar> < 2 ^ 31"
    and "\<bar>40692 * (s - 52774 * (s sdiv 52774)) - 3791 * (s sdiv 52774)\<bar> < 2 ^ 31"
proof -
  define q r where "q = s div 52774" and "r = s mod 52774"
  have q: "s sdiv 52774 = q" using assms by (cases "s = 0") (simp_all add: signed_divide_int_def q_def sgn_if)
  have s: "s = 52774 * q + r" by (simp add: q_def r_def)
  have b: "0 \<le> q" "q \<le> 40692" "0 \<le> r" "r < 52774"
    using assms by (auto simp: q_def r_def)
  have d: "s - 52774 * q = r" using s by simp
  show "\<bar>40692 * (s - 52774 * (s sdiv 52774))\<bar> < 2 ^ 31"
    "\<bar>40692 * (s - 52774 * (s sdiv 52774)) - 3791 * (s sdiv 52774)\<bar> < 2 ^ 31"
    unfolding q d using b by (simp_all add: abs_if)
  define z where "z = 40692 * r - 3791 * q"
  have "40692 * s = z + q * 2147483399" using s by (simp add: z_def)
  then have z: "40692 * s mod 2147483399 = z mod 2147483399" by simp
  have "- 2147483399 < z" "z < 2147483399" using b by (auto simp: z_def)
  note zb = this
  have neg: "z < 0 \<Longrightarrow> (z + 2147483399) mod 2147483399 = z + 2147483399"
    and pos: "\<not> z < 0 \<Longrightarrow> z mod 2147483399 = z"
    by (rule mod_pos_pos_trivial; use zb in linarith)+
  have "z mod 2147483399 = (if z < 0 then z + 2147483399 else z)"
    using neg [unfolded mod_add_self2] pos by argo
  then show "MODMULT 52774 40692 3791 2147483399 s = 40692 * s mod 2147483399"
    unfolding MODMULT_def Let_def q d z by (simp only: z_def)
qed

lemma bit_octet: "n < 8 \<Longrightarrow> bit (octet z k) n \<longleftrightarrow> bit z (n + k)"
proof -
  assume "n < 8"
  moreover have "bit (0xff :: int) n \<longleftrightarrow> n < 8" for n
    using bit_mask_iff [of 8 n, where ?'a = int] by (simp add: mask_eq_exp_minus_1)
  ultimately show ?thesis
    by (simp add: octet_def bit_word_of_int_iff bit_and_iff bit_drop_bit_eq add.commute)
qed

text \<open>The four octets determine an \<open>int\<close> of 32 bits.\<close>

lemma octets_inject:
  assumes "octet y 0 = octet z 0" "octet y 8 = octet z 8" "octet y 16 = octet z 16" "octet y 24 = octet z 24"
    and "- (2 ^ 31) \<le> y" "y < 2 ^ 31" "- (2 ^ 31) \<le> z" "z < 2 ^ 31"
  shows "y = z"
proof -
  have b: "bit y n = bit z n" if "n < 32" for n
  proof -
    have o: "bit y (n mod 8 + k) = bit z (n mod 8 + k)" if "octet y k = octet z k" for k
      using that bit_octet [of "n mod 8"] by (metis mod_less_divisor zero_less_numeral)
    have n: "n = n mod 8 + 8 * (n div 8)" by simp
    have "n div 8 < 4" using that by linarith
    then consider "n div 8 = 0" | "n div 8 = 1" | "n div 8 = 2" | "n div 8 = 3" by linarith
    then show ?thesis
    proof cases
      case 1 with n have "n = n mod 8 + 0" by linarith
      with o [OF assms(1)] show ?thesis by (simp only:)
    next
      case 2 with n have "n = n mod 8 + 8" by linarith
      with o [OF assms(2)] show ?thesis by (simp only:)
    next
      case 3 with n have "n = n mod 8 + 16" by linarith
      with o [OF assms(3)] show ?thesis by (simp only:)
    next
      case 4 with n have "n = n mod 8 + 24" by linarith
      with o [OF assms(4)] show ?thesis by (simp only:)
    qed
  qed
  have "signed_take_bit 31 y = signed_take_bit 31 z"
    by (rule bit_eqI) (use b in \<open>auto simp: bit_signed_take_bit_iff min_def\<close>)
  then show ?thesis using assms(5-8) by (simp add: signed_take_bit_int_eq_self)
qed

lemma fold_grows: "\<exists>t. snd (fold (\<lambda>j (z, key). (f z, key @ g z)) js (z, key)) = key @ t"
proof (induction js arbitrary: z key)
  case (Cons j js)
  from Cons.IH [of "f z" "key @ g z"] show ?case by auto
qed simp

lemma initkey_first:
  "\<exists>t. initkey seed = (let z = MODMULT 52774 40692 3791 2147483399 (seed + 1)
     in [octet z 0, octet z 8, octet z 16, octet z 24] @ t)"
proof -
  have up: "[0..<4] = 0 # [1..<4::nat]" by (simp add: upt_rec)
  show ?thesis
    unfolding initkey_def up fold_simps(2) prod.case Let_def append_Nil
    by (rule fold_grows [where f = "MODMULT 52774 40692 3791 2147483399"])
qed

lemma mult_unit_mod_inject:
  assumes "(40692 * y) mod 2147483399 = (40692 * z) mod 2147483399"
  shows "(y :: int) mod 2147483399 = z mod 2147483399"
proof -
  have c: "(1481316021 * (40692 * x)) mod 2147483399 = x mod 2147483399" for x :: int
  proof -
    have "1481316021 * (40692 * x) = x + (28069 * x) * 2147483399" by simp
    then show ?thesis using mod_mult_self1 [of x "28069 * x" 2147483399] by argo
  qed
  have "(1481316021 * (40692 * y)) mod 2147483399 = (1481316021 * (40692 * z)) mod 2147483399"
    by (rule mod_mult_cong [OF refl assms])
  then show ?thesis unfolding c .
qed

lemma initkey_inject:
  assumes "initkey y = initkey z" and "0 \<le> y" "y < 2147483398" "0 \<le> z" "z < 2147483398"
  shows "y = z"
proof -
  define Y Z where "Y = 40692 * (y + 1) mod 2147483399" and "Z = 40692 * (z + 1) mod 2147483399"
  have s: "MODMULT 52774 40692 3791 2147483399 (y + 1) = Y" "MODMULT 52774 40692 3791 2147483399 (z + 1) = Z"
    unfolding Y_def Z_def using assms(2-5) by (intro MODMULT_schrage(1); simp)+
  have r: "0 \<le> Y" "Y < 2147483399" "0 \<le> Z" "Z < 2147483399" by (simp_all add: Y_def Z_def)
  from initkey_first [of y] initkey_first [of z] obtain t u where
    "initkey y = [octet Y 0, octet Y 8, octet Y 16, octet Y 24] @ t"
    "initkey z = [octet Z 0, octet Z 8, octet Z 16, octet Z 24] @ u" unfolding Let_def s by blast
  with assms(1) have "Y = Z" using r by (intro octets_inject) simp_all
  then have "(y + 1) mod 2147483399 = (z + 1) mod 2147483399"
    unfolding Y_def Z_def by (rule mult_unit_mod_inject)
  then show ?thesis using assms(2-5) by simp
qed

lemma nkey_inject:
  assumes "nkey ct k page = nkey ct k' page'" and "length k = KEYLENGTH ct" "length k' = KEYLENGTH ct"
    and "- (2 ^ 31) \<le> page" "page < 2 ^ 31" "- (2 ^ 31) \<le> page'" "page' < 2 ^ 31"
  shows "k = k'" and "page = page'"
proof -
  from assms(1-3) have "k = k'" and o: "octet page 0 = octet page' 0 \<and> octet page 8 = octet page' 8 \<and>
    octet page 16 = octet page' 16 \<and> octet page 24 = octet page' 24"
    by (simp_all add: nkey_def)
  then show "k = k'" "page = page'" using assms(4-7) octets_inject by blast+
qed

section \<open>The derived key\<close>

lemma md5_local_md5:
  assumes "md5_fresh ctx" and "list_all (\<lambda>p. length p < 2 ^ 32) ps"
  shows "fst (md5_local env ctx ps) = md5 (concat ps)" and "md5_fresh (snd (md5_local env ctx ps))"
  unfolding md5_local_def
  using md5_hash.hash_pieces [OF assms] md5_hash.fresh_final [OF md5_hash.seen_pieces [OF md5_hash.seen_init [OF assms(1)] assms(2)]]
  by (simp_all)

lemma md5_rounds:
  fixes step :: "nat \<Rightarrow> bytes \<times> MD5_CTX \<Rightarrow> bytes \<times> MD5_CTX"
  assumes step: "\<And>k x. md5_fresh (snd x) \<Longrightarrow> length (fst x) = 16 \<Longrightarrow>
    fst (step k x) = md5 (fst x) \<and> md5_fresh (snd (step k x))"
  shows "md5_fresh (snd x) \<Longrightarrow> length (fst x) = 16 \<Longrightarrow>
    fst (fold step ks x) = (md5 ^^ length ks) (fst x) \<and> md5_fresh (snd (fold step ks x))"
proof (induction ks arbitrary: x)
  case (Cons k ks)
  from step [OF Cons.prems, of k] have s: "fst (step k x) = md5 (fst x)" "md5_fresh (snd (step k x))" by simp_all
  from Cons.IH [OF s(2)] s(1) show ?case by (simp add: funpow_Suc_right del: funpow.simps)
qed simp

lemma md5_50_md5:
  assumes "md5_fresh (snd x)" and "length (fst x) = 16"
  shows "fst (md5_50 env x) = (md5 ^^ 50) (fst x)" and "md5_fresh (snd (md5_50 env x))"
proof -
  have "fst (fold (\<lambda>k (digest, ctx). md5_local env ctx [take 16 digest]) ks x) = (md5 ^^ length ks) (fst x) \<and>
    md5_fresh (snd (fold (\<lambda>k (digest, ctx). md5_local env ctx [take 16 digest]) ks x))" for ks :: "nat list"
    by (rule md5_rounds [OF _ assms])
      (simp add: split_beta md5_local_md5)
  from this [of "[0..<50]"]
  show "fst (md5_50 env x) = (md5 ^^ 50) (fst x)" and "md5_fresh (snd (md5_50 env x))"
    unfolding md5_50_def length_upt by simp_all
qed

lemma md5_51: "(md5 ^^ 50) (md5 m) = (md5 ^^ 51) m"
  using funpow_Suc_right [of 50 md5] by (simp add: fun_eq_iff)

lemma length_pad: "length (CodecPadPassword pw n) = 32"
  by (simp add: CodecPadPassword_def Let_def padding_def)

lemma length_rc4_20: "length b = 32 \<Longrightarrow> length (rc4_20 d b) = 32"
proof -
  have "length (fold (\<lambda>i k. CodecRC4 (g i) 16 k 32) js b) = 32" if "length b = 32" for g and js :: "nat list" and b
    using that by (induction js arbitrary: b) simp_all
  then show "length b = 32 \<Longrightarrow> length (rc4_20 d b) = 32" unfolding rc4_20_def .
qed

text \<open>The derivation without machine state: iterated digests of the padded password.\<close>

definition key_ref :: "codec_type \<Rightarrow> bytes \<Rightarrow> bytes" where
  "key_ref ct userPad =
     (case ct of
        AES256 \<Rightarrow> (sha2_hash sha256_compress 64 9 UNPACK32 8 sha256_h0 ^^ Suc CODEC_SHA_ITER) userPad
      | AES128 \<Rightarrow> (md5 ^^ 51) (userPad @ rc4_20 ((md5 ^^ 51) padding) userPad))"

lemma length_funpow: "(\<And>x. length ((f :: 'a list \<Rightarrow> 'a list) x) = n) \<Longrightarrow> 0 < k \<Longrightarrow> length ((f ^^ k) x) = n"
  by (cases k) auto

lemma length_key_ref: "length (key_ref ct pad) = KEYLENGTH ct"
proof (cases ct)
  case AES128
  have "length ((md5 ^^ 51) x) = 16" for x by (rule length_funpow) simp_all
  with AES128 show ?thesis by (simp add: key_ref_def KEYLENGTH_def)
next
  case AES256
  with length_sha2_hash32 show ?thesis by (simp add: key_ref_def KEYLENGTH_def)
qed

lemma sha_rounds:
  assumes "env_ok env" and "length d = 32"
  shows "fold (\<lambda>k d. sha256 (env_sha env) (take 32 d)) ks d =
    (sha2_hash sha256_compress 64 9 UNPACK32 8 sha256_h0 ^^ length ks) d"
  using assms(2)
proof (induction ks arbitrary: d)
  case (Cons k ks)
  have "length (sha2_hash sha256_compress 64 9 UNPACK32 8 sha256_h0 d) = 32" by (rule length_sha2_hash32)
  from Cons.IH [OF this] show ?case
    using Cons.prems sha256_hash [OF assms(1), of d] by (simp add: funpow_Suc_right del: funpow.simps)
qed simp

lemma GenerateEncryptionKey_ref:
  assumes "env_ok env"
  shows "CodecGenerateEncryptionKey env ct pw n = key_ref ct (CodecPadPassword pw n)"
proof (cases ct)
  case AES256
  let ?h = "sha2_hash sha256_compress 64 9 UNPACK32 8 sha256_h0" and ?u = "CodecPadPassword pw n"
  have l: "length (?h x) = 32" for x by (rule length_sha2_hash32)
  have u: "sha256 (env_sha env) ?u = ?h ?u" by (rule sha256_hash [OF assms]) (simp add: length_pad)
  have "length ((?h ^^ CODEC_SHA_ITER) (?h ?u)) = 32"
    by (rule length_funpow [OF l]) (simp add: CODEC_SHA_ITER_def)
  then show ?thesis
    using sha_rounds [OF assms l, of "[0..<CODEC_SHA_ITER]" ?u] AES256
    by (simp add: CodecGenerateEncryptionKey_def key_ref_def KEYLENGTH_def u Let_def funpow_Suc_right del: funpow.simps)
next
  case AES128
  let ?u = "CodecPadPassword pw n"
  have "CodecPadPassword [] 0 = padding" by (simp add: CodecPadPassword_def padding_def)
  moreover have f: "md5_fresh (env_md5 env)" using assms by (simp add: env_ok_def md5_fresh_def)
  ultimately have 1: "fst (md5_local env (env_md5 env) [CodecPadPassword [] 0]) = md5 padding"
    "md5_fresh (snd (md5_local env (env_md5 env) [CodecPadPassword [] 0]))"
    using md5_local_md5 [OF f, of "[padding]" env] by (simp_all add: padding_def)
  obtain d ctx where dc: "md5_50 env (md5_local env (env_md5 env) [CodecPadPassword [] 0]) = (d, ctx)" by fastforce
  have d: "d = (md5 ^^ 51) padding" and c: "md5_fresh ctx"
    using md5_50_md5 [OF 1(2), of env] dc 1(1) by (simp_all add: md5_51)
  obtain o' where o': "o' = rc4_20 d ?u" by simp
  have "length o' = 32" unfolding o' by (rule length_rc4_20) (rule length_pad)
  then have 2: "fst (md5_local env ctx [?u, o']) = md5 (?u @ o')" "md5_fresh (snd (md5_local env ctx [?u, o']))"
    using md5_local_md5 [OF c, of "[?u, o']" env] by (simp_all add: length_pad)
  have k: "fst (md5_50 env (md5_local env ctx [?u, o'])) = (md5 ^^ 51) (?u @ o')"
    using md5_50_md5(1) [OF 2(2), of env] 2(1) by (simp add: md5_51)
  have "length ((md5 ^^ 51) x) = 16" for x by (rule length_funpow) simp_all
  with k show ?thesis
    unfolding AES128 CodecGenerateEncryptionKey_def key_ref_def Let_def codec_type.case dc prod.case
    by (simp add: o' d split_beta)
qed

section \<open>Every operation keeps the structure well formed and returns\<close>

definition codec_wf :: "codec_type \<Rightarrow> Codec \<Rightarrow> bool" where
  "codec_wf ct c \<longleftrightarrow> rijndael_dims (m_aes c) \<and> length (m_readKey c) = KEYLENGTH ct \<and> length (m_writeKey c) = KEYLENGTH ct"

lemma cbc_dec_blocks16:
  assumes "\<And>b. length b = 16 \<Longrightarrow> length (f b) = 16"
  shows "length v = 16 \<Longrightarrow> blocks16 bs \<Longrightarrow> blocks16 (cbc_dec f v bs)"
  using assms by (induction bs arbitrary: v) auto

text \<open>The plain text of a region, whatever its octets are.\<close>

definition region_dec :: "Rijndael \<Rightarrow> bytes \<Rightarrow> bytes" where
  "region_dec d b = concat (cbc_dec (RijndaelDecrypt d) (m_initVector d) (blocks 16 b)) @ rest 16 b"

lemma region_decrypt_form:
  assumes p: "sessions_paired e d" and "dec_session Mode_CBC d" and "16 \<le> len" and x: "x + len \<le> length mem"
  shows "snd (RijndaelBlockDecrypt d mem (Some x) (8 * int len) x) = wr mem x (region_dec d (rd mem x len))"
    and "length (region_dec d (rd mem x len)) = len"
proof -
  let ?bs = "cbc_dec (RijndaelDecrypt d) (m_initVector d) (mem_blocks mem x (len div 16))"
  have sum: "16 * (len div 16) + len mod 16 = len" by simp
  have iv: "length (m_initVector d) = 16" using assms(2) by (simp add: dec_session_def)
  have xl: "x + 16 * (len div 16) \<le> length mem" using x sum by linarith
  have "CBC_dec_loop (RijndaelDecrypt d) (m_initVector d) (len div 16) x x mem = wr mem x (concat ?bs)"
    by (rule CBC_dec_loop_blocks) (use rij.length_dec [OF p] iv xl in \<open>auto simp: safe_regions_def\<close>)
  moreover have l: "length (concat ?bs) = 16 * (len div 16)"
    using cbc_dec_blocks16 [OF rij.length_dec [OF p] iv blocks16_mem_blocks [OF xl]] by simp
  moreover have f: "region_dec d (rd mem x len) = concat ?bs @ rd mem (x + 16 * (len div 16)) (len mod 16)"
    by (simp only: region_dec_def rest_rd [OF x] mem_blocks_blocks [OF x])
  ultimately show "snd (RijndaelBlockDecrypt d mem (Some x) (8 * int len) x) = wr mem x (region_dec d (rd mem x len))"
    using wr_keep [of x "concat ?bs" "len mod 16" mem] x sum BlockDecrypt_CBC [OF p assms(2,3), of mem x]
    by simp
  show "length (region_dec d (rd mem x len)) = len" unfolding f using l x sum by (simp add: dim_simps)
qed

lemma CodecAES_total:
  assumes e: "env_ok env" and c: "rijndael_dims (m_aes c)" and len: "16 \<le> len" "x + len \<le> length mem"
  shows "\<exists>r b. CodecAES env ct c page encrypt key mem x (int len) x = Some (c\<lparr>m_aes := r\<rparr>, wr mem x b) \<and>
    length b = len \<and> rijndael_dims r"
proof -
  let ?k = "pagekey env ct key page" and ?iv = "CodecGenerateInitialVector env page" and ?kl = "aes_keylen ct"
  have l: "length ?iv = 16" "key_len ?kl \<le> length ?k" using e by (simp_all add: length_iv length_pagekey)
  have sup: "supported Mode_CBC Direction_Encrypt ?kl" "supported Mode_CBC Direction_Decrypt ?kl"
    by (simp_all add: supported_def split: codec_type.split)
  obtain s d where s: "RijndaelInit (m_aes c) Mode_CBC Direction_Encrypt (Some ?k) ?kl (Some ?iv) = Some (RIJNDAEL_SUCCESS, s)"
    and d: "RijndaelInit (m_aes c) Mode_CBC Direction_Decrypt (Some ?k) ?kl (Some ?iv) = Some (RIJNDAEL_SUCCESS, d)"
    and p: "sessions_paired s d" and dims: "rijndael_dims s" "rijndael_dims d"
    and es: "enc_session Mode_CBC s" and ds: "dec_session Mode_CBC d"
    using RijndaelInit_paired [OF c c l(1) l(1) sup l(2)] l(1) by (auto simp: enc_session_def dec_session_def)
  show ?thesis
  proof (cases "encrypt \<noteq> 0")
    case True
    have "length (region_enc s (rd mem x len)) = len"
      using length_region_enc [OF p] len(2) by (simp add: dim_simps)
    with True region_encrypt [OF p es len] s dims(1) show ?thesis
      by (auto simp: CodecAES_def mult.commute)
  next
    case False
    from region_decrypt_form [OF p ds len] False d dims(2) show ?thesis
      by (auto simp: CodecAES_def mult.commute split_beta)
  qed
qed

text \<open>Encryption and decryption of a page change nothing outside the page and nothing of the structure
  but the cipher session.\<close>

definition same_outside :: "nat \<Rightarrow> nat \<Rightarrow> 'a list \<Rightarrow> 'a list \<Rightarrow> bool" where
  "same_outside p n m m' \<longleftrightarrow>
     length m' = length m \<and> take p m' = take p m \<and> drop (p + n) m' = drop (p + n) m"

lemma same_outside_refl [simp]: "same_outside p n m m"
  by (simp add: same_outside_def)

lemma same_outside_length: "same_outside p n m m' \<Longrightarrow> length m' = length m"
  by (simp add: same_outside_def)

lemma same_outside_wr:
  assumes "same_outside p n m m'" and "p \<le> x" "x + length b \<le> p + n" "p + n \<le> length m"
  shows "same_outside p n m (wr m' x b)"
proof -
  have x: "x + length b \<le> length m'" "x \<le> length m'" using assms by (auto simp: same_outside_def)
  then have "length (wr m' x b) = length m'" by (simp add: dim_simps)
  with take_wr [OF assms(2) x(2)] drop_wr [OF assms(3) x(1)] assms(1) show ?thesis
    by (simp add: same_outside_def)
qed

lemma CodecEncrypt_total:
  assumes e: "env_ok env" and c: "rijndael_dims (m_aes c)" and len: "32 \<le> len" "data + len \<le> length mem"
  shows "\<exists>r mem'. CodecEncrypt env ct c page mem data (int len) w = Some (c\<lparr>m_aes := r\<rparr>, mem') \<and>
    rijndael_dims r \<and> same_outside data len mem mem'"
proof (cases "page = 1")
  case False
  from CodecAES_total [OF e c _ len(2), of ct page 1 "use_key c w"] len(1) obtain r b where
    "CodecAES env ct c page 1 (use_key c w) mem data (int len) data = Some (c\<lparr>m_aes := r\<rparr>, wr mem data b)"
    "length b = len" "rijndael_dims r" by auto
  with False len(2) show ?thesis
    by (auto simp: CodecEncrypt_def intro!: same_outside_wr)
next
  case True
  let ?k = "use_key c w" and ?n = "len - 16"
  have n: "16 \<le> ?n" "int len - 16 = int ?n" "data + 16 + ?n = data + len" using len by simp_all
  have "data + 16 \<le> length mem" using len by linarith
  from CodecAES_total [OF e c _ this, of ct page 1 ?k] obtain r b where
    1: "CodecAES env ct c page 1 ?k mem data 16 data = Some (c\<lparr>m_aes := r\<rparr>, wr mem data b)"
    "length b = 16" "rijndael_dims r" by auto
  define m1 where "m1 = wr mem data b"
  have m1: "same_outside data len mem m1" unfolding m1_def using 1(2) len by (intro same_outside_wr) auto
  have "rijndael_dims (m_aes (c\<lparr>m_aes := r\<rparr>))" using 1(3) by simp
  from CodecAES_total [OF e this n(1), of "data + 16" m1 ct page 1 ?k] obtain s b2 where
    2: "CodecAES env ct (c\<lparr>m_aes := r\<rparr>) page 1 ?k m1 (data + 16) (int len - 16) (data + 16) =
        Some ((c\<lparr>m_aes := r\<rparr>)\<lparr>m_aes := s\<rparr>, wr m1 (data + 16) b2)"
    "length b2 = ?n" "rijndael_dims s"
    unfolding n(2) n(3) same_outside_length [OF m1] using len(2) by blast
  define m2 where "m2 = wr m1 (data + 16) b2"
  have m2: "same_outside data len mem m2" unfolding m2_def using 2(2) len m1 by (intro same_outside_wr) auto
  have l: "length (rd m2 (data + 16) 8) = 8" "length (rd mem (data + 16) 8) = 8"
    using same_outside_length [OF m2] len by (simp_all add: dim_simps)
  define m3 where "m3 = wr m2 (data + 8) (rd m2 (data + 16) 8)"
  have m3: "same_outside data len mem m3" unfolding m3_def using l len m2 by (intro same_outside_wr) auto
  have "CodecEncrypt env ct c page mem data (int len) w =
      Some (c\<lparr>m_aes := s\<rparr>, wr m3 (data + 16) (rd mem (data + 16) 8))"
    using 1(1) 2(1) True by (simp add: CodecEncrypt_def m1_def m2_def m3_def)
  moreover have "same_outside data len mem (wr m3 (data + 16) (rd mem (data + 16) 8))"
    using l len m3 by (intro same_outside_wr) auto
  ultimately show ?thesis using 2(3) by blast
qed

lemma CodecDecrypt_total:
  assumes e: "env_ok env" and c: "rijndael_dims (m_aes c)" and len: "32 \<le> len" "data + len \<le> length mem"
  shows "\<exists>r mem'. CodecDecrypt env ct c page mem data (int len) = Some (c\<lparr>m_aes := r\<rparr>, mem') \<and>
    rijndael_dims r \<and> same_outside data len mem mem' \<and>
    (page = 1 \<and> header_plausible (rd mem (data + 16) 8) \<longrightarrow>
      rd mem' data 16 = (if rd mem' (data + 16) 8 = rd mem (data + 16) 8 then SQLITE_FILE_HEADER else rd mem data 16))"
proof (cases "page = 1 \<and> header_plausible (rd mem (data + 16) 8)")
  case False
  from CodecAES_total [OF e c _ len(2), of ct page 0 "m_readKey c"] len(1) obtain r b where
    "CodecAES env ct c page 0 (m_readKey c) mem data (int len) data = Some (c\<lparr>m_aes := r\<rparr>, wr mem data b)"
    "length b = len" "rijndael_dims r" by auto
  moreover from this len(2) have "same_outside data len mem (wr mem data b)" by (intro same_outside_wr) auto
  ultimately show ?thesis using False
    by (intro exI [of _ r] exI [of _ "wr mem data b"]) (auto simp: CodecDecrypt_def)
next
  case True
  let ?n = "len - 16" and ?h = "rd mem (data + 16) 8"
  have n: "16 \<le> ?n" "int len - int 16 = int ?n" "data + 16 + ?n = data + len" using len by simp_all
  have l: "length ?h = 8" "length (rd mem (data + 8) 8) = 8" using len by (simp_all add: dim_simps)
  define m1 where "m1 = wr mem (data + 16) (rd mem (data + 8) 8)"
  have m1: "same_outside data len mem m1" unfolding m1_def using l len by (intro same_outside_wr) auto
  from CodecAES_total [OF e c n(1), of "data + 16" m1 ct 1 0 "m_readKey c"] obtain s b2 where
    2: "CodecAES env ct c 1 0 (m_readKey c) m1 (data + 16) (int len - int 16) (data + 16) =
        Some (c\<lparr>m_aes := s\<rparr>, wr m1 (data + 16) b2)"
    "length b2 = ?n" "rijndael_dims s"
    unfolding n(2) n(3) same_outside_length [OF m1] using len(2) by blast
  define m2 where "m2 = wr m1 (data + 16) b2"
  have m2: "same_outside data len mem m2" unfolding m2_def using 2(2) len m1 by (intro same_outside_wr) auto
  define m3 where "m3 = (if rd m2 (data + 16) 8 = ?h then wr m2 data SQLITE_FILE_HEADER else m2)"
  have D: "CodecDecrypt env ct c page mem data (int len) = Some (c\<lparr>m_aes := s\<rparr>, m3)"
    using 2(1) True by (simp add: CodecDecrypt_def m1_def m2_def m3_def)
  have m3: "same_outside data len mem m3" unfolding m3_def using len m2 by (simp add: same_outside_wr)
  have "rd m2 data 16 = rd m1 data 16" unfolding m2_def
    using 2(2) len same_outside_length [OF m1] by (intro rd_wr_before) auto
  moreover have "rd m1 data 16 = rd mem data 16" unfolding m1_def using len l by (intro rd_wr_before) auto
  moreover have "rd (wr m2 data SQLITE_FILE_HEADER) (data + 16) 8 = rd m2 (data + 16) 8"
    "rd (wr m2 data SQLITE_FILE_HEADER) data 16 = SQLITE_FILE_HEADER"
    using len same_outside_length [OF m2] by (simp_all add: mem_simps)
  ultimately have "rd m3 data 16 = (if rd m3 (data + 16) 8 = ?h then SQLITE_FILE_HEADER else rd mem data 16)"
    unfolding m3_def by simp
  with D m3 2(3) show ?thesis by blast
qed

section \<open>Decryption depends on the page alone\<close>

lemma CodecAES_decrypt_form:
  assumes e: "env_ok env" and c: "rijndael_dims (m_aes c)"
  shows "\<exists>d. rijndael_dims d \<and> (\<forall>len mem x. 16 \<le> len \<and> x + len \<le> length mem \<longrightarrow>
    CodecAES env ct c page 0 key mem x (int len) x = Some (c\<lparr>m_aes := d\<rparr>, wr mem x (region_dec d (rd mem x len))) \<and>
    length (region_dec d (rd mem x len)) = len)"
proof -
  let ?k = "pagekey env ct key page" and ?iv = "CodecGenerateInitialVector env page" and ?kl = "aes_keylen ct"
  have l: "length ?iv = 16" "key_len ?kl \<le> length ?k" using e by (simp_all add: length_iv length_pagekey)
  have sup: "supported Mode_CBC Direction_Encrypt ?kl" "supported Mode_CBC Direction_Decrypt ?kl"
    by (simp_all add: supported_def split: codec_type.split)
  obtain s d where d: "RijndaelInit (m_aes c) Mode_CBC Direction_Decrypt (Some ?k) ?kl (Some ?iv) = Some (RIJNDAEL_SUCCESS, d)"
    and p: "sessions_paired s d" and dims: "rijndael_dims d" and ds: "dec_session Mode_CBC d"
    using RijndaelInit_paired [OF c c l(1) l(1) sup l(2)] l(1) by (auto simp: enc_session_def dec_session_def)
  have "CodecAES env ct c page 0 key mem x (int len) x = Some (c\<lparr>m_aes := d\<rparr>, wr mem x (region_dec d (rd mem x len))) \<and>
    length (region_dec d (rd mem x len)) = len" if "16 \<le> len" "x + len \<le> length mem" for len mem x
    using region_decrypt_form [OF p ds that] d by (simp add: CodecAES_def mult.commute split_beta)
  with dims show ?thesis by blast
qed

lemma rd_inside: "i + n \<le> length b \<Longrightarrow> x + length b \<le> length mem \<Longrightarrow> rd (wr mem x b) (x + i) n = rd b i n"
  by (simp add: rd_def wr_def)

lemma wr_inside:
  "i + length c \<le> length b \<Longrightarrow> x + length b \<le> length mem \<Longrightarrow> wr (wr mem x b) (x + i) c = wr mem x (wr b i c)"
  by (simp add: wr_def)

abbreviation (input) at_offset :: "bytes \<Rightarrow> nat \<Rightarrow> (Codec \<times> bytes) option \<Rightarrow> (Codec \<times> bytes) option" where
  "at_offset mem x \<equiv> map_option (\<lambda>(c, b). (c, wr mem x b))"

lemma CodecAES_local:
  assumes "env_ok env" and "rijndael_dims (m_aes c)" and n: "16 \<le> n" "i + n \<le> length b" "x + length b \<le> length mem"
  shows "CodecAES env ct c page 0 key (wr mem x b) (x + i) (int n) (x + i) =
    at_offset mem x (CodecAES env ct c page 0 key b i (int n) i)"
proof -
  obtain d where d: "\<And>len mem x. 16 \<le> len \<Longrightarrow> x + len \<le> length mem \<Longrightarrow>
    CodecAES env ct c page 0 key mem x (int len) x = Some (c\<lparr>m_aes := d\<rparr>, wr mem x (region_dec d (rd mem x len))) \<and>
    length (region_dec d (rd mem x len)) = len"
    using CodecAES_decrypt_form [OF assms(1,2), of ct page key] by blast
  have "x + i + n \<le> length (wr mem x b)" using n by (simp add: dim_simps)
  from d [OF n(1) this] d [OF n(1,2)] n show ?thesis by (simp add: rd_inside wr_inside)
qed

lemma CodecDecrypt_local:
  assumes e: "env_ok env" "rijndael_dims (m_aes c)" and n: "32 \<le> length b" "x + length b \<le> length mem"
  shows "CodecDecrypt env ct c page (wr mem x b) x (int (length b)) =
    at_offset mem x (CodecDecrypt env ct c page b 0 (int (length b)))"
proof -
  let ?n = "length b" and ?h = "rd b 16 8"
  have r: "rd (wr mem x b) (x + 16) 8 = ?h" "rd (wr mem x b) (x + 8) 8 = rd b 8 8" using n by (simp_all add: rd_inside)
  show ?thesis
  proof (cases "page = 1 \<and> header_plausible ?h")
    case False
    from CodecAES_local [OF e _ _ n(2), of ?n 0 ct page "m_readKey c"] n(1) r False show ?thesis
      by (auto simp: CodecDecrypt_def bind_map_option comp_def option.map_comp split_beta map_option_case split: option.split)
  next
    case True
    let ?b1 = "wr b 16 (rd b 8 8)" and ?m = "?n - 16"
    have l: "length (rd b 8 8) = 8" "length ?b1 = ?n" using n by (simp_all add: dim_simps)
    have m: "int ?n - int 16 = int ?m" "16 \<le> ?m" "16 + ?m \<le> length ?b1" using n l by simp_all
    have w: "wr (wr mem x b) (x + 16) (rd b 8 8) = wr mem x ?b1" using n l by (intro wr_inside) auto
    obtain d where d: "CodecAES env ct c 1 0 (m_readKey c) ?b1 16 (int ?m) 16 = Some (c\<lparr>m_aes := d\<rparr>, wr ?b1 16 (region_dec d (rd ?b1 16 ?m)))"
      "length (region_dec d (rd ?b1 16 ?m)) = ?m"
      using CodecAES_decrypt_form [OF e, of ct 1 "m_readKey c"] m(2,3) by blast
    let ?b2 = "wr ?b1 16 (region_dec d (rd ?b1 16 ?m))"
    have l2: "length ?b2 = ?n" using d(2) l m by (simp add: dim_simps)
    have A: "CodecAES env ct c 1 0 (m_readKey c) (wr mem x ?b1) (x + 16) (int ?m) (x + 16) = Some (c\<lparr>m_aes := d\<rparr>, wr mem x ?b2)"
      using CodecAES_local [OF e m(2,3), of x mem ct 1 "m_readKey c"] l n(2) d(1) by simp
    have "rd (wr mem x ?b2) (x + 16) 8 = rd ?b2 16 8" "wr (wr mem x ?b2) (x + 0) SQLITE_FILE_HEADER = wr mem x (wr ?b2 0 SQLITE_FILE_HEADER)"
      using l2 n by (intro rd_inside wr_inside; simp)+
    moreover have "CodecDecrypt env ct c 1 (wr mem x b) x (int ?n) =
        Some (c\<lparr>m_aes := d\<rparr>, if rd (wr mem x ?b2) (x + 16) 8 = ?h then wr (wr mem x ?b2) x SQLITE_FILE_HEADER else wr mem x ?b2)"
      by (rule decrypt_page1 [OF r(1)]) (use True A in \<open>simp_all only: r(2) w m(1)\<close>)
    moreover have "CodecDecrypt env ct c 1 b 0 (int ?n) =
        Some (c\<lparr>m_aes := d\<rparr>, if rd ?b2 (0 + 16) 8 = ?h then wr ?b2 0 SQLITE_FILE_HEADER else ?b2)"
      by (rule decrypt_page1) (use True d(1) in \<open>simp_all only: m(1) add_0\<close>)
    ultimately show ?thesis using True by simp
  qed
qed

section \<open>Properties\<close>

definition blank_env :: env where
  "blank_env = \<lparr>env_le = True, env_psz = 8, env_md5 = md5_blank, env_sha = sha256_blank\<rparr>"

definition blank_codec :: "codec_type \<Rightarrow> Codec" where
  "blank_codec ct = \<lparr>m_isEncrypted = 1, m_hasReadKey = 1, m_readKey = replicate (KEYLENGTH ct) 5, m_hasWriteKey = 1,
     m_writeKey = replicate (KEYLENGTH ct) 5, m_aes = blank_session, m_bt = 0, m_page = []\<rparr>"

lemma blank_ok [simp]: "env_ok blank_env" "codec_wf ct (blank_codec ct)"
  by (simp_all add: env_ok_def blank_env_def md5_blank_def sha256_blank_def codec_wf_def blank_codec_def)

lemma blank_keys [simp]: "m_readKey (blank_codec ct) = m_writeKey (blank_codec ct)"
  by (simp add: blank_codec_def)

text \<open>C2: a page other than page 1 that \<open>CodecEncrypt\<close> encrypted in place is restored by \<open>CodecDecrypt\<close>, in
  the same structure or in another one whose read key is the key that was used, for both key lengths,
  every page number and every page length of at least one block; nothing outside the page changes.\<close>

theorem codec_page_roundtrip:
  assumes "env_ok env" and "codec_wf ct c" and "codec_wf ct c2" and "page \<noteq> 1" and "16 \<le> len"
    and "data + len \<le> length mem" and "m_readKey c2 = (if w \<noteq> 0 then m_writeKey c else m_readKey c)"
  shows "\<exists>c' mem1 c2'. CodecEncrypt env ct c page mem data (int len) w = Some (c', mem1) \<and>
    same_outside data len mem mem1 \<and> CodecDecrypt env ct c2 page mem1 data (int len) = Some (c2', mem)"
  using page_roundtrip [OF assms(1) _ _ assms(4-7)] assms(2,3)
  by (fastforce simp: codec_wf_def same_outside_def)

theorem codec_page_roundtrip_witness:
  "\<exists>c' mem1 c2'. CodecEncrypt blank_env AES256 (blank_codec AES256) 2 (replicate 1100 9) 60 (int 1024) 1 = Some (c', mem1) \<and>
    same_outside 60 1024 (replicate 1100 9) mem1 \<and>
    CodecDecrypt blank_env AES256 (blank_codec AES256) 2 mem1 60 (int 1024) = Some (c2', replicate 1100 9)"
  by (rule codec_page_roundtrip) simp_all

text \<open>C5: page 1 of a database, whose first sixteen octets are the file header and whose octets 16 to 23
  are plausible, is restored after encryption, and its octets 16 to 23 stay readable in the encrypted
  page, so that the page size can be read before the key is known.\<close>

theorem codec_page1_roundtrip:
  assumes "env_ok env" and "codec_wf ct c" and "codec_wf ct c2" and "32 \<le> len" and "data + len \<le> length mem"
    and "m_readKey c2 = (if w \<noteq> 0 then m_writeKey c else m_readKey c)"
    and "header_plausible (rd mem (data + 16) 8)" and "rd mem data 16 = SQLITE_FILE_HEADER"
  shows "\<exists>c' mem1 c2'. CodecEncrypt env ct c 1 mem data (int len) w = Some (c', mem1) \<and>
    rd mem1 (data + 16) 8 = rd mem (data + 16) 8 \<and> CodecDecrypt env ct c2 1 mem1 data (int len) = Some (c2', mem)"
  using page1_roundtrip [OF assms(1) _ _ assms(4-8)] assms(2,3)
  by (fastforce simp: codec_wf_def)

text \<open>A first page of 512 octets: header, page size 512, format versions, reserved octets, fractions.\<close>

definition sample_page1 :: bytes where
  "sample_page1 = SQLITE_FILE_HEADER @ [2, 0, 1, 1, 0, 64, 32, 32] @ replicate 488 0"

theorem codec_page1_roundtrip_witness:
  "\<exists>c' mem1 c2'. CodecEncrypt blank_env AES128 (blank_codec AES128) 1 sample_page1 0 (int 512) 1 = Some (c', mem1) \<and>
    rd mem1 (0 + 16) 8 = rd sample_page1 (0 + 16) 8 \<and>
    CodecDecrypt blank_env AES128 (blank_codec AES128) 1 mem1 0 (int 512) = Some (c2', sample_page1)"
proof -
  have "rd sample_page1 (0 + 16) 8 = [2, 0, 1, 1, 0, 64, 32, 32]"
    by (simp add: sample_page1_def rd_def)
  then have "header_plausible (rd sample_page1 (0 + 16) 8)"
    by (simp add: header_plausible_def SQLITE_MAX_PAGE_SIZE_def)
  then show ?thesis
    by (intro codec_page1_roundtrip) (simp_all add: sample_page1_def rd_def)
qed

text \<open>decryption always returns, and it announces a right key for page 1 only if the decrypted header
  agrees with the plain one: the file header is put back exactly then, and otherwise the first sixteen
  octets are left as they were read.\<close>

theorem codec_page1_magic:
  assumes "env_ok env" and "codec_wf ct c" and "32 \<le> len" and "data + len \<le> length mem"
    and "header_plausible (rd mem (data + 16) 8)"
  shows "\<exists>c' mem'. CodecDecrypt env ct c 1 mem data (int len) = Some (c', mem') \<and> same_outside data len mem mem' \<and>
    rd mem' data 16 = (if rd mem' (data + 16) 8 = rd mem (data + 16) 8 then SQLITE_FILE_HEADER else rd mem data 16)"
  using CodecDecrypt_total [OF assms(1) _ assms(3,4), of c ct 1] assms(2,5) unfolding codec_wf_def by blast

theorem codec_page1_magic_witness:
  "\<exists>c' mem'. CodecDecrypt blank_env AES128 (blank_codec AES128) 1 sample_page1 0 (int 512) = Some (c', mem') \<and>
    same_outside 0 512 sample_page1 mem' \<and> rd mem' 0 16 = SQLITE_FILE_HEADER"
proof -
  have h: "rd sample_page1 (0 + 16) 8 = [2, 0, 1, 1, 0, 64, 32, 32]" "rd sample_page1 0 16 = SQLITE_FILE_HEADER"
    by (simp_all add: sample_page1_def rd_def)
  then have "header_plausible (rd sample_page1 (0 + 16) 8)"
    by (simp add: header_plausible_def SQLITE_MAX_PAGE_SIZE_def)
  from codec_page1_magic [OF blank_ok(1) blank_ok(2) [of AES128] _ _ this, of 512] h(2)
  show ?thesis by (auto simp: sample_page1_def split: if_splits)
qed

lemma CodecPadPassword_take:
  "CodecPadPassword (take 32 pw) (int (min 32 (length pw))) = CodecPadPassword pw (int (length pw))"
  by (cases "32 < length pw") (simp_all add: CodecPadPassword_def min_def)

text \<open>C17: the key of a password is a function of its first 32 octets alone: it does not depend on the byte
  order, the pointer size or the content of the stack, it has exactly the length of the key arrays of
  the structure, and it is the iterated digest of the padded password (51 rounds of MD5 over the
  password and the RC4-encrypted owner key, or 4002 rounds of SHA-256).\<close>

theorem codec_key_reference:
  assumes "env_ok env"
  shows "CodecGenerateEncryptionKey env ct pw n = key_ref ct (CodecPadPassword pw n) \<and>
    length (CodecGenerateEncryptionKey env ct pw n) = KEYLENGTH ct \<and>
    CodecGenerateEncryptionKey env ct pw (int (length pw)) =
      CodecGenerateEncryptionKey env ct (take 32 pw) (int (min 32 (length pw)))"
  using GenerateEncryptionKey_ref [OF assms] length_key_ref CodecPadPassword_take [of pw] by simp

theorem codec_key_reference_witness:
  "length (CodecGenerateEncryptionKey blank_env AES128 [1, 2, 3] 3) = KEYLENGTH AES128"
  using codec_key_reference [OF blank_ok(1), of AES128 "[1, 2, 3]" 3] by blast

text \<open>the seed of the initial vector is computed without overflow: for every \<open>int\<close> that is not
  negative, the \<^verbatim>\<open>MODMULT\<close> step is multiplication by 40692 modulo 2147483399 and both of its
  intermediate values fit an \<open>int\<close> of 32 bits.\<close>

theorem modmult_no_overflow:
  assumes "0 \<le> s" and "s < 2 ^ 31"
  shows "MODMULT 52774 40692 3791 2147483399 s = 40692 * s mod 2147483399 \<and>
    \<bar>40692 * (s - 52774 * (s sdiv 52774))\<bar> < 2 ^ 31 \<and>
    \<bar>40692 * (s - 52774 * (s sdiv 52774)) - 3791 * (s sdiv 52774)\<bar> < 2 ^ 31"
  using MODMULT_schrage [OF assms] by blast

theorem modmult_no_overflow_witness: "MODMULT 52774 40692 3791 2147483399 2147483647 = 10091616"
  using modmult_no_overflow [of 2147483647] by simp

text \<open>pages are encrypted under inputs of their own: different page numbers give different preimages of
  the initial vector, and different page numbers or different codec keys give different preimages of
  the page key.\<close>

theorem codec_pages_distinct:
  assumes "0 \<le> p" "p < 2147483398" "0 \<le> q" "q < 2147483398" and "length k = KEYLENGTH ct" "length k' = KEYLENGTH ct"
  shows "(initkey p = initkey q \<longleftrightarrow> p = q) \<and> (nkey ct k p = nkey ct k' q \<longleftrightarrow> k = k' \<and> p = q)"
proof -
  have "k = k' \<and> p = q" if "nkey ct k p = nkey ct k' q"
    using nkey_inject [OF that assms(5,6)] assms(1-4) by simp
  then show ?thesis using initkey_inject [OF _ assms(1-4)] by blast
qed

theorem codec_pages_distinct_witness: "initkey 1 \<noteq> initkey 2"
  using codec_pages_distinct [of 1 2 "replicate 16 0" AES128 "replicate 16 0"] by (simp add: KEYLENGTH_def)

text \<open>C18: every operation on the structure keeps it well formed: the key arrays keep their length and the
  cipher session its dimensions.\<close>

theorem codec_operations_keep_wf:
  assumes "env_ok env" and "codec_wf ct c" and "codec_wf ct other" and "rijndael_dims aes" and "32 \<le> len"
    and "data + len \<le> length mem"
  shows "(\<exists>c'. CodecInit (Some aes) c = Some c' \<and> codec_wf ct c') \<and> codec_wf ct (CodecCopy c other) \<and>
    codec_wf ct (CodecCopyKey c dir) \<and> codec_wf ct (CodecGenerateReadKey env ct c pw n) \<and>
    codec_wf ct (CodecGenerateWriteKey env ct c pw n) \<and>
    (\<exists>c' mem'. CodecEncrypt env ct c page mem data (int len) w = Some (c', mem') \<and> codec_wf ct c' \<and> same_outside data len mem mem') \<and>
    (\<exists>c' mem'. CodecDecrypt env ct c page mem data (int len) = Some (c', mem') \<and> codec_wf ct c' \<and> same_outside data len mem mem')"
proof -
  have d: "rijndael_dims (m_aes c)" using assms(2) by (simp add: codec_wf_def)
  have "\<exists>c' mem'. CodecEncrypt env ct c page mem data (int len) w = Some (c', mem') \<and> codec_wf ct c' \<and> same_outside data len mem mem'"
    using CodecEncrypt_total [OF assms(1) d assms(5,6), of ct page w] assms(2) by (force simp: codec_wf_def)
  moreover have "\<exists>c' mem'. CodecDecrypt env ct c page mem data (int len) = Some (c', mem') \<and> codec_wf ct c' \<and> same_outside data len mem mem'"
    using CodecDecrypt_total [OF assms(1) d assms(5,6), of ct page] assms(2) by (force simp: codec_wf_def)
  moreover have "\<exists>c'. CodecInit (Some aes) c = Some c' \<and> codec_wf ct c'" "codec_wf ct (CodecCopy c other)"
    using assms(2-4)
    by (simp_all add: CodecInit_def CodecCopy_def codec_wf_def RijndaelCreate_def RijndaelInvalidate_def rijndael_dims_def)
  moreover have "codec_wf ct (CodecCopyKey c dir)" using assms(2) by (simp add: CodecCopyKey_def codec_wf_def)
  moreover have "codec_wf ct (CodecGenerateReadKey env ct c pw n)" "codec_wf ct (CodecGenerateWriteKey env ct c pw n)"
    using assms(2) GenerateEncryptionKey_ref [OF assms(1)] length_key_ref
    by (simp_all add: CodecGenerateReadKey_def CodecGenerateWriteKey_def codec_wf_def)
  ultimately show ?thesis by blast
qed

theorem codec_operations_keep_wf_witness:
  "codec_wf AES128 (CodecGenerateReadKey blank_env AES128 (blank_codec AES128) [1] 1)"
  using codec_operations_keep_wf [OF blank_ok(1) blank_ok(2) blank_ok(2) blank_session_dims,
      where len = 512 and data = 0 and mem = "replicate 512 0"] by simp

end
