(* ===== verification/CodecExt.thy ===== *)
theory CodecExt
  imports Codec
begin

text \<open>
  The interface between SQLite and the codec, \<^verbatim>\<open>codecext.c\<close>: the page hook \<^verbatim>\<open>sqlite3Codec\<close>
  that the pager calls for every page it reads, journals or writes, and the operations that attach a
  key, replace it or remove it. The \<^verbatim>\<open>Codec\<close> objects live on a heap, a pager holds the address
  of its codec or none, and the outcome of every call into the B-tree and pager layers is an argument.
  The value \<open>None\<close> stands for undefined behaviour: a null dereference, an access to an object that is
  not allocated (any more), an index outside \<^verbatim>\<open>aDb\<close>.
\<close>

section \<open>The page hook\<close>

text \<open>Where the returned pointer leads: to the octets of the caller or to the buffer of the structure.\<close>

datatype hook_data = In_data | In_page_buffer

definition load_page ::
  "env \<Rightarrow> codec_type \<Rightarrow> Codec \<Rightarrow> nat \<Rightarrow> bytes \<Rightarrow> nat \<Rightarrow> int \<Rightarrow> (hook_data \<times> Codec \<times> bytes) option" where
  "load_page env ct codec pageSize mem data page =
     (if CodecHasReadKey codec \<noteq> 0
      then do { (codec', mem') \<leftarrow> CodecDecrypt env ct codec page mem data (int pageSize); Some (In_data, codec', mem') }
      else Some (In_data, codec, mem))"

definition buffer_page ::
  "env \<Rightarrow> codec_type \<Rightarrow> Codec \<Rightarrow> nat \<Rightarrow> bytes \<Rightarrow> nat \<Rightarrow> int \<Rightarrow> int \<Rightarrow> (hook_data \<times> Codec \<times> bytes) option" where
  "buffer_page env ct codec pageSize mem data page useWriteKey =
     (let buf = wr (m_page codec) CodecGetPageBuffer (rd mem data pageSize)
      in do {
           (codec', buf') \<leftarrow> CodecEncrypt env ct codec page buf CodecGetPageBuffer (int pageSize) useWriteKey;
           Some (In_page_buffer, codec'\<lparr>m_page := buf'\<rparr>, mem)
         })"

text \<open>\<open>pageSize\<close> is what \<^verbatim>\<open>sqlite3BtreeGetPageSize\<close> returns for the B-tree of the codec. The
  page number is unsigned and is passed on as an \<^verbatim>\<open>int\<close>.\<close>

definition sqlite3Codec ::
  "env \<Rightarrow> codec_type \<Rightarrow> Codec option \<Rightarrow> nat \<Rightarrow> bytes \<Rightarrow> nat \<Rightarrow> u32 \<Rightarrow> int \<Rightarrow> (hook_data \<times> Codec option \<times> bytes) option" where
  "sqlite3Codec env ct pCodecArg pageSize mem data nPageNum nMode =
     (case pCodecArg of
        None \<Rightarrow> Some (In_data, None, mem)
      | Some codec \<Rightarrow>
          if CodecIsEncrypted codec = 0 then Some (In_data, Some codec, mem)
          else do {
            (ret, codec', mem') \<leftarrow>
              (if nMode = 0 \<or> nMode = 2 \<or> nMode = 3 then load_page env ct codec pageSize mem data (sint nPageNum)
               else if nMode = 6 \<and> CodecHasWriteKey codec \<noteq> 0 then buffer_page env ct codec pageSize mem data (sint nPageNum) 1
               else if nMode = 7 \<and> CodecHasReadKey codec \<noteq> 0 then buffer_page env ct codec pageSize mem data (sint nPageNum) 0
               else Some (In_data, codec, mem));
            Some (ret, Some codec', mem')
          })"

section \<open>Connections\<close>

record Db =
  zDbSName :: string
  pBt :: nat

text \<open>\<open>pCodec\<close>: the codec of the pager of a B-tree. \<open>codecs\<close>: the live \<^verbatim>\<open>Codec\<close> objects.
  \<open>sessions\<close>: the number of live cipher sessions. \<open>mutex\<close>: how often the mutex of the connection is held.\<close>

record sqlite3 =
  aDb :: "Db list"
  pCodec :: "nat \<Rightarrow> nat option"
  codecs :: "nat \<Rightarrow> Codec option"
  sessions :: int
  mutex :: int

abbreviation (input) SQLITE_OK :: int where "SQLITE_OK \<equiv> 0"

definition upd_codec :: "sqlite3 \<Rightarrow> nat \<Rightarrow> (Codec \<Rightarrow> Codec) \<Rightarrow> sqlite3 option" where
  "upd_codec db a f = do { c \<leftarrow> codecs db a; Some (db\<lparr>codecs := (codecs db)(a := Some (f c))\<rparr>) }"

text \<open>\<open>sqlite3_malloc(sizeof(Codec))\<close> and \<open>CodecInit\<close>: the two allocations give an address with what
  its memory holds, and a cipher session, or null.\<close>

definition new_codec :: "(nat \<times> Codec) option \<Rightarrow> Rijndael option \<Rightarrow> sqlite3 \<Rightarrow> (nat \<times> sqlite3) option" where
  "new_codec block aes db =
     do {
       (a, c) \<leftarrow> block;
       c' \<leftarrow> CodecInit aes c;
       Some (a, db\<lparr>codecs := (codecs db)(a := Some c'), sessions := sessions db + 1\<rparr>)
     }"

text \<open>\<open>CodecTerm\<close> frees the cipher session of a structure.\<close>

definition CodecTerm :: "sqlite3 \<Rightarrow> nat \<Rightarrow> sqlite3 option" where
  "CodecTerm db a = do { c \<leftarrow> codecs db a; Some (db\<lparr>sessions := sessions db - 1\<rparr>) }"

definition sqlite3_free :: "sqlite3 \<Rightarrow> nat \<Rightarrow> sqlite3 option" where
  "sqlite3_free db a = do { c \<leftarrow> codecs db a; Some (db\<lparr>codecs := (codecs db)(a := None)\<rparr>) }"

definition sqlite3CodecFree :: "sqlite3 \<Rightarrow> nat option \<Rightarrow> sqlite3 option" where
  "sqlite3CodecFree db pCodecArg =
     (case pCodecArg of None \<Rightarrow> Some db
      | Some a \<Rightarrow> do { db1 \<leftarrow> CodecTerm db a; sqlite3_free db1 a })"

text \<open>The destructor of a pager is set together with its codec, so that it is called when there is one.\<close>

definition sqlite3PagerSetCodec :: "sqlite3 \<Rightarrow> nat \<Rightarrow> nat option \<Rightarrow> sqlite3 option" where
  "sqlite3PagerSetCodec db bt codec =
     do {
       db1 \<leftarrow> sqlite3CodecFree db (pCodec db bt);
       Some (db1\<lparr>pCodec := (pCodec db1)(bt := codec)\<rparr>)
     }"

definition mySqlite3PagerGetCodec :: "sqlite3 \<Rightarrow> nat \<Rightarrow> nat option" where
  "mySqlite3PagerGetCodec db bt = pCodec db bt"

definition db_at :: "sqlite3 \<Rightarrow> nat \<Rightarrow> Db option" where
  "db_at db n = (if n < length (aDb db) then Some (aDb db ! n) else None)"

text \<open>\<open>codec != NULL && CodecIsEncrypted(codec)\<close>.\<close>

definition is_encrypted :: "sqlite3 \<Rightarrow> nat option \<Rightarrow> bool option" where
  "is_encrypted db codec =
     (case codec of None \<Rightarrow> Some False | Some a \<Rightarrow> do { c \<leftarrow> codecs db a; Some (CodecIsEncrypted c \<noteq> 0) })"

section \<open>Attaching a key\<close>

definition sqlite3CodecAttach ::
  "env \<Rightarrow> codec_type \<Rightarrow> (nat \<times> Codec) option \<Rightarrow> Rijndael option \<Rightarrow> sqlite3 \<Rightarrow> nat \<Rightarrow> bytes option \<Rightarrow> int \<Rightarrow> (int \<times> sqlite3) option" where
  "sqlite3CodecAttach env ct block aes db nDb zKey nKey =
     do {
       (a, db0) \<leftarrow> new_codec block aes db;
       let db1 = db0\<lparr>mutex := mutex db0 + 1\<rparr>;
       db2 \<leftarrow>
         (if zKey = None \<or> nKey \<le> 0
          then if nDb \<noteq> 0 \<and> nKey > 0
               then do {
                 d0 \<leftarrow> db_at db1 0;
                 let mainCodec = mySqlite3PagerGetCodec db1 (pBt d0);
                 enc \<leftarrow> is_encrypted db1 mainCodec;
                 if enc
                 then do {
                   other \<leftarrow> codecs db1 (the mainCodec);
                   d \<leftarrow> db_at db1 nDb;
                   dbx \<leftarrow> upd_codec db1 a (\<lambda>c. CodecSetBtree (CodecCopy c other) (pBt d));
                   sqlite3PagerSetCodec dbx (pBt d) (Some a)
                 }
                 else do {
                   dbx \<leftarrow> upd_codec db1 a (\<lambda>c. CodecSetIsEncrypted c 0);
                   sqlite3_free dbx a
                 }
               }
               else Some db1
          else do {
            d \<leftarrow> db_at db1 nDb;
            dbx \<leftarrow> upd_codec db1 a
              (\<lambda>c. CodecSetBtree
                 (CodecCopyKey
                   (CodecGenerateReadKey env ct (CodecSetHasWriteKey (CodecSetHasReadKey (CodecSetIsEncrypted c 1) 1) 1)
                      (the zKey) nKey) 1) (pBt d));
            sqlite3PagerSetCodec dbx (pBt d) (Some a)
          });
       Some (SQLITE_OK, db2\<lparr>mutex := mutex db2 - 1\<rparr>)
     }"

definition sqlite3CodecGetKey :: "sqlite3 \<Rightarrow> nat \<Rightarrow> (bytes option \<times> int) option" where
  "sqlite3CodecGetKey db nDb =
     do {
       d0 \<leftarrow> db_at db 0;
       enc \<leftarrow> is_encrypted db (mySqlite3PagerGetCodec db (pBt d0));
       Some (None, if enc then 1 else 0)
     }"

text \<open>The loop of \<open>dbFindIndex\<close> from \<open>index\<close> on.\<close>

fun dbFind_loop :: "Db list \<Rightarrow> string \<Rightarrow> nat \<Rightarrow> nat option" where
  "dbFind_loop [] zDb index = None"
| "dbFind_loop (d # ds) zDb index = (if zDbSName d = zDb then Some index else dbFind_loop ds zDb (index + 1))"

definition dbFindIndex :: "sqlite3 \<Rightarrow> string option \<Rightarrow> nat" where
  "dbFindIndex db zDb =
     (case zDb of None \<Rightarrow> 0
      | Some name \<Rightarrow> (case dbFind_loop (aDb db) name 0 of None \<Rightarrow> 0 | Some i \<Rightarrow> i))"

definition sqlite3_key_v2 ::
  "env \<Rightarrow> codec_type \<Rightarrow> (nat \<times> Codec) option \<Rightarrow> Rijndael option \<Rightarrow> sqlite3 \<Rightarrow> string option \<Rightarrow> bytes option \<Rightarrow> int \<Rightarrow> (int \<times> sqlite3) option" where
  "sqlite3_key_v2 env ct block aes db zDbName zKey nKey =
     sqlite3CodecAttach env ct block aes db (dbFindIndex db zDbName) zKey nKey"

definition sqlite3_key ::
  "env \<Rightarrow> codec_type \<Rightarrow> (nat \<times> Codec) option \<Rightarrow> Rijndael option \<Rightarrow> sqlite3 \<Rightarrow> bytes option \<Rightarrow> int \<Rightarrow> (int \<times> sqlite3) option" where
  "sqlite3_key env ct block aes db zKey nKey = sqlite3_key_v2 env ct block aes db (Some ''main'') zKey nKey"

section \<open>Changing a key\<close>

definition WX_PAGER_MJ_PGNO :: "nat \<Rightarrow> nat" where
  "WX_PAGER_MJ_PGNO pageSize = 0x40000000 div pageSize + 1"

text \<open>What the B-tree and pager layers answer during a rekey, and what the page hook, which they call
  back, leaves in the cipher session and the page buffer of the codec.\<close>

record pager_calls =
  begin_rc :: int
  pageSize :: nat
  pagecount :: nat
  get_rc :: "nat \<Rightarrow> int"
  write_rc :: "nat \<Rightarrow> int"
  commit_rc :: int
  left_aes :: Rijndael
  left_page :: bytes

text \<open>The loop over the pages from \<open>n\<close> on: the last return code and the pages handed to
  \<^verbatim>\<open>sqlite3PagerWrite\<close>.\<close>

function rekey_pages :: "pager_calls \<Rightarrow> int \<Rightarrow> nat \<Rightarrow> int \<times> nat list" where
  "rekey_pages p rc n =
     (if rc = SQLITE_OK \<and> n \<le> pagecount p
      then if n = WX_PAGER_MJ_PGNO (pageSize p) then rekey_pages p rc (n + 1)
           else if get_rc p n \<noteq> 0 then rekey_pages p (get_rc p n) (n + 1)
           else (let (rc', ws) = rekey_pages p (write_rc p n) (n + 1) in (rc', n # ws))
      else (rc, []))"
  by pat_completeness auto
termination by (relation "measure (\<lambda>(p, rc, n). Suc (pagecount p) - n)") auto

definition rekey_run :: "pager_calls \<Rightarrow> int \<times> nat list" where
  "rekey_run p =
     (let (rc, ws) = (if begin_rc p = 0 then rekey_pages p (begin_rc p) 1 else (begin_rc p, []));
          rc' = (if rc = SQLITE_OK then commit_rc p else rc)
      in (rc', ws))"

text \<open>The part before the transaction: the codec of the database, with its new keys.\<close>

definition rekey_begin ::
  "env \<Rightarrow> codec_type \<Rightarrow> (nat \<times> Codec) option \<Rightarrow> Rijndael option \<Rightarrow> sqlite3 \<Rightarrow> nat \<Rightarrow> nat option \<Rightarrow> bool \<Rightarrow>
   bytes option \<Rightarrow> int \<Rightarrow> (nat \<times> sqlite3) option" where
  "rekey_begin env ct block aes db bt codec enc zKey nKey =
     (if \<not> enc
      then do {
        (a, db1) \<leftarrow> (case codec of None \<Rightarrow> new_codec block aes db | Some a \<Rightarrow> Some (a, db));
        db2 \<leftarrow> upd_codec db1 a
          (\<lambda>c. CodecSetBtree
             (CodecGenerateWriteKey env ct (CodecSetHasWriteKey (CodecSetHasReadKey (CodecSetIsEncrypted c 1) 0) 1)
                (the zKey) nKey) bt);
        db3 \<leftarrow> sqlite3PagerSetCodec db2 bt (Some a);
        Some (a, db3)
      }
      else do {
        a \<leftarrow> codec;
        db1 \<leftarrow> upd_codec db a
          (\<lambda>c. if zKey = None \<or> nKey = 0 then CodecSetHasWriteKey c 0
               else CodecSetHasWriteKey (CodecGenerateWriteKey env ct c (the zKey) nKey) 1);
        Some (a, db1)
      })"

text \<open>The part after it.\<close>

definition rekey_keys :: "int \<Rightarrow> Codec \<Rightarrow> Codec" where
  "rekey_keys rc codec =
     (if rc = SQLITE_OK
      then if CodecHasWriteKey codec \<noteq> 0 then CodecSetHasReadKey (CodecCopyKey codec 0) 1
           else CodecSetIsEncrypted codec 0
      else if CodecHasReadKey codec \<noteq> 0 then CodecCopyKey codec 1
           else CodecSetIsEncrypted codec 0)"

definition rekey_end :: "int \<Rightarrow> sqlite3 \<Rightarrow> nat \<Rightarrow> nat \<Rightarrow> sqlite3 option" where
  "rekey_end rc db bt a =
     do {
       db1 \<leftarrow> upd_codec db a (rekey_keys rc);
       c \<leftarrow> codecs db1 a;
       if CodecIsEncrypted c = 0 then sqlite3PagerSetCodec db1 bt None else Some db1
     }"

definition sqlite3_rekey_v2 ::
  "env \<Rightarrow> codec_type \<Rightarrow> (nat \<times> Codec) option \<Rightarrow> Rijndael option \<Rightarrow> pager_calls \<Rightarrow> sqlite3 \<Rightarrow> string option \<Rightarrow>
   bytes option \<Rightarrow> int \<Rightarrow> (int \<times> sqlite3) option" where
  "sqlite3_rekey_v2 env ct block aes p db zDbName zKey nKey =
     do {
       d \<leftarrow> db_at db (dbFindIndex db zDbName);
       let codec = mySqlite3PagerGetCodec db (pBt d);
       enc \<leftarrow> is_encrypted db codec;
       if (zKey = None \<or> nKey = 0) \<and> \<not> enc then Some (SQLITE_OK, db)
       else do {
         (a, db1) \<leftarrow> rekey_begin env ct block aes db (pBt d) codec enc zKey nKey;
         let db2 = db1\<lparr>mutex := mutex db1 + 1\<rparr>;
         let rc = fst (rekey_run p);
         db3 \<leftarrow> upd_codec db2 a (\<lambda>c. c\<lparr>m_aes := left_aes p, m_page := left_page p\<rparr>);
         let db4 = db3\<lparr>mutex := mutex db3 - 1\<rparr>;
         db5 \<leftarrow> rekey_end rc db4 (pBt d) a;
         Some (rc, db5)
       }
     }"

definition sqlite3_rekey ::
  "env \<Rightarrow> codec_type \<Rightarrow> (nat \<times> Codec) option \<Rightarrow> Rijndael option \<Rightarrow> pager_calls \<Rightarrow> sqlite3 \<Rightarrow> bytes option \<Rightarrow> int \<Rightarrow> (int \<times> sqlite3) option" where
  "sqlite3_rekey env ct block aes p db zKey nKey = sqlite3_rekey_v2 env ct block aes p db (Some ''main'') zKey nKey"

declare rekey_pages.simps [simp del]

section \<open>What the operations do to the keys of the databases\<close>

definition buffer_len :: nat where
  "buffer_len = 65536 + 24"

definition codec_ok :: "codec_type \<Rightarrow> Codec \<Rightarrow> bool" where
  "codec_ok ct c \<longleftrightarrow> codec_wf ct c \<and> length (m_page c) = buffer_len"

text \<open>Every codec that a pager holds is allocated, encrypts, has a read key, is well formed and belongs to
  the B-tree of that pager (so that no two pagers share one), and the mutex is free.\<close>

definition conn_ok :: "codec_type \<Rightarrow> sqlite3 \<Rightarrow> bool" where
  "conn_ok ct db \<longleftrightarrow> mutex db = 0 \<and> aDb db \<noteq> [] \<and>
     (\<forall>bt a. pCodec db bt = Some a \<longrightarrow>
       (\<exists>c. codecs db a = Some c \<and> m_isEncrypted c \<noteq> 0 \<and> m_hasReadKey c \<noteq> 0 \<and> m_bt c = bt \<and> codec_ok ct c))"

text \<open>The keys of a database: the one it is read with and the one it is written with, if any.\<close>

definition keys_of :: "sqlite3 \<Rightarrow> nat \<Rightarrow> (bytes \<times> bytes option) option" where
  "keys_of db bt =
     do {
       a \<leftarrow> pCodec db bt;
       c \<leftarrow> codecs db a;
       Some (m_readKey c, if m_hasWriteKey c \<noteq> 0 then Some (m_writeKey c) else None)
     }"

text \<open>The allocator returns memory that is not in use, or fails; what the page hook leaves has the right
  dimensions.\<close>

definition alloc_ok :: "codec_type \<Rightarrow> sqlite3 \<Rightarrow> (nat \<times> Codec) option \<Rightarrow> Rijndael option \<Rightarrow> bool" where
  "alloc_ok ct db block aes \<longleftrightarrow>
     (case (block, aes) of (Some (a, c), Some r) \<Rightarrow> codecs db a = None \<and> codec_ok ct c \<and> rijndael_dims r | _ \<Rightarrow> False)"

definition calls_ok :: "pager_calls \<Rightarrow> bool" where
  "calls_ok p \<longleftrightarrow> rijndael_dims (left_aes p) \<and> length (left_page p) = buffer_len"

abbreviation (input) bt_of :: "sqlite3 \<Rightarrow> string option \<Rightarrow> nat" where
  "bt_of db zDbName \<equiv> pBt (aDb db ! dbFindIndex db zDbName)"

lemma dbFind_loop_bound: "dbFind_loop ds zDb k = Some i \<Longrightarrow> k \<le> i \<and> i < k + length ds"
  by (induction ds arbitrary: k) (force split: if_splits)+

lemma dbFindIndex_bound: "aDb db \<noteq> [] \<Longrightarrow> dbFindIndex db zDb < length (aDb db)"
  using dbFind_loop_bound [of "aDb db" _ 0] by (auto simp: dbFindIndex_def split: option.split) 

lemma db_at_find: "aDb db \<noteq> [] \<Longrightarrow> db_at db (dbFindIndex db zDb) = Some (aDb db ! dbFindIndex db zDb)"
  by (simp add: db_at_def dbFindIndex_bound)

lemma conn_okD:
  assumes "conn_ok ct db" and "pCodec db bt = Some a"
  obtains c where "codecs db a = Some c" "m_isEncrypted c \<noteq> 0" "m_hasReadKey c \<noteq> 0" "m_bt c = bt" "codec_ok ct c"
  using assms unfolding conn_ok_def by blast

lemma conn_ok_other:
  "conn_ok ct db \<Longrightarrow> pCodec db bt = Some a \<Longrightarrow> pCodec db bt' = Some a \<Longrightarrow> bt' = bt"
  unfolding conn_ok_def by (metis option.inject)

lemma is_encrypted_attached:
  assumes "conn_ok ct db" shows "is_encrypted db (pCodec db bt) = Some (pCodec db bt \<noteq> None)"
proof (cases "pCodec db bt")
  case (Some a)
  from conn_okD [OF assms this] obtain c where "codecs db a = Some c" "m_isEncrypted c \<noteq> 0" by metis
  then show ?thesis by (simp add: Some is_encrypted_def CodecIsEncrypted_def)
qed (simp add: is_encrypted_def)

text \<open>Replacing one codec by another keeps the connection in order.\<close>

lemma conn_ok_attach:
  assumes "conn_ok ct db" and "codec_ok ct c" "m_isEncrypted c \<noteq> 0" "m_hasReadKey c \<noteq> 0" "m_bt c = bt"
    and "codecs db a = None \<or> pCodec db bt = Some a"
    and "cs = (\<lambda>x. if x = a then Some c else if Some x = pCodec db bt then None else codecs db x)"
    and "db' = db\<lparr>pCodec := (pCodec db)(bt := Some a), codecs := cs, sessions := n\<rparr>"
  shows "conn_ok ct db'" and "keys_of db' = (keys_of db)(bt := Some (m_readKey c, if m_hasWriteKey c \<noteq> 0 then Some (m_writeKey c) else None))"
proof -
  have other: "x \<noteq> a \<and> Some x \<noteq> pCodec db bt" if "pCodec db bt' = Some x" "bt' \<noteq> bt" for bt' x
    using that conn_ok_other [OF assms(1)] conn_okD [OF assms(1)] assms(6) by (metis option.distinct(1))
  show "conn_ok ct db'"
    using assms(1-5) other unfolding assms(7,8) conn_ok_def by (simp add: fun_upd_def)
  show "keys_of db' = (keys_of db)(bt := Some (m_readKey c, if m_hasWriteKey c \<noteq> 0 then Some (m_writeKey c) else None))"
  proof
    fix bt'
    show "keys_of db' bt' = ((keys_of db)(bt := Some (m_readKey c, if m_hasWriteKey c \<noteq> 0 then Some (m_writeKey c) else None))) bt'"
      using other [of bt'] unfolding assms(7,8) keys_of_def by (cases "pCodec db bt'") auto
  qed
qed

lemma conn_ok_detach:
  assumes "conn_ok ct db" and "\<And>x. Some x \<noteq> pCodec db bt \<Longrightarrow> codecs db x = None \<or> cs x = codecs db x"
    and "db' = db\<lparr>pCodec := (pCodec db)(bt := None), codecs := cs, sessions := n\<rparr>"
  shows "conn_ok ct db'" and "keys_of db' = (keys_of db)(bt := None)"
proof -
  have other: "cs x = codecs db x" if "pCodec db bt' = Some x" "bt' \<noteq> bt" for bt' x
    using that conn_ok_other [OF assms(1)] conn_okD [OF assms(1)] assms(2) by (metis option.distinct(1))
  show "conn_ok ct db'"
    using assms(1) other unfolding assms(3) conn_ok_def by (simp add: fun_upd_def)
  show "keys_of db' = (keys_of db)(bt := None)"
  proof
    fix bt' show "keys_of db' bt' = ((keys_of db)(bt := None)) bt'"
      using other [of bt'] unfolding assms(3) keys_of_def by (cases "pCodec db bt'") auto
  qed
qed

lemma codec_ok_keys [simp]:
  "codec_ok ct c \<Longrightarrow> codec_ok ct (CodecSetHasWriteKey c x)" "codec_ok ct c \<Longrightarrow> codec_ok ct (CodecSetHasReadKey c x)"
  "codec_ok ct c \<Longrightarrow> codec_ok ct (CodecSetIsEncrypted c x)" "codec_ok ct c \<Longrightarrow> codec_ok ct (CodecSetBtree c bt)"
  "codec_ok ct c \<Longrightarrow> codec_ok ct (CodecCopyKey c x)"
  "codec_ok ct c \<Longrightarrow> env_ok env \<Longrightarrow> codec_ok ct (CodecGenerateReadKey env ct c pw n)"
  "codec_ok ct c \<Longrightarrow> env_ok env \<Longrightarrow> codec_ok ct (CodecGenerateWriteKey env ct c pw n)"
  "codec_ok ct c \<Longrightarrow> calls_ok p \<Longrightarrow> codec_ok ct (c\<lparr>m_aes := left_aes p, m_page := left_page p\<rparr>)"
  "codec_ok ct c \<Longrightarrow> codec_ok ct other \<Longrightarrow> codec_ok ct (CodecCopy c other)"
  by (simp_all add: codec_ok_def codec_wf_def CodecSetHasWriteKey_def CodecSetHasReadKey_def CodecSetIsEncrypted_def
      CodecSetBtree_def CodecCopyKey_def CodecGenerateReadKey_def CodecGenerateWriteKey_def GenerateEncryptionKey_ref
      length_key_ref calls_ok_def CodecCopy_def RijndaelInvalidate_def rijndael_dims_def)

lemmas codec_defs = CodecSetHasWriteKey_def CodecSetHasReadKey_def CodecSetIsEncrypted_def CodecSetBtree_def
  CodecCopyKey_def CodecGenerateReadKey_def CodecGenerateWriteKey_def CodecHasReadKey_def CodecHasWriteKey_def
  CodecIsEncrypted_def CodecCopy_def

lemmas heap_defs = upd_codec_def sqlite3PagerSetCodec_def sqlite3CodecFree_def CodecTerm_def sqlite3_free_def

text \<open>The keys after a rekey: a success leaves the new key for reading and writing, or no codec when no key
  is given; a failure leaves the old read key.\<close>

definition rekeyed :: "bool \<Rightarrow> bytes option \<Rightarrow> (bytes \<times> bytes option) option \<Rightarrow> (bytes \<times> bytes option) option" where
  "rekeyed ok new old =
     (if ok then map_option (\<lambda>k. (k, Some k)) new
      else map_option (\<lambda>(r, w). (r, if new = None then None else Some r)) old)"

definition new_key :: "env \<Rightarrow> codec_type \<Rightarrow> bytes option \<Rightarrow> int \<Rightarrow> bytes option" where
  "new_key env ct zKey nKey =
     (if zKey = None \<or> nKey = 0 then None else Some (CodecGenerateEncryptionKey env ct (the zKey) nKey))"

lemma rekey_effect_plain:
  assumes ok: "conn_ok ct db" "env_ok env" "alloc_ok ct db block aes" "calls_ok p"
    and key: "\<not> (zKey = None \<or> nKey = 0)" and none: "pCodec db (bt_of db zDbName) = None"
  shows "\<exists>db'. sqlite3_rekey_v2 env ct block aes p db zDbName zKey nKey = Some (fst (rekey_run p), db') \<and>
    conn_ok ct db' \<and> aDb db' = aDb db \<and>
    keys_of db' = (keys_of db)(bt_of db zDbName := rekeyed (fst (rekey_run p) = 0) (new_key env ct zKey nKey) None)"
proof -
  let ?bt = "bt_of db zDbName" and ?rc = "fst (rekey_run p)"
  from key obtain k where k: "zKey = Some k" "nKey \<noteq> 0" by auto
  from ok(3) obtain a c r where al: "block = Some (a, c)" "aes = Some r" "codecs db a = None" "codec_ok ct c" "rijndael_dims r"
    by (auto simp: alloc_ok_def split: option.splits)
  let ?w = "CodecGenerateEncryptionKey env ct (the zKey) nKey"
  let ?c = "c\<lparr>m_isEncrypted := 1, m_hasReadKey := 1, m_hasWriteKey := 1, m_readKey := ?w, m_writeKey := ?w, m_bt := ?bt,
    m_aes := left_aes p, m_page := left_page p\<rparr>"
  have nn: "aDb db \<noteq> []" using ok(1) by (simp add: conn_ok_def)
  have w: "length ?w = KEYLENGTH ct" using ok(2) by (simp add: GenerateEncryptionKey_ref length_key_ref)
  have c: "codec_ok ct ?c" using al(4) ok(4) w by (simp add: codec_ok_def codec_wf_def calls_ok_def)
  show ?thesis
  proof (cases "?rc = 0")
    case True
    let ?cs = "\<lambda>x. if x = a then Some ?c else if Some x = pCodec db ?bt then None else codecs db x"
    let ?db = "db\<lparr>pCodec := (pCodec db)(?bt := Some a), codecs := ?cs, sessions := sessions db + 1\<rparr>"
    have eq: "?cs = (codecs db)(a := Some ?c)" using none by (auto simp: fun_eq_iff)
    have "sqlite3_rekey_v2 env ct block aes p db zDbName zKey nKey = Some (?rc, ?db)"
      unfolding eq using k none nn al True
      by (cases db, cases c) (simp add: sqlite3_rekey_v2_def db_at_find mySqlite3PagerGetCodec_def is_encrypted_def rekey_begin_def new_codec_def
          CodecInit_def heap_defs rekey_end_def rekey_keys_def codec_defs)
    moreover have "conn_ok ct ?db" "keys_of ?db = (keys_of db)(?bt := Some (?w, Some ?w))"
      using conn_ok_attach [OF ok(1) c _ _ _ _ refl refl, of ?bt a "sessions db + 1"] al(3) by simp_all
    ultimately show ?thesis using True key by (intro exI [of _ ?db]) (auto simp: rekeyed_def new_key_def)
  next
    case False
    let ?db = "db\<lparr>pCodec := (pCodec db)(?bt := None), codecs := codecs db, sessions := sessions db\<rparr>"
    have "sqlite3_rekey_v2 env ct block aes p db zDbName zKey nKey = Some (?rc, ?db)"
      using k none nn al False
      by (cases db, cases c) (simp add: sqlite3_rekey_v2_def db_at_find mySqlite3PagerGetCodec_def is_encrypted_def rekey_begin_def new_codec_def
          CodecInit_def heap_defs rekey_end_def rekey_keys_def codec_defs fun_upd_idem)
    moreover have "conn_ok ct ?db" "keys_of ?db = (keys_of db)(?bt := None)"
      using conn_ok_detach [OF ok(1) _ refl, of ?bt "codecs db" "sessions db"] by blast+
    ultimately show ?thesis using False by (simp add: rekeyed_def)
  qed
qed

lemma rekey_effect_encrypted:
  assumes ok: "conn_ok ct db" "env_ok env" "calls_ok p" and att: "pCodec db (bt_of db zDbName) = Some a"
  shows "\<exists>db'. sqlite3_rekey_v2 env ct block aes p db zDbName zKey nKey = Some (fst (rekey_run p), db') \<and>
    conn_ok ct db' \<and> aDb db' = aDb db \<and>
    keys_of db' = (keys_of db)(bt_of db zDbName :=
      rekeyed (fst (rekey_run p) = 0) (new_key env ct zKey nKey) (keys_of db (bt_of db zDbName)))"
proof -
  let ?bt = "bt_of db zDbName" and ?rc = "fst (rekey_run p)"
  from conn_okD [OF ok(1) att] obtain c where c: "codecs db a = Some c" "m_isEncrypted c \<noteq> 0" "m_hasReadKey c \<noteq> 0"
    "m_bt c = ?bt" "codec_ok ct c" by metis
  have nn: "aDb db \<noteq> []" using ok(1) by (simp add: conn_ok_def)
  let ?c1 = "if zKey = None \<or> nKey = 0 then CodecSetHasWriteKey c 0
             else CodecSetHasWriteKey (CodecGenerateWriteKey env ct c (the zKey) nKey) 1"
  let ?c2 = "rekey_keys ?rc (?c1\<lparr>m_aes := left_aes p, m_page := left_page p\<rparr>)"
  let ?cs = "\<lambda>x. if x = a then Some ?c2 else if Some x = pCodec db ?bt then None else codecs db x"
  have c2: "codec_ok ct ?c2" using c(5) ok(2,3) by (simp add: rekey_keys_def)
  have run: "sqlite3_rekey_v2 env ct block aes p db zDbName zKey nKey =
      map_option (\<lambda>db. (?rc, db)) (rekey_end ?rc (db\<lparr>codecs := (codecs db)(a := Some (?c1\<lparr>m_aes := left_aes p, m_page := left_page p\<rparr>))\<rparr>) ?bt a)"
    using c nn att
    by (simp add: sqlite3_rekey_v2_def db_at_find mySqlite3PagerGetCodec_def is_encrypted_def rekey_begin_def
        upd_codec_def CodecIsEncrypted_def map_option_case split: option.split)
  have ky: "keys_of db ?bt = Some (m_readKey c, if m_hasWriteKey c \<noteq> 0 then Some (m_writeKey c) else None)"
    using att c by (simp add: keys_of_def)
  show ?thesis
  proof (cases "m_isEncrypted ?c2 = 0")
    case True
    then have nk: "zKey = None \<or> nKey = 0" "?rc = 0" using c(2,3) by (auto simp: rekey_keys_def codec_defs split: if_splits)
    let ?db = "db\<lparr>pCodec := (pCodec db)(?bt := None), codecs := (codecs db)(a := None), sessions := sessions db - 1\<rparr>"
    have "sqlite3_rekey_v2 env ct block aes p db zDbName zKey nKey = Some (?rc, ?db)"
      unfolding run rekey_end_def using True att by (simp add: heap_defs CodecIsEncrypted_def)
    moreover have "conn_ok ct ?db" "keys_of ?db = (keys_of db)(?bt := None)"
      using conn_ok_detach [OF ok(1) _ refl, of ?bt "(codecs db)(a := None)" "sessions db - 1"] att by (auto)
    ultimately show ?thesis using nk by (simp add: rekeyed_def new_key_def)
  next
    case False
    let ?db = "db\<lparr>pCodec := (pCodec db)(?bt := Some a), codecs := ?cs, sessions := sessions db\<rparr>"
    have eq: "(codecs db)(a := Some ?c2) = ?cs" "(pCodec db)(?bt := Some a) = pCodec db" using att by (auto simp: fun_eq_iff)
    have "sqlite3_rekey_v2 env ct block aes p db zDbName zKey nKey = Some (?rc, ?db)"
      unfolding run rekey_end_def eq(1) [symmetric] eq(2) using False by (simp add: upd_codec_def CodecIsEncrypted_def)
    moreover have "m_hasReadKey ?c2 \<noteq> 0" "m_bt ?c2 = ?bt" using c(3,4) by (simp_all add: rekey_keys_def codec_defs)
    then have "conn_ok ct ?db"
      "keys_of ?db = (keys_of db)(?bt := Some (m_readKey ?c2, if m_hasWriteKey ?c2 \<noteq> 0 then Some (m_writeKey ?c2) else None))"
      using conn_ok_attach [OF ok(1) c2 False _ _ _ refl refl, of ?bt a "sessions db"] att by blast+
    moreover have "Some (m_readKey ?c2, if m_hasWriteKey ?c2 \<noteq> 0 then Some (m_writeKey ?c2) else None) =
        rekeyed (?rc = 0) (new_key env ct zKey nKey) (keys_of db ?bt)"
      unfolding ky using False c(3) by (simp add: rekeyed_def new_key_def rekey_keys_def codec_defs split: if_splits)
    ultimately show ?thesis by simp
  qed
qed






section \<open>Pages through the hook\<close>

text \<open>A page that survives its encryption: any page but the first, or a first page that starts with the
  file header and has a plausible page size.\<close>

definition storable :: "u32 \<Rightarrow> bytes \<Rightarrow> bool" where
  "storable pgno b \<longleftrightarrow> 32 \<le> length b \<and> length b \<le> 65536 \<and>
     (pgno = 1 \<longrightarrow> header_plausible (rd b 16 8) \<and> rd b 0 16 = SQLITE_FILE_HEADER)"

lemma sint_eq_1: "sint (pgno :: u32) = 1 \<longleftrightarrow> pgno = 1"
  using signed_word_eqI [of pgno 1] by auto

lemma encrypt_decrypt_image:
  assumes "env_ok env" and c: "codec_ok ct c" "codec_ok ct c2" and "storable pgno b"
    and "m_readKey c2 = (if w \<noteq> 0 then m_writeKey c else m_readKey c)"
    and l: "p + length b \<le> length m"
  shows "\<exists>c' m1. CodecEncrypt env ct c (sint pgno) (wr m p b) p (int (length b)) w = Some (c', m1) \<and> length m1 = length m \<and>
    (\<forall>mem x. rd mem x (length b) = rd m1 p (length b) \<and> x + length b \<le> length mem \<longrightarrow>
      (\<exists>c2'. CodecDecrypt env ct c2 (sint pgno) mem x (int (length b)) = Some (c2', wr mem x b)))"
proof -
  let ?n = "length b" and ?m = "wr m p b"
  have n: "32 \<le> ?n" "16 \<le> ?n" using assms(4) by (simp_all add: storable_def)
  have d: "rijndael_dims (m_aes c)" "rijndael_dims (m_aes c2)" using c by (simp_all add: codec_ok_def codec_wf_def)
  have lm: "p + ?n \<le> length ?m" "length ?m = length m" using l by (simp_all add: dim_simps)
  have b: "rd ?m p ?n = b" using l by (simp add: mem_simps)
  have "\<exists>c' m1 c2'. CodecEncrypt env ct c (sint pgno) ?m p (int ?n) w = Some (c', m1) \<and> length m1 = length m \<and>
    CodecDecrypt env ct c2 (sint pgno) m1 p (int ?n) = Some (c2', ?m)"
  proof (cases "pgno = 1")
    case True
    have "rd ?m (p + 16) 8 = rd b 16 8" using l n by (simp add: rd_inside)
    moreover have "rd ?m (p + 0) 16 = rd b 0 16" using l n by (intro rd_inside) auto
    ultimately have "header_plausible (rd ?m (p + 16) 8)" "rd ?m p 16 = SQLITE_FILE_HEADER"
      using True assms(4) by (simp_all add: storable_def)
    from page1_roundtrip [OF assms(1) d n(1) lm(1) assms(5) this, of ct] show ?thesis
      unfolding True lm(2) sint_eq_1 [THEN iffD2, OF refl] by blast
  next
    case False
    then have "sint pgno \<noteq> 1" by (simp add: sint_eq_1)
    from page_roundtrip [OF assms(1) d this n(2) lm(1) assms(5), of ct] show ?thesis unfolding lm(2) by blast
  qed
  then obtain c' m1 c2' where E: "CodecEncrypt env ct c (sint pgno) ?m p (int ?n) w = Some (c', m1)" "length m1 = length m"
    and D: "CodecDecrypt env ct c2 (sint pgno) m1 p (int ?n) = Some (c2', ?m)" by blast
  let ?b1 = "rd m1 p ?n"
  have b1: "length ?b1 = ?n" "wr m1 p ?b1 = m1" using E(2) l by (simp_all add: dim_simps mem_simps)
  obtain r b' where b': "CodecDecrypt env ct c2 (sint pgno) ?b1 0 (int ?n) = Some (r, b')" "length b' = ?n"
    using CodecDecrypt_total [OF assms(1) d(2) n(1), of 0 ?b1 ct "sint pgno"] b1(1) by (auto simp: same_outside_def)
  have loc: "CodecDecrypt env ct c2 (sint pgno) (wr mem x ?b1) x (int ?n) = Some (r, wr mem x b')" if "x + ?n \<le> length mem" for mem x
    using CodecDecrypt_local [OF assms(1) d(2), of ?b1 x mem ct "sint pgno", unfolded b1(1) b'(1), OF n(1) that] by simp
  have "p + ?n \<le> length m1" using E(2) l by simp
  note p = this
  have "wr m1 p b' = ?m" using loc [OF p, unfolded b1(2) D option.inject prod.inject] by argo
  moreover have "rd (wr m1 p b') p ?n = b'" by (rule rd_wr_same) (use p b'(2) in simp_all)
  ultimately have "b' = b" using b by argo
  moreover have "wr mem x ?b1 = mem" if "rd mem x ?n = ?b1" "x + ?n \<le> length mem" for mem x
    using that wr_rd_same [of x ?n mem] by simp
  ultimately have "CodecDecrypt env ct c2 (sint pgno) mem x (int ?n) = Some (r, wr mem x b)"
    if "rd mem x ?n = ?b1" "x + ?n \<le> length mem" for mem x
    using loc [OF that(2)] that by simp
  with E show ?thesis by blast
qed

text \<open>A page handed to the hook for writing is found again by a hook that reads with the same key.\<close>

lemma hook_image:
  assumes "env_ok env" and c: "codec_ok ct c" "codec_ok ct c2" and "storable pgno (rd mem data ps)" "data + ps \<le> length mem"
    and on: "m_isEncrypted c \<noteq> 0" "m_isEncrypted c2 \<noteq> 0" "m_hasReadKey c2 \<noteq> 0"
    and mode: "nMode = 6 \<and> m_hasWriteKey c \<noteq> 0 \<and> m_readKey c2 = m_writeKey c \<or> nMode = 7 \<and> m_hasReadKey c \<noteq> 0 \<and> m_readKey c2 = m_readKey c"
  shows "\<exists>c'. sqlite3Codec env ct (Some c) ps mem data pgno nMode = Some (In_page_buffer, Some c', mem) \<and>
    (\<forall>mem2 x m. rd mem2 x ps = rd (m_page c') CodecGetPageBuffer ps \<and> x + ps \<le> length mem2 \<and> m \<in> {0, 2, 3} \<longrightarrow>
      (\<exists>c2'. sqlite3Codec env ct (Some c2) ps mem2 x pgno m = Some (In_data, Some c2', wr mem2 x (rd mem data ps))))"
proof -
  let ?b = "rd mem data ps" and ?w = "if nMode = 6 then 1 else 0 :: int"
  have ps: "length ?b = ps" using assms(5) by (simp add: dim_simps)
  have "4 + length ?b \<le> length (m_page c)" using c(1) assms(4) by (simp add: codec_ok_def buffer_len_def storable_def)
  from encrypt_decrypt_image [OF assms(1) c assms(4) _ this, of ?w] mode obtain c' m1 where
    E: "CodecEncrypt env ct c (sint pgno) (wr (m_page c) 4 ?b) 4 (int ps) ?w = Some (c', m1)"
    and D: "\<And>mem x. rd mem x ps = rd m1 4 ps \<Longrightarrow> x + ps \<le> length mem \<Longrightarrow>
      \<exists>c2'. CodecDecrypt env ct c2 (sint pgno) mem x (int ps) = Some (c2', wr mem x ?b)"
    unfolding ps by (auto split: if_splits)
  have "sqlite3Codec env ct (Some c) ps mem data pgno nMode = Some (In_page_buffer, Some (c'\<lparr>m_page := m1\<rparr>), mem)"
    using E on(1) mode
    by (auto simp: sqlite3Codec_def buffer_page_def codec_defs CodecGetPageBuffer_def)
  moreover have "\<exists>c2'. sqlite3Codec env ct (Some c2) ps mem2 x pgno m = Some (In_data, Some c2', wr mem2 x ?b)"
    if "rd mem2 x ps = rd m1 4 ps" "x + ps \<le> length mem2" "m \<in> {0, 2, 3}" for mem2 x m
    using D [OF that(1,2)] on(2,3) that(3) by (auto simp: sqlite3Codec_def load_page_def codec_defs)
  ultimately show ?thesis
    by (intro exI [of _ "c'\<lparr>m_page := m1\<rparr>"]) (auto simp: CodecGetPageBuffer_def)
qed

section \<open>The pages of a rekey\<close>



section \<open>Sequences of operations\<close>


lemma rekey_effect:
  assumes ok: "conn_ok ct db" "env_ok env" "alloc_ok ct db block aes" "calls_ok p"
  shows "\<exists>rc db'. sqlite3_rekey_v2 env ct block aes p db zDbName zKey nKey = Some (rc, db') \<and>
    conn_ok ct db' \<and> aDb db' = aDb db \<and>
    rc = (if keys_of db (bt_of db zDbName) = None \<and> new_key env ct zKey nKey = None then SQLITE_OK else fst (rekey_run p)) \<and>
    keys_of db' = (keys_of db)(bt_of db zDbName :=
      rekeyed (rc = SQLITE_OK) (new_key env ct zKey nKey) (keys_of db (bt_of db zDbName)))"
proof (cases "pCodec db (bt_of db zDbName)")
  case (Some a)
  from conn_okD [OF ok(1) Some] obtain c where "codecs db a = Some c" by metis
  then have "keys_of db (bt_of db zDbName) \<noteq> None" using Some by (simp add: keys_of_def)
  with rekey_effect_encrypted [OF ok(1,2,4) Some, of block aes zKey nKey] show ?thesis by auto
next
  case None
  then have k: "keys_of db (bt_of db zDbName) = None" by (simp add: keys_of_def)
  show ?thesis
  proof (cases "zKey = None \<or> nKey = 0")
    case True
    have nn: "aDb db \<noteq> []" using ok(1) by (simp add: conn_ok_def)
    then have "sqlite3_rekey_v2 env ct block aes p db zDbName zKey nKey = Some (SQLITE_OK, db)"
      using True None by (auto simp: sqlite3_rekey_v2_def db_at_find mySqlite3PagerGetCodec_def is_encrypted_def)
    with True ok(1) k show ?thesis by (auto simp: new_key_def rekeyed_def)
  next
    case False
    with rekey_effect_plain [OF ok False None] k show ?thesis by (auto simp: new_key_def)
  qed
qed


section \<open>Properties\<close>

definition sample_codec :: "codec_type \<Rightarrow> Codec" where
  "sample_codec ct = (blank_codec ct)\<lparr>m_bt := 1, m_page := replicate 65560 0\<rparr>"

definition sample_conn :: "codec_type \<Rightarrow> sqlite3" where
  "sample_conn ct = \<lparr>aDb = [\<lparr>zDbSName = ''main'', pBt = 1\<rparr>, \<lparr>zDbSName = ''aux'', pBt = 2\<rparr>],
     pCodec = (\<lambda>_. None)(1 := Some 10), codecs = (\<lambda>_. None)(10 := Some (sample_codec ct)), sessions = 1, mutex = 0\<rparr>"

definition plain_conn :: sqlite3 where
  "plain_conn = \<lparr>aDb = [\<lparr>zDbSName = ''main'', pBt = 1\<rparr>, \<lparr>zDbSName = ''aux'', pBt = 2\<rparr>],
     pCodec = (\<lambda>_. None), codecs = (\<lambda>_. None), sessions = 0, mutex = 0\<rparr>"

text \<open>Three pages, of which page 2 cannot be written if \<open>bad\<close>.\<close>

definition sample_calls :: "bool \<Rightarrow> pager_calls" where
  "sample_calls bad = \<lparr>begin_rc = 0, pageSize = 1024, pagecount = 3, get_rc = (\<lambda>_. 0),
     write_rc = (\<lambda>n. if bad \<and> n = 2 then 10 else 0), commit_rc = 0, left_aes = blank_session, left_page = replicate 65560 0\<rparr>"

lemma sample_ok [simp]:
  "codec_ok ct (sample_codec ct)" "conn_ok ct (sample_conn ct)" "conn_ok ct plain_conn" "calls_ok (sample_calls bad)"
  "alloc_ok ct (sample_conn ct) (Some (11, sample_codec ct)) (Some blank_session)"
  "alloc_ok ct plain_conn (Some (11, sample_codec ct)) (Some blank_session)"
proof -
  have "codec_wf ct (blank_codec ct)" by simp
  then show c: "codec_ok ct (sample_codec ct)" by (simp add: sample_codec_def codec_ok_def codec_wf_def buffer_len_def)
  have f: "m_isEncrypted (sample_codec ct) = 1" "m_hasReadKey (sample_codec ct) = 1" "m_bt (sample_codec ct) = 1"
    by (simp_all add: sample_codec_def blank_codec_def)
  show "conn_ok ct (sample_conn ct)" using c f by (simp add: conn_ok_def sample_conn_def)
  show "conn_ok ct plain_conn" by (simp add: conn_ok_def plain_conn_def)
  show "calls_ok (sample_calls bad)" by (simp add: calls_ok_def sample_calls_def buffer_len_def)
  show "alloc_ok ct (sample_conn ct) (Some (11, sample_codec ct)) (Some blank_session)"
    "alloc_ok ct plain_conn (Some (11, sample_codec ct)) (Some blank_session)"
    using c by (simp_all add: alloc_ok_def sample_conn_def plain_conn_def)
qed

lemma sample_run: "fst (rekey_run (sample_calls False)) = 0" "fst (rekey_run (sample_calls True)) = 10"
proof -
  have w: "WX_PAGER_MJ_PGNO 1024 = 1048577" by (simp add: WX_PAGER_MJ_PGNO_def)
  note step = rekey_pages.simps [of "sample_calls _"]
  have "rekey_pages (sample_calls False) 0 4 = (0, [])" by (subst step) (simp add: sample_calls_def)
  then have "rekey_pages (sample_calls False) 0 3 = (0, [3])" by (subst step) (simp add: sample_calls_def w)
  then have "rekey_pages (sample_calls False) 0 2 = (0, [2, 3])" by (subst step) (simp add: sample_calls_def w)
  then have "rekey_pages (sample_calls False) 0 1 = (0, [1, 2, 3])" by (subst step) (simp add: sample_calls_def w flip: numeral_2_eq_2)
  then show "fst (rekey_run (sample_calls False)) = 0" by (simp add: rekey_run_def) (simp add: sample_calls_def)
  have "rekey_pages (sample_calls True) 10 3 = (10, [])" by (subst step) simp
  then have "rekey_pages (sample_calls True) 0 2 = (10, [2])" by (subst step) (simp add: sample_calls_def w)
  then have "rekey_pages (sample_calls True) 0 1 = (10, [1, 2])" by (subst step) (simp add: sample_calls_def w flip: numeral_2_eq_2)
  then show "fst (rekey_run (sample_calls True)) = 10" by (simp add: rekey_run_def) (simp add: sample_calls_def)
qed



text \<open>The specification of a rekey: a database has at most one key, and the call replaces it on success
  and changes nothing on failure.\<close>

definition one_key :: "sqlite3 \<Rightarrow> bool" where
  "one_key db \<longleftrightarrow> (\<forall>bt r w. keys_of db bt = Some (r, w) \<longrightarrow> w = Some r)"

definition key_of :: "sqlite3 \<Rightarrow> nat \<Rightarrow> bytes option" where
  "key_of db bt = map_option fst (keys_of db bt)"

definition rekey_spec :: "bool \<Rightarrow> nat \<Rightarrow> bytes option \<Rightarrow> (nat \<Rightarrow> bytes option) \<Rightarrow> (nat \<Rightarrow> bytes option)" where
  "rekey_spec ok bt k m = (if ok then m(bt := k) else m)"

text \<open>C1: \<open>sqlite3_rekey_v2\<close> refines its specification: it sets, replaces or removes the key of the named
  database alone on success and leaves the keys of all databases as they were on failure, except when
  the removal of a key fails.\<close>

theorem rekey_refines_spec:
  assumes "env_ok env" and "conn_ok ct db" and "alloc_ok ct db block aes" and "calls_ok p" and "one_key db"
    and "sqlite3_rekey_v2 env ct block aes p db zDbName zKey nKey = Some (rc, db')"
    and "rc = SQLITE_OK \<or> new_key env ct zKey nKey \<noteq> None"
  shows "one_key db' \<and> key_of db' = rekey_spec (rc = SQLITE_OK) (bt_of db zDbName) (new_key env ct zKey nKey) (key_of db)"
proof -
  let ?bt = "bt_of db zDbName" and ?new = "new_key env ct zKey nKey"
  have k: "keys_of db' = (keys_of db)(?bt := rekeyed (rc = SQLITE_OK) ?new (keys_of db ?bt))"
    using rekey_effect [OF assms(2,1,3,4), of zDbName zKey nKey] assms(6) by auto
  have "w = Some r" if "rekeyed (rc = SQLITE_OK) ?new (keys_of db ?bt) = Some (r, w)" for r w
    using that assms(7) by (auto simp: rekeyed_def split: if_splits)
  then have "one_key db'" using assms(5) unfolding one_key_def k by simp
  moreover have "map_option fst (rekeyed (rc = SQLITE_OK) ?new (keys_of db ?bt)) = (if rc = SQLITE_OK then ?new else key_of db ?bt)"
    by (simp add: rekeyed_def key_of_def option.map_comp comp_def split_beta option.map_ident)
  then have "key_of db' = rekey_spec (rc = SQLITE_OK) ?bt ?new (key_of db)"
    unfolding key_of_def k rekey_spec_def by (auto simp: fun_eq_iff)
  ultimately show ?thesis ..
qed

theorem rekey_refines_spec_witness:
  "\<exists>db'. sqlite3_rekey_v2 blank_env AES128 (Some (11, sample_codec AES128)) (Some blank_session) (sample_calls False)
     (sample_conn AES128) (Some ''main'') (Some [1, 2]) 2 = Some (SQLITE_OK, db') \<and> one_key db' \<and>
   key_of db' 1 = Some (CodecGenerateEncryptionKey blank_env AES128 [1, 2] 2)"
proof -
  let ?c = "sample_conn AES128" and ?p = "sample_calls False"
  have bt: "bt_of ?c (Some ''main'') = 1" by (simp add: sample_conn_def dbFindIndex_def)
  have k: "keys_of ?c bt = (if bt = 1 then Some (m_readKey (sample_codec AES128), Some (m_readKey (sample_codec AES128))) else None)" for bt
    by (simp add: keys_of_def sample_conn_def sample_codec_def blank_codec_def)
  then have one: "one_key ?c" by (simp add: one_key_def)
  obtain db' where r: "sqlite3_rekey_v2 blank_env AES128 (Some (11, sample_codec AES128)) (Some blank_session) ?p ?c (Some ''main'')
    (Some [1, 2]) 2 = Some (SQLITE_OK, db')"
    using rekey_effect [OF sample_ok(2) blank_ok(1) sample_ok(5) sample_ok(4), of AES128 False "Some ''main''" "Some [1, 2]" 2] sample_run(1)
    by (auto simp: new_key_def)
  from rekey_refines_spec [OF blank_ok(1) sample_ok(2) sample_ok(5) sample_ok(4) one this]
  have "one_key db' \<and> key_of db' 1 = Some (CodecGenerateEncryptionKey blank_env AES128 [1, 2] 2)"
    unfolding bt by (simp add: rekey_spec_def new_key_def)
  with r show ?thesis by blast
qed

text \<open>C36: after a failed removal of the key (an encrypted database, no new key, an error on any page or in the
  commit) the database keeps its read key but has lost its write key, and the hook hands every page
  back to the pager for writing unencrypted, while later reads decrypt it.\<close>

theorem rekey_failure_writes_plain:
  assumes "env_ok env" and "conn_ok ct db" and "calls_ok p" and "keys_of db (bt_of db zDbName) = Some (r, w)"
    and "new_key env ct zKey nKey = None" and "fst (rekey_run p) \<noteq> SQLITE_OK"
  shows "\<exists>db' a c. sqlite3_rekey_v2 env ct block aes p db zDbName zKey nKey = Some (fst (rekey_run p), db') \<and>
    pCodec db' (bt_of db zDbName) = Some a \<and> codecs db' a = Some c \<and> m_readKey c = r \<and> m_hasReadKey c \<noteq> 0 \<and>
    (\<forall>ps mem data pgno. sqlite3Codec env ct (Some c) ps mem data pgno 6 = Some (In_data, Some c, mem))"
proof -
  let ?bt = "bt_of db zDbName"
  from assms(4) obtain a0 where "pCodec db ?bt = Some a0" by (auto simp: keys_of_def bind_eq_Some_conv)
  from rekey_effect_encrypted [OF assms(2,1,3) this, of block aes zKey nKey] obtain db' where
    1: "sqlite3_rekey_v2 env ct block aes p db zDbName zKey nKey = Some (fst (rekey_run p), db')" "conn_ok ct db'"
    and "keys_of db' ?bt = rekeyed (fst (rekey_run p) = 0) (new_key env ct zKey nKey) (keys_of db ?bt)" by auto
  then have "keys_of db' ?bt = Some (r, None)" using assms(4-6) by (simp add: rekeyed_def)
  then obtain a c where 2: "pCodec db' ?bt = Some a" "codecs db' a = Some c" "m_readKey c = r" "m_hasWriteKey c = 0"
    by (auto simp: keys_of_def bind_eq_Some_conv split: if_splits)
  then have "m_hasReadKey c \<noteq> 0" using 1(2) unfolding conn_ok_def by (metis option.inject)
  moreover have "sqlite3Codec env ct (Some c) ps mem data pgno 6 = Some (In_data, Some c, mem)" for ps mem data pgno
    using 2(4) by (simp add: sqlite3Codec_def codec_defs)
  ultimately show ?thesis using 1(1) 2 by blast
qed

lemma sample_keys: "keys_of (sample_conn ct) (bt_of (sample_conn ct) (Some ''main'')) = Some (replicate (KEYLENGTH ct) 5, Some (replicate (KEYLENGTH ct) 5))"
  by (simp add: keys_of_def sample_conn_def sample_codec_def blank_codec_def dbFindIndex_def)

theorem rekey_failure_writes_plain_witness:
  "\<exists>db' a c. sqlite3_rekey_v2 blank_env AES256 None None (sample_calls True) (sample_conn AES256) (Some ''main'') None 0 =
      Some (10, db') \<and> pCodec db' 1 = Some a \<and> codecs db' a = Some c \<and>
    sqlite3Codec blank_env AES256 (Some c) 1024 (replicate 1024 7) 0 2 6 = Some (In_data, Some c, replicate 1024 7)"
proof -
  have bt: "bt_of (sample_conn AES256) (Some ''main'') = 1" by (simp add: sample_conn_def dbFindIndex_def)
  have "new_key blank_env AES256 None 0 = None" by (simp add: new_key_def)
  from rekey_failure_writes_plain [OF blank_ok(1) sample_ok(2) sample_ok(4) sample_keys this, of True None None]
  show ?thesis unfolding bt sample_run(2) by auto
qed

text \<open>C9: what \<open>sqlite3Codec\<close> returns for a page to be written (mode 6, write key) or journaled (mode 7, read key)
  is the page again when it is read (modes 0, 2 and 3), at any place of the memory, by a codec whose
  read key is the key that was used; the caller's page itself is not changed.\<close>

theorem hook_store_load:
  assumes "env_ok env" and "codec_ok ct c" and "codec_ok ct c2" and "storable pgno (rd mem data ps)" and "data + ps \<le> length mem"
    and "m_isEncrypted c \<noteq> 0" and "m_isEncrypted c2 \<noteq> 0" and "m_hasReadKey c2 \<noteq> 0"
    and "nMode = 6 \<and> m_hasWriteKey c \<noteq> 0 \<and> m_readKey c2 = m_writeKey c \<or> nMode = 7 \<and> m_hasReadKey c \<noteq> 0 \<and> m_readKey c2 = m_readKey c"
  shows "\<exists>c'. sqlite3Codec env ct (Some c) ps mem data pgno nMode = Some (In_page_buffer, Some c', mem) \<and>
    (\<forall>mem2 x m. rd mem2 x ps = rd (m_page c') CodecGetPageBuffer ps \<and> x + ps \<le> length mem2 \<and> m \<in> {0, 2, 3} \<longrightarrow>
      (\<exists>c2'. sqlite3Codec env ct (Some c2) ps mem2 x pgno m = Some (In_data, Some c2', wr mem2 x (rd mem data ps))))"
  using assms by (rule hook_image)

theorem hook_store_load_witness:
  "\<exists>c'. sqlite3Codec blank_env AES128 (Some (sample_codec AES128)) 1024 (replicate 1024 3) 0 7 6 =
     Some (In_page_buffer, Some c', replicate 1024 3)"
proof -
  have "storable 7 (rd (replicate 1024 3) 0 1024)" by (simp add: storable_def rd_def)
  moreover have "m_isEncrypted (sample_codec AES128) \<noteq> 0" "m_hasReadKey (sample_codec AES128) \<noteq> 0" "m_hasWriteKey (sample_codec AES128) \<noteq> 0"
    "m_readKey (sample_codec AES128) = m_writeKey (sample_codec AES128)"
    by (simp_all add: sample_codec_def blank_codec_def)
  ultimately show ?thesis
    using hook_store_load [OF blank_ok(1) sample_ok(1) sample_ok(1), where ct = AES128 and nMode = 6 and ps = 1024 and data = 0 and
        mem = "replicate 1024 3" and pgno = 7] by auto
qed






text \<open>\<open>sqlite3_key\<close> without a key (a null key or a length that is not positive) on the main database leaks:
  the codec it allocated stays allocated with its cipher session, and no pager holds it.\<close>

theorem key_without_key_leaks:
  assumes "conn_ok ct db" and "env_ok env" and "alloc_ok ct db (Some (a, c)) aes"
    and "zKey = None \<or> nKey \<le> 0" and "dbFindIndex db (Some ''main'') = 0"
  shows "\<exists>db'. sqlite3_key env ct (Some (a, c)) aes db zKey nKey = Some (SQLITE_OK, db') \<and>
    codecs db' a \<noteq> None \<and> sessions db' = sessions db + 1 \<and> (\<forall>bt. pCodec db' bt \<noteq> Some a)"
proof -
  from assms(3) have a: "codecs db a = None" "aes \<noteq> None" by (auto simp: alloc_ok_def split: option.splits)
  have "pCodec db bt \<noteq> Some a" for bt using conn_okD [OF assms(1), of bt a] a by (metis option.distinct(1))
  with a assms(4,5) show ?thesis
    by (auto simp: sqlite3_key_def sqlite3_key_v2_def sqlite3CodecAttach_def new_codec_def CodecInit_def)
qed

theorem key_without_key_leaks_witness:
  "\<exists>db'. sqlite3_key blank_env AES128 (Some (11, sample_codec AES128)) (Some blank_session) plain_conn None 0 = Some (SQLITE_OK, db') \<and>
     codecs db' 11 \<noteq> None \<and> sessions db' = sessions plain_conn + 1 \<and> (\<forall>bt. pCodec db' bt \<noteq> Some 11)"
  by (rule key_without_key_leaks) (simp_all, simp add: plain_conn_def dbFindIndex_def)

end
