(* ===== verification/Fts3_Hash.thy ===== *)
theory Fts3_Hash
  imports Prelude "HOL-Library.Monad_Syntax"
begin

text \<open>
  The hash table of the full-text index, \<^verbatim>\<open>fts3_hash.c\<close> and \<^verbatim>\<open>fts3_hash.h\<close>. The elements live on a
  heap and form one doubly linked list; a bucket holds the address of its first element in that list
  and the number of its elements, so that the elements of a bucket are consecutive. Allocations may
  fail; an access through a null or dangling pointer, and a loop that does not end, is the value
  \<open>None\<close>. A null \<open>data\<close> pointer is 0. The octets of a key are stored in the element (a private copy if
  \<open>copyKey\<close> is set, else the caller's octets, which have to stay as they are).
\<close>

section \<open>Data\<close>

datatype key_class = FTS3_HASH_STRING | FTS3_HASH_BINARY

record Fts3HashElem =
  e_next :: "nat option"
  e_prev :: "nat option"
  e_data :: nat
  e_pKey :: bytes
  e_nKey :: int

type_synonym heap = "nat \<Rightarrow> Fts3HashElem option"

record Fts3Hash =
  keyClass :: key_class
  copyKey :: bool
  count :: int
  first :: "nat option"
  htsize :: nat
  ht :: "(int \<times> nat option) list option"

definition sqlite3Fts3HashInit :: "key_class \<Rightarrow> bool \<Rightarrow> Fts3Hash" where
  "sqlite3Fts3HashInit kc ck = \<lparr>keyClass = kc, copyKey = ck, count = 0, first = None, htsize = 0, ht = None\<rparr>"

section \<open>Hash and comparison functions\<close>

text \<open>A \<^verbatim>\<open>char\<close> as an \<^verbatim>\<open>int\<close>: whether it is signed depends on the machine (it is not on ARM).\<close>

definition char_int :: "bool \<Rightarrow> u8 \<Rightarrow> u32" where
  "char_int schar c = (if schar then scast c else ucast c)"

fun hash_loop :: "bool \<Rightarrow> nat \<Rightarrow> bytes \<Rightarrow> u32 \<Rightarrow> u32" where
  "hash_loop schar 0 z h = h"
| "hash_loop schar (Suc n) z h = hash_loop schar n (tl z) ((push_bit 3 h XOR h) XOR char_int schar (hd z))"

definition strlen :: "bytes \<Rightarrow> nat" where
  "strlen z = length (takeWhile (\<lambda>c. c \<noteq> 0) z)"

definition fts3StrHash :: "bool \<Rightarrow> bytes \<Rightarrow> int \<Rightarrow> nat" where
  "fts3StrHash schar z n = unat (hash_loop schar (if n \<le> 0 then strlen z else nat n) z 0 AND 0x7fffffff)"

definition fts3BinHash :: "bool \<Rightarrow> bytes \<Rightarrow> int \<Rightarrow> nat" where
  "fts3BinHash schar z n = unat (hash_loop schar (nat n) z 0 AND 0x7fffffff)"

fun strncmp :: "bytes \<Rightarrow> bytes \<Rightarrow> nat \<Rightarrow> int" where
  "strncmp a b 0 = 0"
| "strncmp a b (Suc n) =
     (if hd a \<noteq> hd b then uint (hd a) - uint (hd b)
      else if hd a = 0 then 0 else strncmp (tl a) (tl b) n)"

fun memcmp :: "bytes \<Rightarrow> bytes \<Rightarrow> nat \<Rightarrow> int" where
  "memcmp a b 0 = 0"
| "memcmp a b (Suc n) = (if hd a \<noteq> hd b then uint (hd a) - uint (hd b) else memcmp (tl a) (tl b) n)"

definition fts3StrCompare :: "bytes \<Rightarrow> int \<Rightarrow> bytes \<Rightarrow> int \<Rightarrow> int" where
  "fts3StrCompare k1 n1 k2 n2 = (if n1 \<noteq> n2 then 1 else strncmp k1 k2 (nat n1))"

definition fts3BinCompare :: "bytes \<Rightarrow> int \<Rightarrow> bytes \<Rightarrow> int \<Rightarrow> int" where
  "fts3BinCompare k1 n1 k2 n2 = (if n1 \<noteq> n2 then 1 else memcmp k1 k2 (nat n1))"

definition ftsHashFunction :: "bool \<Rightarrow> key_class \<Rightarrow> bytes \<Rightarrow> int \<Rightarrow> nat" where
  "ftsHashFunction schar kc = (case kc of FTS3_HASH_STRING \<Rightarrow> fts3StrHash schar | FTS3_HASH_BINARY \<Rightarrow> fts3BinHash schar)"

definition ftsCompareFunction :: "key_class \<Rightarrow> bytes \<Rightarrow> int \<Rightarrow> bytes \<Rightarrow> int \<Rightarrow> int" where
  "ftsCompareFunction kc = (case kc of FTS3_HASH_STRING \<Rightarrow> fts3StrCompare | FTS3_HASH_BINARY \<Rightarrow> fts3BinCompare)"

section \<open>Operations\<close>

definition upd_elem :: "heap \<Rightarrow> nat \<Rightarrow> (Fts3HashElem \<Rightarrow> Fts3HashElem) \<Rightarrow> heap option" where
  "upd_elem hp a f = do { e \<leftarrow> hp a; Some (hp(a := Some (f e))) }"

definition upd_opt :: "heap \<Rightarrow> nat option \<Rightarrow> (Fts3HashElem \<Rightarrow> Fts3HashElem) \<Rightarrow> heap option" where
  "upd_opt hp p f = (case p of None \<Rightarrow> Some hp | Some a \<Rightarrow> upd_elem hp a f)"

definition bucket :: "Fts3Hash \<Rightarrow> nat \<Rightarrow> (int \<times> nat option) option" where
  "bucket pH h = do { t \<leftarrow> ht pH; if h < length t then Some (t ! h) else None }"

definition set_bucket :: "Fts3Hash \<Rightarrow> nat \<Rightarrow> int \<times> nat option \<Rightarrow> Fts3Hash" where
  "set_bucket pH h e = pH\<lparr>ht := map_option (\<lambda>t. t[h := e]) (ht pH)\<rparr>"

partial_function (option) free_loop :: "nat option \<Rightarrow> heap \<Rightarrow> heap option" where
  "free_loop elem hp =
     (case elem of None \<Rightarrow> Some hp
      | Some a \<Rightarrow> do { e \<leftarrow> hp a; free_loop (e_next e) (hp(a := None)) })"

definition sqlite3Fts3HashClear :: "heap \<Rightarrow> Fts3Hash \<Rightarrow> (heap \<times> Fts3Hash) option" where
  "sqlite3Fts3HashClear hp pH =
     do {
       hp' \<leftarrow> free_loop (first pH) hp;
       Some (hp', pH\<lparr>first := None, ht := None, htsize := 0, count := 0\<rparr>)
     }"

text \<open>Linking a new element in front of the element at the head of a bucket, or of the whole list.\<close>

definition insert_links :: "heap \<Rightarrow> nat option \<Rightarrow> nat option \<Rightarrow> nat \<Rightarrow> (heap \<times> nat option) option" where
  "insert_links hp fst' chain pNew =
         (case chain of
            Some pHead \<Rightarrow> do {
              hd \<leftarrow> hp pHead;
              hp1 \<leftarrow> upd_elem hp pNew (\<lambda>e. e\<lparr>e_next := Some pHead, e_prev := e_prev hd\<rparr>);
              hp2 \<leftarrow> upd_opt hp1 (e_prev hd) (\<lambda>e. e\<lparr>e_next := Some pNew\<rparr>);
              hp3 \<leftarrow> upd_elem hp2 pHead (\<lambda>e. e\<lparr>e_prev := Some pNew\<rparr>);
              Some (hp3, if e_prev hd = None then Some pNew else fst')
            }
          | None \<Rightarrow> do {
              hp1 \<leftarrow> upd_elem hp pNew (\<lambda>e. e\<lparr>e_next := fst'\<rparr>);
              hp2 \<leftarrow> upd_opt hp1 fst' (\<lambda>e. e\<lparr>e_prev := Some pNew\<rparr>);
              hp3 \<leftarrow> upd_elem hp2 pNew (\<lambda>e. e\<lparr>e_prev := None\<rparr>);
              Some (hp3, Some pNew)
            })"

definition fts3HashInsertElement :: "heap \<Rightarrow> Fts3Hash \<Rightarrow> nat \<Rightarrow> nat \<Rightarrow> (heap \<times> Fts3Hash) option" where
  "fts3HashInsertElement hp pH h pNew =
     do {
       (n, chain) \<leftarrow> bucket pH h;
       (hp', fst') \<leftarrow> insert_links hp (first pH) chain pNew;
       Some (hp', set_bucket (pH\<lparr>first := fst'\<rparr>) h (n + 1, Some pNew))
     }"

partial_function (option) rehash_loop ::
  "bool \<Rightarrow> nat option \<Rightarrow> heap \<Rightarrow> Fts3Hash \<Rightarrow> (heap \<times> Fts3Hash) option" where
  "rehash_loop schar elem hp pH =
     (case elem of None \<Rightarrow> Some (hp, pH)
      | Some a \<Rightarrow> do {
          e \<leftarrow> hp a;
          (hp', pH') \<leftarrow> fts3HashInsertElement hp pH
             (ftsHashFunction schar (keyClass pH) (e_pKey e) (e_nKey e) mod htsize pH) a;
          rehash_loop schar (e_next e) hp' pH'
        })"

text \<open>The size is a power of two, so that the mask of the source is the remainder. \<open>ok\<close>: whether the
  allocation of the table succeeds. The first component is the returned value.\<close>

definition fts3Rehash :: "bool \<Rightarrow> bool \<Rightarrow> heap \<Rightarrow> Fts3Hash \<Rightarrow> nat \<Rightarrow> (bool \<times> heap \<times> Fts3Hash) option" where
  "fts3Rehash schar ok hp pH new_size =
     (if \<not> ok then Some (True, hp, pH)
      else do {
        (hp', pH') \<leftarrow> rehash_loop schar (first pH) hp
          (pH\<lparr>ht := Some (replicate new_size (0, None)), htsize := new_size, first := None\<rparr>);
        Some (False, hp', pH')
      })"

partial_function (option) find_loop ::
  "(bytes \<Rightarrow> int \<Rightarrow> bytes \<Rightarrow> int \<Rightarrow> int) \<Rightarrow> heap \<Rightarrow> bytes \<Rightarrow> int \<Rightarrow> int \<Rightarrow> nat option \<Rightarrow> nat option option" where
  "find_loop xCompare hp pKey nKey n elem =
     (if n = 0 then Some None
      else case elem of None \<Rightarrow> Some None
      | Some a \<Rightarrow> do {
          e \<leftarrow> hp a;
          if xCompare (e_pKey e) (e_nKey e) pKey nKey = 0 then Some (Some a)
          else find_loop xCompare hp pKey nKey (n - 1) (e_next e)
        })"

definition fts3FindElementByHash :: "heap \<Rightarrow> Fts3Hash \<Rightarrow> bytes \<Rightarrow> int \<Rightarrow> nat \<Rightarrow> nat option option" where
  "fts3FindElementByHash hp pH pKey nKey h =
     (if ht pH = None then Some None
      else do {
        (n, chain) \<leftarrow> bucket pH h;
        find_loop (ftsCompareFunction (keyClass pH)) hp pKey nKey n chain
      })"

text \<open>Taking an element out of the list: the heap and the first element afterwards.\<close>

definition remove_links :: "heap \<Rightarrow> nat option \<Rightarrow> Fts3HashElem \<Rightarrow> (heap \<times> nat option) option" where
  "remove_links hp fst' e =
     do {
       hp1 \<leftarrow> upd_opt hp (e_prev e) (\<lambda>p. p\<lparr>e_next := e_next e\<rparr>);
       hp2 \<leftarrow> upd_opt hp1 (e_next e) (\<lambda>q. q\<lparr>e_prev := e_prev e\<rparr>);
       Some (hp2, if e_prev e = None then e_next e else fst')
     }"

definition fts3RemoveElementByHash :: "heap \<Rightarrow> Fts3Hash \<Rightarrow> nat \<Rightarrow> nat \<Rightarrow> (heap \<times> Fts3Hash) option" where
  "fts3RemoveElementByHash hp pH a h =
     do {
       e \<leftarrow> hp a;
       (hp1, fst') \<leftarrow> remove_links hp (first pH) e;
       (n, chain) \<leftarrow> bucket pH h;
       let chain1 = (if chain = Some a then e_next e else chain);
       let pH1 = set_bucket (pH\<lparr>first := fst'\<rparr>) h (n - 1, if n - 1 \<le> 0 then None else chain1);
       let pH2 = pH1\<lparr>count := count pH1 - 1\<rparr>;
       let hp2 = hp1(a := None);
       if count pH2 \<le> 0 then sqlite3Fts3HashClear hp2 pH2 else Some (hp2, pH2)
     }"

definition sqlite3Fts3HashFindElem :: "bool \<Rightarrow> heap \<Rightarrow> Fts3Hash \<Rightarrow> bytes \<Rightarrow> int \<Rightarrow> nat option option" where
  "sqlite3Fts3HashFindElem schar hp pH pKey nKey =
     (if ht pH = None then Some None
      else fts3FindElementByHash hp pH pKey nKey (ftsHashFunction schar (keyClass pH) pKey nKey mod htsize pH))"

definition sqlite3Fts3HashFind :: "bool \<Rightarrow> heap \<Rightarrow> Fts3Hash \<Rightarrow> bytes \<Rightarrow> int \<Rightarrow> nat option" where
  "sqlite3Fts3HashFind schar hp pH pKey nKey =
     do {
       p \<leftarrow> sqlite3Fts3HashFindElem schar hp pH pKey nKey;
       case p of None \<Rightarrow> Some 0 | Some a \<Rightarrow> do { e \<leftarrow> hp a; Some (e_data e) }
     }"

text \<open>The outcomes of the allocations of one insertion: the first table, the doubled table, the element
  (its address) and the copy of the key.\<close>

record allocs =
  al_ht1 :: bool
  al_ht2 :: bool
  al_elem :: "nat option"
  al_key :: bool

text \<open>The condition of the source with its two calls: whether a table could not be allocated.\<close>

definition grow :: "bool \<Rightarrow> allocs \<Rightarrow> heap \<Rightarrow> Fts3Hash \<Rightarrow> (bool \<times> heap \<times> Fts3Hash) option" where
  "grow schar al hp pH =
     do {
       (failed, hp1, pH1) \<leftarrow> (if htsize pH = 0 then fts3Rehash schar (al_ht1 al) hp pH 8 else Some (False, hp, pH));
       if failed then Some (True, hp1, pH1)
       else if count pH1 \<ge> int (htsize pH1) then fts3Rehash schar (al_ht2 al) hp1 pH1 (htsize pH1 * 2)
       else Some (False, hp1, pH1)
     }"

definition sqlite3Fts3HashInsert ::
  "bool \<Rightarrow> allocs \<Rightarrow> heap \<Rightarrow> Fts3Hash \<Rightarrow> bytes \<Rightarrow> int \<Rightarrow> nat \<Rightarrow> (nat \<times> heap \<times> Fts3Hash) option" where
  "sqlite3Fts3HashInsert schar al hp pH pKey nKey data =
     (let hraw = ftsHashFunction schar (keyClass pH) pKey nKey;
          h = (if htsize pH = 0 then hraw else hraw mod htsize pH)
      in do {
        elem \<leftarrow> fts3FindElementByHash hp pH pKey nKey h;
        case elem of
          Some a \<Rightarrow> do {
            e \<leftarrow> hp a;
            (hp', pH') \<leftarrow> (if data = 0 then fts3RemoveElementByHash hp pH a h
                           else Some (hp(a := Some (e\<lparr>e_data := data\<rparr>)), pH));
            Some (e_data e, hp', pH')
          }
        | None \<Rightarrow>
            if data = 0 then Some (0, hp, pH)
            else do {
              (failed, hp1, pH1) \<leftarrow> grow schar al hp pH;
              if failed then Some (data, hp1, pH1\<lparr>count := 0\<rparr>)
              else case al_elem al of
                None \<Rightarrow> Some (data, hp1, pH1)
              | Some a \<Rightarrow>
                  if copyKey pH1 \<and> \<not> al_key al then Some (data, hp1, pH1)
                  else do {
                    let hp2 = hp1(a := Some \<lparr>e_next = None, e_prev = None, e_data = 0,
                                e_pKey = (if copyKey pH1 then take (nat nKey) pKey else pKey), e_nKey = nKey\<rparr>);
                    let pH2 = pH1\<lparr>count := count pH1 + 1\<rparr>;
                    (hp3, pH3) \<leftarrow> fts3HashInsertElement hp2 pH2 (hraw mod htsize pH2) a;
                    hp4 \<leftarrow> upd_elem hp3 a (\<lambda>e. e\<lparr>e_data := data\<rparr>);
                    Some (0, hp4, pH3)
                  }
            }
      })"

section \<open>The doubly linked list\<close>

definition hdo :: "nat list \<Rightarrow> nat option \<Rightarrow> nat option" where
  "hdo xs nx = (case xs of [] \<Rightarrow> nx | a # _ \<Rightarrow> Some a)"

definition lasto :: "nat option \<Rightarrow> nat list \<Rightarrow> nat option" where
  "lasto pv xs = (if xs = [] then pv else Some (last xs))"

lemma hdo_simps [simp]: "hdo [] nx = nx" "hdo (a # xs) nx = Some a" "hdo (xs @ ys) nx = hdo xs (hdo ys nx)"
  by (simp_all add: hdo_def split: list.split)

lemma lasto_simps [simp]: "lasto pv [] = pv" "lasto pv (a # xs) = lasto (Some a) xs" "lasto pv (xs @ ys) = lasto (lasto pv xs) ys"
  by (simp_all add: lasto_def)

text \<open>\<open>linked hp pv xs nx\<close>: the elements \<open>xs\<close> are linked in this order, between \<open>pv\<close> and \<open>nx\<close>.\<close>

fun linked :: "heap \<Rightarrow> nat option \<Rightarrow> nat list \<Rightarrow> nat option \<Rightarrow> bool" where
  "linked hp pv [] nx = True"
| "linked hp pv (a # xs) nx =
     (case hp a of None \<Rightarrow> False
      | Some e \<Rightarrow> e_prev e = pv \<and> e_next e = hdo xs nx \<and> linked hp (Some a) xs nx)"

lemma linked_append [simp]:
  "linked hp pv (xs @ ys) nx \<longleftrightarrow> linked hp pv xs (hdo ys nx) \<and> linked hp (lasto pv xs) ys nx"
  by (induction xs arbitrary: pv) (auto split: option.split)

lemma linked_other [simp]: "a \<notin> set xs \<Longrightarrow> linked (hp(a := x)) pv xs nx = linked hp pv xs nx"
  by (induction xs arbitrary: pv) (auto split: option.split)

lemma linked_Some: "linked hp pv xs nx \<Longrightarrow> a \<in> set xs \<Longrightarrow> \<exists>e. hp a = Some e"
  by (induction xs arbitrary: pv) (auto split: option.splits)

lemma linked_snoc_next:
  "linked hp pv (xs @ [b]) nx \<Longrightarrow> b \<notin> set xs \<Longrightarrow> linked (hp(b := Some ((the (hp b))\<lparr>e_next := nx'\<rparr>))) pv (xs @ [b]) nx'"
  by (auto split: option.splits)

lemma linked_Cons_prev:
  "linked hp pv (b # xs) nx \<Longrightarrow> b \<notin> set xs \<Longrightarrow> linked (hp(b := Some ((the (hp b))\<lparr>e_prev := pv'\<rparr>))) pv' (b # xs) nx"
  by (auto split: option.splits)

text \<open>Elements keep their key and data.\<close>

definition same_content :: "heap \<Rightarrow> heap \<Rightarrow> nat set \<Rightarrow> bool" where
  "same_content hp hp' A \<longleftrightarrow> (\<forall>a \<in> A. map_option (\<lambda>e. (e_data e, e_pKey e, e_nKey e)) (hp' a) =
     map_option (\<lambda>e. (e_data e, e_pKey e, e_nKey e)) (hp a))"

lemma same_content_upd:
  "hp b = Some e \<Longrightarrow> e_data e' = e_data e \<Longrightarrow> e_pKey e' = e_pKey e \<Longrightarrow> e_nKey e' = e_nKey e \<Longrightarrow>
   same_content hp0 hp A \<Longrightarrow> same_content hp0 (hp(b := Some e')) A"
  by (auto simp: same_content_def)

lemma same_content_refl [simp]: "same_content hp hp A" by (simp add: same_content_def)

lemma insert_links_front:
  assumes "linked hp None xs None" and "hp n = Some e" and "n \<notin> set xs" and "distinct xs"
  shows "\<exists>hp'. insert_links hp (hdo xs None) None n = Some (hp', Some n) \<and> linked hp' None (n # xs) None \<and>
    same_content hp hp' UNIV \<and> (\<forall>a. a \<notin> set (n # xs) \<longrightarrow> hp' a = hp a)"
proof (cases xs)
  case Nil
  then show ?thesis using assms by (simp add: insert_links_def upd_elem_def upd_opt_def same_content_def)
next
  case (Cons b ys)
  then obtain f where f: "hp b = Some f" using assms(1) by (auto split: option.splits)
  then show ?thesis using assms Cons
    by (auto simp: insert_links_def upd_elem_def upd_opt_def same_content_def)
qed

lemma insert_links_before:
  assumes "linked hp None (ys @ b # zs) None" and "hp n = Some e" and "n \<notin> set (ys @ b # zs)" and "distinct (ys @ b # zs)"
  shows "\<exists>hp'. insert_links hp (hdo (ys @ b # zs) None) (Some b) n = Some (hp', hdo (ys @ n # b # zs) None) \<and>
    linked hp' None (ys @ n # b # zs) None \<and> same_content hp hp' UNIV \<and> (\<forall>a. a \<notin> set (ys @ n # b # zs) \<longrightarrow> hp' a = hp a)"
proof -
  obtain f where f: "hp b = Some f" "e_prev f = lasto None ys" using assms(1) by (auto split: option.splits)
  show ?thesis
  proof (cases ys rule: rev_cases)
    case Nil
    then show ?thesis using assms f by (auto simp: insert_links_def upd_elem_def upd_opt_def same_content_def)
  next
    case (snoc ws c)
    then obtain g where g: "hp c = Some g" using assms(1) by (auto split: option.splits)
    let ?hp = "hp(n := Some (e\<lparr>e_next := Some b, e_prev := Some c\<rparr>), c := Some (g\<lparr>e_next := Some n\<rparr>), b := Some (f\<lparr>e_prev := Some n\<rparr>))"
    have ne: "n \<noteq> b" "n \<noteq> c" "b \<noteq> c" and fp: "e_prev f = Some c" using assms(3,4) snoc f(2) by auto
    have h: "hdo (ys @ n # b # zs) None = hdo (ys @ b # zs) None" using snoc by simp
    have "insert_links hp (hdo (ys @ b # zs) None) (Some b) n = Some (?hp, hdo (ys @ n # b # zs) None)"
      unfolding h using f(1) g assms(2) ne fp by (simp add: insert_links_def upd_elem_def upd_opt_def)
    moreover have "linked ?hp None (ys @ n # b # zs) None"
      using assms(1,3,4) snoc f g ne by (simp add: fun_upd_twist)
    moreover have "same_content hp ?hp UNIV" using f(1) g assms(2) by (auto simp: same_content_def)
    moreover have "\<forall>a. a \<notin> set (ys @ n # b # zs) \<longrightarrow> ?hp a = hp a" using snoc by simp
    ultimately show ?thesis by blast
  qed
qed

lemma remove_links_list:
  assumes "linked hp None (ys @ a # zs) None" and "distinct (ys @ a # zs)" and "hp a = Some e"
  shows "\<exists>hp'. remove_links hp (hdo (ys @ a # zs) None) e = Some (hp', hdo (ys @ zs) None) \<and>
    linked (hp'(a := None)) None (ys @ zs) None \<and> same_content hp (hp'(a := None)) (UNIV - {a}) \<and>
    (\<forall>b. b \<notin> set (ys @ a # zs) \<longrightarrow> hp' b = hp b)"
proof -
  have e: "e_prev e = lasto None ys" "e_next e = hdo zs None" using assms(1,3) by simp_all
  have y: "\<exists>ws c g. ys = ws @ [c] \<and> hp c = Some g" if "ys \<noteq> []"
    using that assms(1) by (cases ys rule: rev_cases) (auto split: option.splits)
  have z: "\<exists>d us f. zs = d # us \<and> hp d = Some f" if "zs \<noteq> []"
    using that assms(1) by (cases zs) (auto split: option.splits)
  consider "ys = []" "zs = []" | d us f where "ys = []" "zs = d # us" "hp d = Some f"
    | ws c g where "ys = ws @ [c]" "hp c = Some g" "zs = []"
    | ws c g d us f where "ys = ws @ [c]" "hp c = Some g" "zs = d # us" "hp d = Some f"
    using y z by blast
  then show ?thesis
  proof cases
    case 1
    then show ?thesis using assms e by (simp add: remove_links_def upd_opt_def same_content_def)
  next
    case 2
    then show ?thesis using assms e by (auto simp: remove_links_def upd_opt_def upd_elem_def same_content_def)
  next
    case 3
    let ?hp = "hp(c := Some (g\<lparr>e_next := None\<rparr>))"
    have "remove_links hp (hdo (ys @ a # zs) None) e = Some (?hp, hdo (ys @ zs) None)"
      using 3 e by (cases ws) (simp_all add: remove_links_def upd_opt_def upd_elem_def lasto_def)
    moreover have "linked (?hp(a := None)) None (ys @ zs) None"
      using 3 assms by (simp add: fun_upd_twist)
    ultimately show ?thesis using 3 by (auto simp: same_content_def)
  next
    case 4
    let ?hp = "hp(c := Some (g\<lparr>e_next := Some d\<rparr>), d := Some (f\<lparr>e_prev := Some c\<rparr>))"
    have ne: "c \<noteq> d" using 4 assms(2) by auto
    have "remove_links hp (hdo (ys @ a # zs) None) e = Some (?hp, hdo (ys @ zs) None)"
      using 4 e ne by (cases ws) (simp_all add: remove_links_def upd_opt_def upd_elem_def lasto_def)
    moreover have "linked (?hp(a := None)) None (ys @ zs) None"
      using 4 assms ne by (simp add: fun_upd_twist)
    ultimately show ?thesis using 4 by (auto simp: same_content_def)
  qed
qed

section \<open>Buckets\<close>

text \<open>A bucket with the elements \<open>A\<close>: a contiguous part of the list, its first element and its length.\<close>

definition bucket_ok :: "nat list \<Rightarrow> int \<times> nat option \<Rightarrow> nat set \<Rightarrow> bool" where
  "bucket_ok xs b A \<longleftrightarrow> (\<exists>ys seg zs. xs = ys @ seg @ zs \<and> fst b = int (length seg) \<and> snd b = hdo seg None \<and> set seg = A)"

lemma segment_insert:
  assumes "ys @ b # zs = us @ seg @ vs" and "b \<notin> set seg"
  shows "\<exists>us' vs'. ys @ n # b # zs = us' @ seg @ vs'"
proof -
  from assms(1) consider ws where "ys = us @ ws" "ws @ b # zs = seg @ vs" | ws where "us = ys @ ws" "b # zs = ws @ seg @ vs"
    by (auto simp: append_eq_append_conv2)
  then show ?thesis
  proof cases
    case 1
    from 1(2) consider ts where "ws = seg @ ts" "ts @ b # zs = vs" | ts where "seg = ws @ ts" "b # zs = ts @ vs"
      by (auto simp: append_eq_append_conv2)
    then show ?thesis
    proof cases
      case 1
      with \<open>ys = us @ ws\<close> show ?thesis by (intro exI [of _ us] exI [of _ "ts @ n # b # zs"]) simp
    next
      case 2
      with assms(2) have "ts = []" by (cases ts) auto
      with 2 \<open>ys = us @ ws\<close> show ?thesis by (intro exI [of _ us] exI [of _ "n # b # zs"]) simp
    qed
  next
    case 2
    show ?thesis
    proof (cases ws)
      case Nil
      with 2 assms(2) have "seg = []" by (cases seg) auto
      then show ?thesis by (intro exI [of _ "[]"] exI) simp
    next
      case (Cons c ts)
      with 2 show ?thesis by (intro exI [of _ "ys @ n # ws"] exI [of _ vs]) simp
    qed
  qed
qed

lemma segment_remove:
  assumes "ys @ a # zs = us @ seg @ vs" and "a \<notin> set seg"
  shows "\<exists>us' vs'. ys @ zs = us' @ seg @ vs'"
proof -
  from assms(1) consider ws where "ys = us @ ws" "ws @ a # zs = seg @ vs" | ws where "us = ys @ ws" "a # zs = ws @ seg @ vs"
    by (auto simp: append_eq_append_conv2)
  then show ?thesis
  proof cases
    case 1
    from 1(2) consider ts where "ws = seg @ ts" "ts @ a # zs = vs" | ts where "seg = ws @ ts" "a # zs = ts @ vs"
      by (auto simp: append_eq_append_conv2)
    then show ?thesis
    proof cases
      case 1
      with \<open>ys = us @ ws\<close> show ?thesis by (intro exI [of _ us] exI [of _ "ts @ zs"]) simp
    next
      case 2
      with assms(2) have "ts = []" by (cases ts) auto
      with 2 \<open>ys = us @ ws\<close> show ?thesis by (intro exI [of _ us] exI [of _ zs]) simp
    qed
  next
    case 2
    show ?thesis
    proof (cases ws)
      case Nil
      with 2 assms(2) have "seg = []" by (cases seg) auto
      then show ?thesis by (intro exI [of _ "[]"] exI) simp
    next
      case (Cons c ts)
      with 2 show ?thesis by (intro exI [of _ "ys @ ts"] exI [of _ vs]) simp
    qed
  qed
qed

section \<open>Keys\<close>

text \<open>A key that the comparison functions identify by its octets: it has its stated, positive length and, in
  string mode, no zero before its last octet.\<close>

definition key_valid :: "key_class \<Rightarrow> bytes \<Rightarrow> int \<Rightarrow> bool" where
  "key_valid kc z n \<longleftrightarrow> 0 < n \<and> nat n \<le> length z \<and> (kc = FTS3_HASH_STRING \<longrightarrow> 0 \<notin> set (butlast (take (nat n) z)))"

abbreviation (input) octets_of :: "bytes \<Rightarrow> int \<Rightarrow> bytes" where
  "octets_of z n \<equiv> take (nat n) z"

lemma hash_loop_take: "n \<le> length z \<Longrightarrow> hash_loop schar n z h = hash_loop schar n (take n z) h"
proof (induction schar n z h rule: hash_loop.induct)
  case (2 schar n z h)
  then show ?case by (cases z) auto
qed simp

lemma uint_u8_eq [simp]: "uint (x :: u8) = uint y \<longleftrightarrow> x = y" "uint (x :: u8) = 0 \<longleftrightarrow> x = 0"
  by (auto simp: word_uint_eq_iff)

lemma memcmp_zero: "n \<le> length a \<Longrightarrow> n \<le> length b \<Longrightarrow> memcmp a b n = 0 \<longleftrightarrow> take n a = take n b"
proof (induction a b n rule: memcmp.induct)
  case (2 a b n)
  then show ?case by (cases a; cases b) auto
qed simp

lemma strncmp_zero:
  "n \<le> length a \<Longrightarrow> n \<le> length b \<Longrightarrow> 0 \<notin> set (butlast (take n a)) \<Longrightarrow> 0 \<notin> set (butlast (take n b)) \<Longrightarrow>
   strncmp a b n = 0 \<longleftrightarrow> take n a = take n b"
proof (induction a b n rule: strncmp.induct)
  case (2 a b n)
  then obtain x xs y ys where ab: "a = x # xs" "b = y # ys" by (cases a; cases b) auto
  show ?case
  proof (cases n)
    case 0
    then show ?thesis using ab by simp
  next
    case (Suc k)
    then have "xs \<noteq> []" "ys \<noteq> []" using 2(2,3) ab by auto
    then have "take n xs \<noteq> []" "take n ys \<noteq> []" using Suc by auto
    then show ?thesis using 2 ab by auto
  qed
qed simp

lemma compare_zero:
  assumes "key_valid kc k1 n1" and "key_valid kc k2 n2"
  shows "ftsCompareFunction kc k1 n1 k2 n2 = 0 \<longleftrightarrow> octets_of k1 n1 = octets_of k2 n2"
proof (cases "n1 = n2")
  case True
  then show ?thesis using assms memcmp_zero [of "nat n1" k1 k2] strncmp_zero [of "nat n1" k1 k2]
    by (cases kc) (auto simp: ftsCompareFunction_def fts3StrCompare_def fts3BinCompare_def key_valid_def)
next
  case False
  have "length (octets_of k1 n1) = nat n1" "length (octets_of k2 n2) = nat n2" "0 < n1" "0 < n2"
    using assms by (simp_all add: key_valid_def)
  with False have "octets_of k1 n1 \<noteq> octets_of k2 n2" by (metis eq_nat_nat_iff less_imp_le)
  with False show ?thesis by (cases kc) (simp_all add: ftsCompareFunction_def fts3StrCompare_def fts3BinCompare_def)
qed

lemma hash_key:
  assumes "key_valid kc k1 n1" and "key_valid kc k2 n2" and "octets_of k1 n1 = octets_of k2 n2"
  shows "ftsHashFunction schar kc k1 n1 = ftsHashFunction schar kc k2 n2"
proof -
  have "length (octets_of k1 n1) = nat n1" "length (octets_of k2 n2) = nat n2" and p: "0 < n1" "0 < n2"
    using assms(1,2) by (simp_all add: key_valid_def)
  with assms(3) have "nat n1 = nat n2" by argo
  with assms p hash_loop_take [of "nat n1" k1 schar 0] hash_loop_take [of "nat n2" k2 schar 0] show ?thesis
    by (cases kc) (simp_all add: ftsHashFunction_def fts3StrHash_def fts3BinHash_def key_valid_def)
qed

section \<open>The table\<close>

definition elem_key :: "heap \<Rightarrow> nat \<Rightarrow> bytes" where
  "elem_key hp a = (case hp a of None \<Rightarrow> [] | Some e \<Rightarrow> octets_of (e_pKey e) (e_nKey e))"

definition elem_hash :: "bool \<Rightarrow> key_class \<Rightarrow> heap \<Rightarrow> nat \<Rightarrow> nat" where
  "elem_hash schar kc hp a = (case hp a of None \<Rightarrow> 0 | Some e \<Rightarrow> ftsHashFunction schar kc (e_pKey e) (e_nKey e))"

definition elem_valid :: "key_class \<Rightarrow> heap \<Rightarrow> nat \<Rightarrow> bool" where
  "elem_valid kc hp a \<longleftrightarrow> (case hp a of None \<Rightarrow> False | Some e \<Rightarrow> key_valid kc (e_pKey e) (e_nKey e))"

text \<open>The list and the buckets agree.\<close>

definition table_ok :: "bool \<Rightarrow> heap \<Rightarrow> Fts3Hash \<Rightarrow> nat list \<Rightarrow> bool" where
  "table_ok schar hp pH xs \<longleftrightarrow>
     linked hp None xs None \<and> distinct xs \<and> first pH = hdo xs None \<and> (\<forall>a \<in> set xs. elem_valid (keyClass pH) hp a) \<and>
     (\<exists>k. htsize pH = 2 ^ k) \<and>
     (\<exists>t. ht pH = Some t \<and> length t = htsize pH \<and>
       (\<forall>h < htsize pH. bucket_ok xs (t ! h) {a \<in> set xs. elem_hash schar (keyClass pH) hp a mod htsize pH = h}))"

lemma same_contentD:
  assumes "same_content hp hp' A" and "a \<in> A"
  shows "elem_key hp' a = elem_key hp a" "elem_hash schar kc hp' a = elem_hash schar kc hp a"
    "elem_valid kc hp' a = elem_valid kc hp a"
    "map_option e_data (hp' a) = map_option e_data (hp a)"
proof -
  have "map_option (\<lambda>e. (e_data e, e_pKey e, e_nKey e)) (hp' a) = map_option (\<lambda>e. (e_data e, e_pKey e, e_nKey e)) (hp a)"
    using assms by (simp add: same_content_def)
  then show "elem_key hp' a = elem_key hp a" "elem_hash schar kc hp' a = elem_hash schar kc hp a"
    "elem_valid kc hp' a = elem_valid kc hp a" "map_option e_data (hp' a) = map_option e_data (hp a)"
    by (cases "hp a"; cases "hp' a"; simp add: elem_key_def elem_hash_def elem_valid_def)+
qed

lemma same_content_trans: "same_content hp hp1 A \<Longrightarrow> same_content hp1 hp2 B \<Longrightarrow> A \<subseteq> B \<Longrightarrow> same_content hp hp2 A"
  by (auto simp: same_content_def)

lemma InsertElement_ok:
  assumes ok: "table_ok schar hp pH xs" and n: "n \<notin> set xs" "elem_valid (keyClass pH) hp n"
    and h: "h = elem_hash schar (keyClass pH) hp n mod htsize pH"
  shows "\<exists>hp' pH' xs'. fts3HashInsertElement hp pH h n = Some (hp', pH') \<and> table_ok schar hp' pH' xs' \<and>
    set xs' = insert n (set xs) \<and> same_content hp hp' UNIV \<and> (\<forall>a. a \<notin> insert n (set xs) \<longrightarrow> hp' a = hp a) \<and>
    keyClass pH' = keyClass pH \<and> copyKey pH' = copyKey pH \<and> count pH' = count pH \<and> htsize pH' = htsize pH"
proof -
  let ?H = "\<lambda>a. elem_hash schar (keyClass pH) hp a mod htsize pH"
  obtain t where t: "ht pH = Some t" "length t = htsize pH" and b: "\<And>h. h < htsize pH \<Longrightarrow> bucket_ok xs (t ! h) {a \<in> set xs. ?H a = h}"
    and l: "linked hp None xs None" "distinct xs" "first pH = hdo xs None" and v: "\<forall>a \<in> set xs. elem_valid (keyClass pH) hp a"
    and p2: "\<exists>k. htsize pH = 2 ^ k" using ok by (auto simp: table_ok_def)
  have hl: "h < htsize pH" using p2 h by auto
  obtain e where e: "hp n = Some e" using n(2) by (auto simp: elem_valid_def split: option.splits)
  obtain ys seg zs where s: "xs = ys @ seg @ zs" "t ! h = (int (length seg), hdo seg None)" "set seg = {a \<in> set xs. ?H a = h}"
    using b [OF hl] by (cases "t ! h") (auto simp: bucket_ok_def)
  define us where "us = (if seg = [] then [] else ys)"
  define vs where "vs = (if seg = [] then xs else seg @ zs)"
  have x: "xs = us @ vs" and seg: "\<exists>ws. vs = seg @ ws" using s(1) by (auto simp: us_def vs_def)
  have "\<exists>hp'. insert_links hp (first pH) (hdo seg None) n = Some (hp', hdo (us @ n # vs) None) \<and>
      linked hp' None (us @ n # vs) None \<and> same_content hp hp' UNIV \<and> (\<forall>a. a \<notin> insert n (set xs) \<longrightarrow> hp' a = hp a)"
  proof (cases seg)
    case Nil
    with insert_links_front [OF l(1) e n(1) l(2)] l(3) show ?thesis by (simp add: us_def vs_def)
  next
    case (Cons c seg')
    have x': "xs = ys @ c # seg' @ zs" using s(1) Cons by simp
    from insert_links_before [of hp ys c "seg' @ zs" n e] l n(1) e show ?thesis
      unfolding l(3) x' by (auto simp: us_def vs_def Cons)
  qed
  then obtain hp' where hp': "insert_links hp (first pH) (hdo seg None) n = Some (hp', hdo (us @ n # vs) None)"
    "linked hp' None (us @ n # vs) None" "same_content hp hp' UNIV" "\<forall>a. a \<notin> insert n (set xs) \<longrightarrow> hp' a = hp a" by blast
  let ?xs = "us @ n # vs" and ?t = "t[h := (int (length seg) + 1, Some n)]"
  let ?pH = "pH\<lparr>first := hdo ?xs None, ht := Some ?t\<rparr>"
  have ins: "fts3HashInsertElement hp pH h n = Some (hp', ?pH)"
    using hl t s(2) hp'(1) by (simp add: fts3HashInsertElement_def bucket_def set_bucket_def)
  have set: "set ?xs = insert n (set xs)" using x by auto
  have same: "elem_hash schar (keyClass pH) hp' a = elem_hash schar (keyClass pH) hp a" "elem_valid (keyClass pH) hp' a = elem_valid (keyClass pH) hp a" for a
    using same_contentD [OF hp'(3)] by simp_all
  have bk: "bucket_ok ?xs (?t ! h') {a \<in> set ?xs. elem_hash schar (keyClass pH) hp' a mod htsize pH = h'}" if hh: "h' < htsize pH" for h'
  proof (cases "h' = h")
    case True
    have "{a \<in> set ?xs. elem_hash schar (keyClass pH) hp' a mod htsize pH = h} = insert n (set seg)"
      unfolding set same s(3) using h by auto
    moreover obtain ws where "vs = seg @ ws" using seg ..
    ultimately show ?thesis using True hl t(2) unfolding bucket_ok_def
      by (intro exI [of _ us] exI [of _ "n # seg"] exI [of _ ws]) simp
  next
    case False
    obtain us' sg vs' where g: "xs = us' @ sg @ vs'" "t ! h' = (int (length sg), hdo sg None)" "set sg = {a \<in> set xs. ?H a = h'}"
      using b [OF hh] by (cases "t ! h'") (auto simp: bucket_ok_def)
    have "\<exists>p q. ?xs = p @ sg @ q"
    proof (cases seg)
      case Nil
      with g(1) show ?thesis by (intro exI [of _ "n # us'"] exI [of _ vs']) (simp add: us_def vs_def)
    next
      case (Cons c seg')
      then have "c \<notin> set sg" using s(3) g(3) False by auto
      from segment_insert [of ys c "seg' @ zs" us' sg vs' n] this show ?thesis
        using s(1) g(1) Cons by (simp add: us_def vs_def)
    qed
    moreover have "{a \<in> set ?xs. elem_hash schar (keyClass pH) hp' a mod htsize pH = h'} = set sg"
      unfolding set same g(3) using h False by auto
    moreover have "?t ! h' = (int (length sg), hdo sg None)" using False g(2) by simp
    ultimately show ?thesis unfolding bucket_ok_def by (metis fst_conv snd_conv)
  qed
  have "table_ok schar hp' ?pH ?xs"
    unfolding table_ok_def using hp'(2) l(2) n x v set same p2 t bk by auto
  with ins set hp'(3,4) show ?thesis by (intro exI [of _ hp'] exI [of _ ?pH] exI [of _ ?xs]) simp
qed

section \<open>Loops\<close>

fun chained :: "heap \<Rightarrow> nat list \<Rightarrow> bool" where
  "chained hp [] = True"
| "chained hp (a # xs) = (case hp a of None \<Rightarrow> False | Some e \<Rightarrow> e_next e = hdo xs None \<and> chained hp xs)"

lemma linked_chained: "linked hp pv xs None \<Longrightarrow> chained hp xs"
  by (induction xs arbitrary: pv) (auto split: option.splits)

lemma chained_cong: "(\<And>a. a \<in> set xs \<Longrightarrow> hp' a = hp a) \<Longrightarrow> chained hp' xs = chained hp xs"
  by (induction xs) (auto split: option.split)

lemma free_loop_ok:
  "chained hp xs \<Longrightarrow> distinct xs \<Longrightarrow> free_loop (hdo xs None) hp = Some (\<lambda>a. if a \<in> set xs then None else hp a)"
proof (induction xs arbitrary: hp)
  case Nil
  then show ?case by (simp add: free_loop.simps)
next
  case (Cons b xs)
  then obtain e where e: "hp b = Some e" "e_next e = hdo xs None" "chained hp xs" by (auto split: option.splits)
  have "chained (hp(b := None)) xs = chained hp xs" by (rule chained_cong) (use Cons.prems(2) in auto)
  with e(3) have "chained (hp(b := None)) xs" by simp
  moreover have "(\<lambda>a. if a \<in> set xs then None else (hp(b := None)) a) = (\<lambda>a. if a \<in> set (b # xs) then None else hp a)" by auto
  ultimately show ?case using Cons.IH [of "hp(b := None)"] Cons.prems(2) e(1,2)
    by (subst free_loop.simps) (simp del: fun_upd_apply)
qed

lemma rehash_loop_ok:
  "table_ok schar hp pH xs \<Longrightarrow> chained hp rs \<Longrightarrow> distinct (xs @ rs) \<Longrightarrow> \<forall>a \<in> set rs. elem_valid (keyClass pH) hp a \<Longrightarrow>
   \<exists>hp' pH' xs'. rehash_loop schar (hdo rs None) hp pH = Some (hp', pH') \<and> table_ok schar hp' pH' xs' \<and>
     set xs' = set xs \<union> set rs \<and> same_content hp hp' UNIV \<and> (\<forall>a. a \<notin> set xs \<union> set rs \<longrightarrow> hp' a = hp a) \<and>
     keyClass pH' = keyClass pH \<and> copyKey pH' = copyKey pH \<and> count pH' = count pH \<and> htsize pH' = htsize pH"
proof (induction rs arbitrary: hp pH xs)
  case Nil
  then show ?case by (intro exI [of _ hp] exI [of _ pH] exI [of _ xs]) (simp add: rehash_loop.simps)
next
  case (Cons b rs)
  from Cons.prems(2) obtain e where e: "hp b = Some e" "e_next e = hdo rs None" "chained hp rs" by (auto split: option.splits)
  let ?h = "elem_hash schar (keyClass pH) hp b mod htsize pH"
  have b: "b \<notin> set xs" "elem_valid (keyClass pH) hp b" using Cons.prems by auto
  from InsertElement_ok [OF Cons.prems(1) b refl] obtain hp1 pH1 xs1 where
    i: "fts3HashInsertElement hp pH ?h b = Some (hp1, pH1)" "table_ok schar hp1 pH1 xs1" "set xs1 = insert b (set xs)"
      "same_content hp hp1 UNIV" "\<forall>a. a \<notin> insert b (set xs) \<longrightarrow> hp1 a = hp a"
      "keyClass pH1 = keyClass pH" "copyKey pH1 = copyKey pH" "count pH1 = count pH" "htsize pH1 = htsize pH" by blast
  have "chained hp1 rs = chained hp rs" by (rule chained_cong) (use Cons.prems(3) i(5) in auto)
  with e(3) have c: "chained hp1 rs" by simp
  have d: "distinct (xs1 @ rs)" using Cons.prems(3) i(2,3) by (auto simp: table_ok_def)
  have v: "\<forall>a \<in> set rs. elem_valid (keyClass pH1) hp1 a" using Cons.prems(4) same_contentD(3) [OF i(4)] i(6) by simp
  from Cons.IH [OF i(2) c d v] obtain hp2 pH2 xs2 where
    r: "rehash_loop schar (hdo rs None) hp1 pH1 = Some (hp2, pH2)" "table_ok schar hp2 pH2 xs2" "set xs2 = set xs1 \<union> set rs"
      "same_content hp1 hp2 UNIV" "\<forall>a. a \<notin> set xs1 \<union> set rs \<longrightarrow> hp2 a = hp1 a"
      "keyClass pH2 = keyClass pH1" "copyKey pH2 = copyKey pH1" "count pH2 = count pH1" "htsize pH2 = htsize pH1" by blast
  have "rehash_loop schar (hdo (b # rs) None) hp pH = Some (hp2, pH2)"
    using e i(1) r(1) by (subst rehash_loop.simps) (simp add: elem_hash_def)
  moreover have "same_content hp hp2 UNIV" by (rule same_content_trans [OF i(4) r(4)]) simp
  ultimately show ?case using r(2,3) i(3,5-9) r(5-9)
    by (intro exI [of _ hp2] exI [of _ pH2] exI [of _ xs2]) auto
qed

lemma find_loop_ok:
  "linked hp pv (seg @ zs) nx \<Longrightarrow>
   find_loop cmp hp k n (int (length seg)) (hdo (seg @ zs) nx) =
     Some (List.find (\<lambda>a. cmp (e_pKey (the (hp a))) (e_nKey (the (hp a))) k n = 0) seg)"
proof (induction seg arbitrary: pv)
  case Nil
  then show ?case by (simp add: find_loop.simps)
next
  case (Cons a seg)
  then obtain e where e: "hp a = Some e" "e_next e = hdo (seg @ zs) nx" "linked hp (Some a) (seg @ zs) nx"
    by (auto split: option.splits)
  from Cons.IH [OF e(3)] e(1,2) show ?case by (subst find_loop.simps) simp
qed

section \<open>The invariant of a hash table\<close>

definition hash_ok :: "bool \<Rightarrow> heap \<Rightarrow> Fts3Hash \<Rightarrow> nat list \<Rightarrow> bool" where
  "hash_ok schar hp pH xs \<longleftrightarrow>
     (if ht pH = None then htsize pH = 0 \<and> count pH = 0 \<and> first pH = None \<and> xs = []
      else table_ok schar hp pH xs \<and> count pH = int (length xs) \<and> inj_on (elem_key hp) (set xs) \<and>
        (\<forall>a \<in> set xs. map_option e_data (hp a) \<noteq> Some 0))"

text \<open>The table stands for the finite map \<open>m\<close> from keys to data.\<close>

definition represents :: "bool \<Rightarrow> heap \<Rightarrow> Fts3Hash \<Rightarrow> (bytes \<Rightarrow> nat option) \<Rightarrow> bool" where
  "represents schar hp pH m \<longleftrightarrow>
     (\<exists>xs. hash_ok schar hp pH xs \<and>
       (\<forall>k d. m k = Some d \<longleftrightarrow> (\<exists>a \<in> set xs. elem_key hp a = k \<and> map_option e_data (hp a) = Some d)))"

lemma hash_ok_cases:
  assumes "hash_ok schar hp pH xs"
  obtains (empty) "ht pH = None" "htsize pH = 0" "count pH = 0" "first pH = None" "xs = []"
  | (table) "ht pH \<noteq> None" "table_ok schar hp pH xs" "count pH = int (length xs)" "inj_on (elem_key hp) (set xs)"
      "\<forall>a \<in> set xs. map_option e_data (hp a) \<noteq> Some 0"
  using assms by (auto simp: hash_ok_def split: if_splits)

lemma table_okD:
  assumes "table_ok schar hp pH xs"
  shows "linked hp None xs None" "distinct xs" "first pH = hdo xs None" "\<forall>a \<in> set xs. elem_valid (keyClass pH) hp a"
    "0 < htsize pH" "ht pH \<noteq> None"
  using assms by (auto simp: table_ok_def)

lemma hash_ok_tableI:
  "table_ok schar hp pH xs \<Longrightarrow> count pH = int (length xs) \<Longrightarrow> inj_on (elem_key hp) (set xs) \<Longrightarrow>
   (\<And>a. a \<in> set xs \<Longrightarrow> map_option e_data (hp a) \<noteq> Some 0) \<Longrightarrow> hash_ok schar hp pH xs"
  using table_okD(6) unfolding hash_ok_def by metis

text \<open>A search finds the one element with the key, if there is one.\<close>

lemma Find_table:
  assumes ok: "table_ok schar hp pH xs" and v: "key_valid (keyClass pH) k n" and inj: "inj_on (elem_key hp) (set xs)"
  shows "\<exists>r. fts3FindElementByHash hp pH k n (ftsHashFunction schar (keyClass pH) k n mod htsize pH) = Some r \<and>
    (\<forall>a. r = Some a \<longleftrightarrow> a \<in> set xs \<and> elem_key hp a = octets_of k n)"
proof -
  let ?h = "ftsHashFunction schar (keyClass pH) k n mod htsize pH"
  let ?P = "\<lambda>a. ftsCompareFunction (keyClass pH) (e_pKey (the (hp a))) (e_nKey (the (hp a))) k n = 0"
  obtain t where t: "ht pH = Some t" "length t = htsize pH"
    and b: "\<And>h. h < htsize pH \<Longrightarrow> bucket_ok xs (t ! h) {a \<in> set xs. elem_hash schar (keyClass pH) hp a mod htsize pH = h}"
    using ok by (auto simp: table_ok_def)
  have h: "?h < htsize pH" using table_okD(5) [OF ok] by simp
  obtain ys seg zs where s: "xs = ys @ seg @ zs" "t ! ?h = (int (length seg), hdo seg None)"
    "set seg = {a \<in> set xs. elem_hash schar (keyClass pH) hp a mod htsize pH = ?h}"
    using b [OF h] by (cases "t ! ?h") (auto simp: bucket_ok_def)
  have P: "?P a \<longleftrightarrow> elem_key hp a = octets_of k n" if a: "a \<in> set xs" for a
  proof -
    obtain e where "hp a = Some e" "key_valid (keyClass pH) (e_pKey e) (e_nKey e)"
      using table_okD(4) [OF ok] a by (fastforce simp: elem_valid_def split: option.splits)
    then show ?thesis using compare_zero v by (simp add: elem_key_def)
  qed
  have H: "elem_hash schar (keyClass pH) hp a = ftsHashFunction schar (keyClass pH) k n"
    if a: "a \<in> set xs" "elem_key hp a = octets_of k n" for a
  proof -
    obtain e where "hp a = Some e" "key_valid (keyClass pH) (e_pKey e) (e_nKey e)"
      using table_okD(4) [OF ok] a(1) by (fastforce simp: elem_valid_def split: option.splits)
    then show ?thesis using hash_key [OF _ v] a(2) by (simp add: elem_key_def elem_hash_def)
  qed
  have "linked hp (lasto None ys) (seg @ zs) None" using table_okD(1) [OF ok] s(1) by simp
  from find_loop_ok [OF this] have loop: "find_loop (ftsCompareFunction (keyClass pH)) hp k n (int (length seg)) (hdo seg None) = Some (List.find ?P seg)"
    by (cases seg) (simp_all add: find_loop.simps)
  have "List.find ?P seg = Some a \<longleftrightarrow> a \<in> set xs \<and> elem_key hp a = octets_of k n" for a
  proof
    assume "List.find ?P seg = Some a"
    then have "a \<in> set seg" "?P a" by (auto simp: find_Some_iff)
    then show "a \<in> set xs \<and> elem_key hp a = octets_of k n" using s(3) P by auto
  next
    assume a: "a \<in> set xs \<and> elem_key hp a = octets_of k n"
    then have "a \<in> set seg" "?P a" using s(3) H P by auto
    then have "List.find ?P seg \<noteq> None" by (auto simp: find_None_iff)
    then obtain a' where a': "List.find ?P seg = Some a'" by blast
    then have "a' \<in> set seg" "?P a'" by (auto simp: find_Some_iff)
    then have "a' \<in> set xs" "elem_key hp a' = octets_of k n" using s(3) P by auto
    with a inj have "a' = a" by (metis inj_onD)
    with a' show "List.find ?P seg = Some a" by simp
  qed
  moreover have "fts3FindElementByHash hp pH k n ?h = Some (List.find ?P seg)"
    using t h s(2) loop by (simp add: fts3FindElementByHash_def bucket_def)
  ultimately show ?thesis by blast
qed

section \<open>The operations keep the invariant\<close>

lemma Rehash_ok:
  assumes "linked hp None xs None" "distinct xs" "first pH = hdo xs None" "\<forall>a \<in> set xs. elem_valid (keyClass pH) hp a"
    and "new_size = 2 ^ k"
  shows "\<exists>hp' pH' xs'. fts3Rehash schar True hp pH new_size = Some (False, hp', pH') \<and> table_ok schar hp' pH' xs' \<and>
     set xs' = set xs \<and> same_content hp hp' UNIV \<and> (\<forall>a. a \<notin> set xs \<longrightarrow> hp' a = hp a) \<and>
     keyClass pH' = keyClass pH \<and> copyKey pH' = copyKey pH \<and> count pH' = count pH \<and> htsize pH' = new_size"
proof -
  let ?pH = "pH\<lparr>ht := Some (replicate new_size (0, None)), htsize := new_size, first := None\<rparr>"
  have "table_ok schar hp ?pH []" using assms(5) by (auto simp: table_ok_def bucket_ok_def)
  from rehash_loop_ok [OF this linked_chained [OF assms(1)]] assms(2-4) show ?thesis
    by (auto simp: fts3Rehash_def)
qed

lemma Clear_table:
  assumes "table_ok schar hp pH xs"
  shows "sqlite3Fts3HashClear hp pH =
    Some (\<lambda>a. if a \<in> set xs then None else hp a, sqlite3Fts3HashInit (keyClass pH) (copyKey pH))"
  using free_loop_ok [OF linked_chained, of hp None xs] table_okD [OF assms]
  by (simp add: sqlite3Fts3HashClear_def sqlite3Fts3HashInit_def)

lemma Clear_ok:
  assumes "hash_ok schar hp pH xs"
  shows "sqlite3Fts3HashClear hp pH =
    Some (\<lambda>a. if a \<in> set xs then None else hp a, sqlite3Fts3HashInit (keyClass pH) (copyKey pH))"
  using assms
proof (cases rule: hash_ok_cases)
  case empty
  then show ?thesis by (simp add: free_loop.simps sqlite3Fts3HashClear_def sqlite3Fts3HashInit_def)
next
  case table
  from Clear_table [OF table(2)] show ?thesis .
qed

text \<open>The removal up to the test of the count.\<close>

lemma Remove_table:
  assumes ok: "table_ok schar hp pH xs"
    and a: "a \<in> set xs" and h: "h = elem_hash schar (keyClass pH) hp a mod htsize pH"
  shows "\<exists>hp' pH' xs'. fts3RemoveElementByHash hp pH a h =
      (if count pH - 1 \<le> 0 then sqlite3Fts3HashClear hp' pH' else Some (hp', pH')) \<and>
    table_ok schar hp' pH' xs' \<and> set xs' = set xs - {a} \<and> length xs = Suc (length xs') \<and>
    same_content hp hp' (UNIV - {a}) \<and> hp' a = None \<and> count pH' = count pH - 1 \<and>
    keyClass pH' = keyClass pH \<and> copyKey pH' = copyKey pH"
proof -
  let ?H = "\<lambda>hp a. elem_hash schar (keyClass pH) hp a mod htsize pH"
  obtain t where t: "ht pH = Some t" "length t = htsize pH" and b: "\<And>h. h < htsize pH \<Longrightarrow> bucket_ok xs (t ! h) {a \<in> set xs. ?H hp a = h}"
    and l: "linked hp None xs None" "distinct xs" "first pH = hdo xs None" and v: "\<forall>a \<in> set xs. elem_valid (keyClass pH) hp a"
    and p2: "\<exists>k. htsize pH = 2 ^ k" using ok by (auto simp: table_ok_def)
  have hl: "h < htsize pH" using p2 h by auto
  obtain us seg vs where s: "xs = us @ seg @ vs" "t ! h = (int (length seg), hdo seg None)" "set seg = {a \<in> set xs. ?H hp a = h}"
    using b [OF hl] by (cases "t ! h") (auto simp: bucket_ok_def)
  have "a \<in> set seg" unfolding s(3) using a h by simp
  then obtain s1 s2 where sg: "seg = s1 @ a # s2" by (auto dest: split_list)
  let ?ys = "us @ s1" and ?zs = "s2 @ vs"
  let ?xs = "?ys @ ?zs"
  have x: "xs = ?ys @ a # ?zs" using s(1) sg by simp
  obtain e where e: "hp a = Some e" using v a by (auto simp: elem_valid_def split: option.splits)
  obtain hp1 where r: "remove_links hp (first pH) e = Some (hp1, hdo ?xs None)" "linked (hp1(a := None)) None ?xs None"
    "same_content hp (hp1(a := None)) (UNIV - {a})"
    using remove_links_list [of hp ?ys a ?zs e] l e unfolding x by auto
  define hp2 where "hp2 = hp1(a := None)"
  define seg' where "seg' = s1 @ s2"
  have nx: "e_next e = hdo ?zs None" using l(1) e unfolding x by simp
  have nd: "a \<notin> set ?xs" "distinct ?xs" using l(2) unfolding x by auto
  have set: "set ?xs = set xs - {a}" using x nd by auto
  have same: "?H hp2 c = ?H hp c" "elem_valid (keyClass pH) hp2 c = elem_valid (keyClass pH) hp c" "elem_key hp2 c = elem_key hp c"
    "map_option e_data (hp2 c) = map_option e_data (hp c)" if "c \<in> set ?xs" for c
  proof -
    have "c \<in> UNIV - {a}" using that nd(1) by auto
    from same_contentD [OF r(3) this]
    show "?H hp2 c = ?H hp c" "elem_valid (keyClass pH) hp2 c = elem_valid (keyClass pH) hp c" "elem_key hp2 c = elem_key hp c"
      "map_option e_data (hp2 c) = map_option e_data (hp c)" unfolding hp2_def by simp_all
  qed
  define n where "n = int (length seg)"
  define ch where "ch = (if n - 1 \<le> 0 then None else if hdo seg None = Some a then e_next e else hdo seg None)"
  have ch: "n - 1 = int (length seg')" "ch = hdo seg' None"
  proof -
    show n: "n - 1 = int (length seg')" by (simp add: n_def seg'_def sg)
    show "ch = hdo seg' None"
    proof (cases s1)
      case Nil
      then show ?thesis using n nx by (cases s2) (simp_all add: ch_def seg'_def sg)
    next
      case (Cons c s1')
      then have "c \<noteq> a" using l(2) unfolding x by auto
      then show ?thesis using n Cons by (simp add: ch_def seg'_def sg)
    qed
  qed
  let ?t = "t[h := (n - 1, ch)]"
  let ?pH = "pH\<lparr>first := hdo ?xs None, ht := Some ?t, count := count pH - 1\<rparr>"
  have bk: "bucket_ok ?xs (?t ! h') {c \<in> set ?xs. ?H hp2 c = h'}" if hh: "h' < htsize pH" for h'
  proof (cases "h' = h")
    case True
    have "{c \<in> set ?xs. ?H hp2 c = h} = set seg'"
    proof -
      have "{c \<in> set ?xs. ?H hp2 c = h} = {c \<in> set ?xs. ?H hp c = h}" using same(1) by auto
      also have "\<dots> = set seg - {a}" unfolding set s(3) by auto
      finally show ?thesis using nd by (auto simp: seg'_def sg)
    qed
    moreover have "?xs = us @ seg' @ vs" by (simp add: seg'_def)
    ultimately show ?thesis using True hl t(2) ch unfolding bucket_ok_def
      by (intro exI [of _ us] exI [of _ seg'] exI [of _ vs]) simp
  next
    case False
    obtain us' g vs' where g: "xs = us' @ g @ vs'" "t ! h' = (int (length g), hdo g None)" "set g = {a \<in> set xs. ?H hp a = h'}"
      using b [OF hh] by (cases "t ! h'") (auto simp: bucket_ok_def)
    have "a \<notin> set g" using g(3) h False by simp
    then have "\<exists>p q. ?xs = p @ g @ q" using segment_remove [of ?ys a ?zs us' g vs'] g(1) x by simp
    moreover have "{c \<in> set ?xs. ?H hp2 c = h'} = set g"
    proof -
      have "{c \<in> set ?xs. ?H hp2 c = h'} = {c \<in> set ?xs. ?H hp c = h'}" using same(1) by auto
      also have "\<dots> = set g" unfolding set g(3) using h False by auto
      finally show ?thesis .
    qed
    moreover have "?t ! h' = (int (length g), hdo g None)" using False g(2) by simp
    ultimately show ?thesis unfolding bucket_ok_def by (metis fst_conv snd_conv)
  qed
  have tb: "table_ok schar hp2 ?pH ?xs"
    unfolding table_ok_def using r(2) nd(2) v set same(2) p2 t bk by (auto simp: hp2_def)
  have rem: "fts3RemoveElementByHash hp pH a h =
      (if count pH - 1 \<le> 0 then sqlite3Fts3HashClear hp2 ?pH else Some (hp2, ?pH))"
    using e r(1) t hl s(2)
    by (simp add: fts3RemoveElementByHash_def bucket_def set_bucket_def hp2_def ch_def n_def Let_def)
  have sc: "same_content hp hp2 (UNIV - {a})" "hp2 a = None" using r(3) by (simp_all add: hp2_def)
  have "length xs = Suc (length ?xs)" using x by simp
  with rem tb sc set show ?thesis by (intro exI [of _ hp2] exI [of _ ?pH] exI [of _ ?xs]) simp
qed

lemma Remove_ok:
  assumes ok: "table_ok schar hp pH xs" "count pH = int (length xs)" "inj_on (elem_key hp) (set xs)"
      "\<forall>a \<in> set xs. map_option e_data (hp a) \<noteq> Some 0"
    and a: "a \<in> set xs" and h: "h = elem_hash schar (keyClass pH) hp a mod htsize pH"
  shows "\<exists>hp' pH' xs'. fts3RemoveElementByHash hp pH a h = Some (hp', pH') \<and> hash_ok schar hp' pH' xs' \<and>
    set xs' = set xs - {a} \<and> same_content hp hp' (UNIV - {a}) \<and> hp' a = None \<and> keyClass pH' = keyClass pH"
proof -
  from Remove_table [OF ok(1) a h] obtain hp2 pH2 xs2 where
    rem: "fts3RemoveElementByHash hp pH a h = (if count pH - 1 \<le> 0 then sqlite3Fts3HashClear hp2 pH2 else Some (hp2, pH2))"
    and tb: "table_ok schar hp2 pH2 xs2" and set: "set xs2 = set xs - {a}" and len: "length xs = Suc (length xs2)"
    and sc: "same_content hp hp2 (UNIV - {a})" "hp2 a = None" and cnt: "count pH2 = count pH - 1"
    and kc: "keyClass pH2 = keyClass pH" by blast
  note same = same_contentD [OF sc(1)]
  have hk: "hash_ok schar hp2 pH2 xs2"
  proof (rule hash_ok_tableI [OF tb])
    have "inj_on (elem_key hp2) (set xs2) = inj_on (elem_key hp) (set xs2)"
      by (rule inj_on_cong) (rule same(1), use set in auto)
    moreover have "set xs2 \<subseteq> set xs" unfolding set by blast
    ultimately show "inj_on (elem_key hp2) (set xs2)" using inj_on_subset [OF ok(3)] by simp
    show "map_option e_data (hp2 c) \<noteq> Some 0" if "c \<in> set xs2" for c
      using same(4) [of c] ok(4) that set by auto
    show "count pH2 = int (length xs2)" using cnt ok(2) len by simp
  qed
  show ?thesis
  proof (cases "count pH - 1 \<le> 0")
    case False
    with rem hk sc set kc show ?thesis by (intro exI [of _ hp2] exI [of _ pH2] exI [of _ xs2]) simp
  next
    case True
    then have nil: "xs2 = []" using ok(2) len by simp
    have "sqlite3Fts3HashClear hp2 pH2 = Some (hp2, sqlite3Fts3HashInit (keyClass pH2) (copyKey pH2))"
      using Clear_table [OF tb] unfolding nil by simp
    moreover have "hash_ok schar hp2 (sqlite3Fts3HashInit (keyClass pH2) (copyKey pH2)) []"
      by (simp add: hash_ok_def sqlite3Fts3HashInit_def)
    ultimately show ?thesis using rem True sc set nil kc
      by (intro exI [of _ hp2] exI [of _ "sqlite3Fts3HashInit (keyClass pH2) (copyKey pH2)"] exI [of _ "[]"])
        (simp add: sqlite3Fts3HashInit_def)
  qed
qed

lemma grow_ok:
  assumes ok: "hash_ok schar hp pH xs" and al: "al_ht1 al" "al_ht2 al"
  shows "\<exists>hp' pH' xs'. grow schar al hp pH = Some (False, hp', pH') \<and> table_ok schar hp' pH' xs' \<and>
     set xs' = set xs \<and> same_content hp hp' UNIV \<and> (\<forall>a. a \<notin> set xs \<longrightarrow> hp' a = hp a) \<and>
     keyClass pH' = keyClass pH \<and> copyKey pH' = copyKey pH \<and> count pH' = count pH"
  using ok
proof (cases rule: hash_ok_cases)
  case empty
  have "(8::nat) = 2 ^ 3" by simp
  from Rehash_ok [of hp "[]" pH 8 3 schar] empty obtain hp' pH' xs' where
    "fts3Rehash schar True hp pH 8 = Some (False, hp', pH')" "table_ok schar hp' pH' xs'" "set xs' = set []"
    "same_content hp hp' UNIV" "\<forall>a. a \<notin> set [] \<longrightarrow> hp' a = hp a" "keyClass pH' = keyClass pH" "copyKey pH' = copyKey pH"
    "count pH' = count pH" "htsize pH' = 8" by auto
  with empty al show ?thesis by (auto simp: grow_def)
next
  case table
  note t = table_okD [OF table(2)]
  show ?thesis
  proof (cases "count pH \<ge> int (htsize pH)")
    case False
    with table t show ?thesis by (auto simp: grow_def)
  next
    case True
    obtain k where "htsize pH = 2 ^ k" using table(2) by (auto simp: table_ok_def)
    then have "htsize pH * 2 = 2 ^ Suc k" by simp
    from Rehash_ok [OF t(1-4) this, of schar] obtain hp' pH' xs' where
      "fts3Rehash schar True hp pH (htsize pH * 2) = Some (False, hp', pH')" "table_ok schar hp' pH' xs'" "set xs' = set xs"
      "same_content hp hp' UNIV" "\<forall>a. a \<notin> set xs \<longrightarrow> hp' a = hp a" "keyClass pH' = keyClass pH" "copyKey pH' = copyKey pH"
      "count pH' = count pH" by auto
    with True al t(5) show ?thesis by (auto simp: grow_def)
  qed
qed

lemma linked_data: "hp a = Some e \<Longrightarrow> linked (hp(a := Some (e\<lparr>e_data := d\<rparr>))) pv xs nx = linked hp pv xs nx"
  by (induction xs arbitrary: pv) (auto split: option.split)

lemma elem_data:
  assumes "hp a = Some e"
  shows "elem_key (hp(a := Some (e\<lparr>e_data := d\<rparr>))) = elem_key hp"
    "elem_hash schar kc (hp(a := Some (e\<lparr>e_data := d\<rparr>))) = elem_hash schar kc hp"
    "elem_valid kc (hp(a := Some (e\<lparr>e_data := d\<rparr>))) = elem_valid kc hp"
  using assms by (auto simp: fun_eq_iff elem_key_def elem_hash_def elem_valid_def)

lemma table_ok_data: "hp a = Some e \<Longrightarrow> table_ok schar (hp(a := Some (e\<lparr>e_data := d\<rparr>))) pH xs = table_ok schar hp pH xs"
  by (simp add: table_ok_def linked_data elem_data)

lemma elem_other:
  "b \<noteq> a \<Longrightarrow> elem_key (hp(a := x)) b = elem_key hp b"
  "b \<noteq> a \<Longrightarrow> elem_hash schar kc (hp(a := x)) b = elem_hash schar kc hp b"
  "b \<noteq> a \<Longrightarrow> elem_valid kc (hp(a := x)) b = elem_valid kc hp b"
  by (simp_all add: elem_key_def elem_hash_def elem_valid_def)

lemma table_ok_other:
  assumes "a \<notin> set xs" shows "table_ok schar (hp(a := x)) (pH\<lparr>count := n\<rparr>) xs = table_ok schar hp pH xs"
proof -
  have ne: "b \<noteq> a" if "b \<in> set xs" for b using that assms by auto
  then have "{b \<in> set xs. elem_hash schar (keyClass pH) (hp(a := x)) b mod htsize pH = h} =
      {b \<in> set xs. elem_hash schar (keyClass pH) hp b mod htsize pH = h}" for h
    using elem_other(2) by metis
  moreover have "(\<forall>b \<in> set xs. elem_valid (keyClass pH) (hp(a := x)) b) = (\<forall>b \<in> set xs. elem_valid (keyClass pH) hp b)"
    using ne elem_other(3) by metis
  ultimately show ?thesis using assms by (simp add: table_ok_def)
qed

lemma table_ok_alloc: "table_ok schar hp pH xs \<Longrightarrow> hp a = None \<Longrightarrow> a \<notin> set xs"
  using linked_Some table_okD(1) by fastforce

text \<open>Insertion of a key that is not in the table, when every allocation succeeds.\<close>

lemma Insert_new:
  assumes ok: "hash_ok schar hp pH xs" and v: "key_valid (keyClass pH) k n" and new: "octets_of k n \<notin> elem_key hp ` set xs"
    and al: "al_ht1 al" "al_ht2 al" "al_elem al = Some a" "al_key al" and a: "hp a = None" and d: "data \<noteq> 0"
    and find: "fts3FindElementByHash hp pH k n (if htsize pH = 0 then ftsHashFunction schar (keyClass pH) k n
      else ftsHashFunction schar (keyClass pH) k n mod htsize pH) = Some None"
  shows "\<exists>hp' pH' xs'. sqlite3Fts3HashInsert schar al hp pH k n data = Some (0, hp', pH') \<and> hash_ok schar hp' pH' xs' \<and>
    set xs' = insert a (set xs) \<and> a \<notin> set xs \<and> same_content hp hp' (set xs) \<and> elem_key hp' a = octets_of k n \<and>
    map_option e_data (hp' a) = Some data \<and> keyClass pH' = keyClass pH"
proof -
  from grow_ok [OF ok al(1,2)] obtain hp1 pH1 xs1 where g: "grow schar al hp pH = Some (False, hp1, pH1)" "table_ok schar hp1 pH1 xs1"
    "set xs1 = set xs" "same_content hp hp1 UNIV" "\<forall>a. a \<notin> set xs \<longrightarrow> hp1 a = hp a" "keyClass pH1 = keyClass pH"
    "copyKey pH1 = copyKey pH" "count pH1 = count pH" by blast
  have cnt: "count pH = int (length xs)" and dx: "distinct xs" and inj: "inj_on (elem_key hp) (set xs)"
    and nz: "\<forall>a \<in> set xs. map_option e_data (hp a) \<noteq> Some 0"
    using ok by (cases rule: hash_ok_cases; auto dest: table_okD)+
  have "a \<notin> set xs"
  proof -
    have "a \<notin> set xs1 \<or> hp1 a \<noteq> None" using table_ok_alloc [OF g(2)] by blast
    moreover have "map_option (\<lambda>e. (e_data e, e_pKey e, e_nKey e)) (hp1 a) = map_option (\<lambda>e. (e_data e, e_pKey e, e_nKey e)) (hp a)"
      using g(4) by (simp add: same_content_def)
    ultimately show ?thesis using g(3) a by simp
  qed
  then have a1: "a \<notin> set xs1" using g(3) by simp
  define el where "el = \<lparr>e_next = None, e_prev = None, e_data = 0, e_pKey = (if copyKey pH1 then take (nat n) k else k), e_nKey = n\<rparr>"
  define hp2 where "hp2 = hp1(a := Some el)"
  define pH2 where "pH2 = pH1\<lparr>count := count pH1 + 1\<rparr>"
  have ek: "octets_of (e_pKey el) (e_nKey el) = octets_of k n" by (simp add: el_def)
  have el: "key_valid (keyClass pH) (e_pKey el) (e_nKey el)" using v by (simp add: el_def key_valid_def)
  have t2: "table_ok schar hp2 pH2 xs1" unfolding hp2_def pH2_def using table_ok_other [OF a1] g(2) by simp
  have v2: "elem_valid (keyClass pH2) hp2 a" using el g(6) by (simp add: elem_valid_def hp2_def pH2_def)
  have h: "elem_hash schar (keyClass pH2) hp2 a = ftsHashFunction schar (keyClass pH) k n"
    using hash_key [OF el v ek] g(6) by (simp add: elem_hash_def hp2_def pH2_def)
  from InsertElement_ok [OF t2 a1 v2 refl] obtain hp3 pH3 xs3 where
    i: "fts3HashInsertElement hp2 pH2 (ftsHashFunction schar (keyClass pH) k n mod htsize pH2) a = Some (hp3, pH3)"
      "table_ok schar hp3 pH3 xs3" "set xs3 = insert a (set xs1)" "same_content hp2 hp3 UNIV"
      "keyClass pH3 = keyClass pH2" "count pH3 = count pH2" unfolding h by blast
  obtain e3 where e3: "hp3 a = Some e3"
    using linked_Some [OF table_okD(1) [OF i(2)], of a] i(3) by auto
  define hp4 where "hp4 = hp3(a := Some (e3\<lparr>e_data := data\<rparr>))"
  have run: "sqlite3Fts3HashInsert schar al hp pH k n data = Some (0, hp4, pH3)"
    using find d g(1) al i(1) e3
    by (simp add: sqlite3Fts3HashInsert_def Let_def hp2_def pH2_def hp4_def el_def upd_elem_def)
  have ka: "elem_key hp4 a = octets_of k n"
    using same_contentD(1) [OF i(4), of a] ek e3 elem_data(1) [of hp3 a e3 data]
    by (simp add: hp4_def elem_key_def hp2_def)
  have sc: "same_content hp hp4 (set xs)"
  proof -
    have "hp4 b = hp3 b" "hp2 b = hp1 b" if "b \<in> set xs" for b using that \<open>a \<notin> set xs\<close> by (auto simp: hp4_def hp2_def)
    with g(4) i(4) show ?thesis by (simp add: same_content_def)
  qed
  have t4: "table_ok schar hp4 pH3 xs3" unfolding hp4_def using table_ok_data [of hp3 a e3] e3 i(2) by simp
  have set3: "set xs3 = insert a (set xs)" using i(3) g(3) by simp
  have "hash_ok schar hp4 pH3 xs3"
  proof -
    have "length xs3 = Suc (length xs)"
      using set3 \<open>a \<notin> set xs\<close> distinct_card [OF dx] distinct_card [OF table_okD(2) [OF t4]] by simp
    then have "count pH3 = int (length xs3)" using cnt g(8) i(6) by (simp add: pH2_def)
    moreover have "inj_on (elem_key hp4) (set xs3)"
    proof -
      have "elem_key hp4 b = elem_key hp b" if "b \<in> set xs" for b using same_contentD(1) [OF sc that] .
      then have "inj_on (elem_key hp4) (set xs)" "elem_key hp4 ` set xs = elem_key hp ` set xs"
        using inj by (auto simp: inj_on_def)
      then show ?thesis unfolding set3 using new ka by (auto simp: inj_on_insert)
    qed
    moreover have "\<forall>b \<in> set xs3. map_option e_data (hp4 b) \<noteq> Some 0"
    proof
      fix b assume "b \<in> set xs3"
      then consider "b = a" | "b \<in> set xs" using set3 by blast
      then show "map_option e_data (hp4 b) \<noteq> Some 0"
        by cases (use d nz same_contentD(4) [OF sc] in \<open>simp_all add: hp4_def\<close>)
    qed
    ultimately show ?thesis using hash_ok_tableI [OF t4] by blast
  qed
  with run set3 \<open>a \<notin> set xs\<close> sc ka show ?thesis using i(5) g(6) by (auto simp: hp4_def pH2_def)
qed

section \<open>The table as a map\<close>

definition val :: "nat option \<Rightarrow> nat" where
  "val x = (case x of None \<Rightarrow> 0 | Some d \<Rightarrow> d)"

abbreviation (input) put_map :: "(bytes \<Rightarrow> nat option) \<Rightarrow> bytes \<Rightarrow> nat \<Rightarrow> (bytes \<Rightarrow> nat option)" where
  "put_map m k d \<equiv> m(k := if d = 0 then None else Some d)"

definition alloc_good :: "heap \<Rightarrow> allocs \<Rightarrow> bool" where
  "alloc_good hp al \<longleftrightarrow> al_ht1 al \<and> al_ht2 al \<and> al_key al \<and> (case al_elem al of None \<Rightarrow> False | Some a \<Rightarrow> hp a = None)"

definition edata :: "heap \<Rightarrow> nat \<Rightarrow> nat option" where
  "edata hp a = map_option e_data (hp a)"

definition contents :: "heap \<Rightarrow> nat list \<Rightarrow> (bytes \<Rightarrow> nat option) \<Rightarrow> bool" where
  "contents hp xs m \<longleftrightarrow> (\<forall>k d. m k = Some d \<longleftrightarrow> (\<exists>a \<in> set xs. elem_key hp a = k \<and> edata hp a = Some d))"

lemma represents_iff: "represents schar hp pH m \<longleftrightarrow> (\<exists>xs. hash_ok schar hp pH xs \<and> contents hp xs m)"
  by (simp add: represents_def contents_def edata_def)

lemma contents_find:
  assumes ok: "hash_ok schar hp pH xs" and m: "contents hp xs m"
  shows "a \<in> set xs \<Longrightarrow> elem_key hp a = k \<Longrightarrow> \<exists>e. hp a = Some e \<and> m k = Some (e_data e)"
    and "k \<notin> elem_key hp ` set xs \<Longrightarrow> m k = None"
proof -
  assume a: "a \<in> set xs" "elem_key hp a = k"
  have "hp a \<noteq> None" using ok a(1) by (cases rule: hash_ok_cases) (auto dest!: table_okD(1) linked_Some)
  then obtain e where e: "hp a = Some e" by auto
  then have "edata hp a = Some (e_data e)" by (simp add: edata_def)
  with a m have "m k = Some (e_data e)" unfolding contents_def by blast
  with e show "\<exists>e. hp a = Some e \<and> m k = Some (e_data e)" by simp
next
  assume "k \<notin> elem_key hp ` set xs"
  with m show "m k = None" unfolding contents_def by (metis image_eqI not_None_eq)
qed

lemma contents_minus:
  assumes m: "contents hp xs m" and inj: "inj_on (elem_key hp) (set xs)" and a: "a \<in> set xs" "elem_key hp a = k"
  shows "(\<exists>b \<in> set xs - {a}. elem_key hp b = k' \<and> edata hp b = Some d') \<longleftrightarrow> k' \<noteq> k \<and> m k' = Some d'"
proof
  assume "\<exists>b \<in> set xs - {a}. elem_key hp b = k' \<and> edata hp b = Some d'"
  then obtain b where b: "b \<in> set xs" "b \<noteq> a" "elem_key hp b = k'" "edata hp b = Some d'" by blast
  then have "m k' = Some d'" using m unfolding contents_def by blast
  moreover have "k' \<noteq> k" using inj_onD [OF inj, of b a] b a by auto
  ultimately show "k' \<noteq> k \<and> m k' = Some d'" by simp
next
  assume k: "k' \<noteq> k \<and> m k' = Some d'"
  then obtain b where "b \<in> set xs" "elem_key hp b = k'" "edata hp b = Some d'" using m unfolding contents_def by blast
  with k a show "\<exists>b \<in> set xs - {a}. elem_key hp b = k' \<and> edata hp b = Some d'" by auto
qed

text \<open>What the search of an operation finds.\<close>

lemma Find_hash:
  assumes ok: "hash_ok schar hp pH xs" and v: "key_valid (keyClass pH) k n"
  defines "h \<equiv> (if htsize pH = 0 then ftsHashFunction schar (keyClass pH) k n
      else ftsHashFunction schar (keyClass pH) k n mod htsize pH)"
  shows "\<exists>r. fts3FindElementByHash hp pH k n h = Some r \<and> (\<forall>a. r = Some a \<longleftrightarrow> a \<in> set xs \<and> elem_key hp a = octets_of k n)"
  using ok
proof (cases rule: hash_ok_cases)
  case empty
  then show ?thesis by (simp add: fts3FindElementByHash_def)
next
  case table
  then have "0 < htsize pH" using table_okD(5) by blast
  with Find_table [OF table(2) v table(4)] show ?thesis by (simp add: h_def)
qed

lemma Find_represents:
  assumes "represents schar hp pH m" and v: "key_valid (keyClass pH) k n"
  shows "sqlite3Fts3HashFind schar hp pH k n = Some (val (m (octets_of k n)))"
proof -
  from assms(1) obtain xs where ok: "hash_ok schar hp pH xs" and m: "contents hp xs m" by (auto simp: represents_iff)
  from Find_hash [OF ok v] obtain r where r: "fts3FindElementByHash hp pH k n (if htsize pH = 0 then ftsHashFunction schar (keyClass pH) k n
      else ftsHashFunction schar (keyClass pH) k n mod htsize pH) = Some r"
    and R: "\<And>a. r = Some a \<longleftrightarrow> a \<in> set xs \<and> elem_key hp a = octets_of k n" by blast
  have f: "sqlite3Fts3HashFindElem schar hp pH k n = Some r"
    using r ok by (auto simp: sqlite3Fts3HashFindElem_def fts3FindElementByHash_def hash_ok_def table_ok_def split: if_splits)
  show ?thesis
  proof (cases r)
    case None
    then have "octets_of k n \<notin> elem_key hp ` set xs" using R by fastforce
    with contents_find(2) [OF ok m] f None show ?thesis by (simp add: sqlite3Fts3HashFind_def val_def)
  next
    case (Some a)
    then have "a \<in> set xs" "elem_key hp a = octets_of k n" using R by auto
    from contents_find(1) [OF ok m this] obtain e where "hp a = Some e" "m (octets_of k n) = Some (e_data e)" by blast
    with f Some show ?thesis by (simp add: sqlite3Fts3HashFind_def val_def)
  qed
qed

lemma Insert_represents:
  assumes rep: "represents schar hp pH m" and v: "key_valid (keyClass pH) k n" and al: "alloc_good hp al"
  shows "\<exists>hp' pH'. sqlite3Fts3HashInsert schar al hp pH k n d = Some (val (m (octets_of k n)), hp', pH') \<and>
    represents schar hp' pH' (put_map m (octets_of k n) d) \<and> keyClass pH' = keyClass pH"
proof -
  let ?k = "octets_of k n"
  from rep obtain xs where ok: "hash_ok schar hp pH xs" and m: "contents hp xs m" by (auto simp: represents_iff)
  from Find_hash [OF ok v] obtain r where r: "fts3FindElementByHash hp pH k n (if htsize pH = 0 then ftsHashFunction schar (keyClass pH) k n
      else ftsHashFunction schar (keyClass pH) k n mod htsize pH) = Some r"
    and R: "\<And>a. r = Some a \<longleftrightarrow> a \<in> set xs \<and> elem_key hp a = ?k" by blast
  show ?thesis
  proof (cases r)
    case None
    then have new: "?k \<notin> elem_key hp ` set xs" using R by fastforce
    then have mk: "m ?k = None" by (rule contents_find(2) [OF ok m])
    show ?thesis
    proof (cases "d = 0")
      case True
      with r None rep mk show ?thesis by (auto simp: sqlite3Fts3HashInsert_def val_def Let_def fun_upd_idem)
    next
      case False
      from al obtain a where "al_ht1 al" "al_ht2 al" "al_elem al = Some a" "al_key al" "hp a = None"
        by (auto simp: alloc_good_def split: option.splits)
      from Insert_new [OF ok v new this False] r None obtain hp' pH' xs' where
        i: "sqlite3Fts3HashInsert schar al hp pH k n d = Some (0, hp', pH')" "hash_ok schar hp' pH' xs'" "set xs' = insert a (set xs)"
          "a \<notin> set xs" "same_content hp hp' (set xs)" "elem_key hp' a = ?k" "edata hp' a = Some d" "keyClass pH' = keyClass pH"
        unfolding edata_def by metis
      have "contents hp' xs' (put_map m ?k d)"
        unfolding contents_def
      proof (intro allI)
        fix k' d'
        have "(\<exists>b \<in> set xs'. elem_key hp' b = k' \<and> edata hp' b = Some d') \<longleftrightarrow>
            ?k = k' \<and> d = d' \<or> (\<exists>b \<in> set xs. elem_key hp b = k' \<and> edata hp b = Some d')"
          unfolding i(3) using i(6,7) same_contentD(1,4) [OF i(5), folded edata_def] by auto
        also have "\<dots> \<longleftrightarrow> put_map m ?k d k' = Some d'"
          using m [unfolded contents_def, rule_format, of k' d', symmetric] mk False by auto
        finally show "put_map m ?k d k' = Some d' \<longleftrightarrow> (\<exists>b \<in> set xs'. elem_key hp' b = k' \<and> edata hp' b = Some d')" by blast
      qed
      with i mk show ?thesis by (auto simp: represents_iff val_def)
    qed
  next
    case (Some a)
    then have a: "a \<in> set xs" "elem_key hp a = ?k" using R by auto
    obtain e where e: "hp a = Some e" and mk: "m ?k = Some (e_data e)" using contents_find(1) [OF ok m a] by blast
    from ok a(1) obtain tb: "table_ok schar hp pH xs" "count pH = int (length xs)" "inj_on (elem_key hp) (set xs)"
      "\<forall>a \<in> set xs. map_option e_data (hp a) \<noteq> Some 0" by (cases rule: hash_ok_cases) auto
    note h0 = table_okD(5) [OF tb(1)]
    show ?thesis
    proof (cases "d = 0")
      case True
      obtain "key_valid (keyClass pH) (e_pKey e) (e_nKey e)"
        using table_okD(4) [OF tb(1)] a(1) e by (auto simp: elem_valid_def)
      then have "elem_hash schar (keyClass pH) hp a = ftsHashFunction schar (keyClass pH) k n"
        using hash_key [OF _ v] a(2) e by (simp add: elem_hash_def elem_key_def)
      from Remove_ok [OF tb a(1) refl, unfolded this] obtain hp' pH' xs' where
        i: "fts3RemoveElementByHash hp pH a (ftsHashFunction schar (keyClass pH) k n mod htsize pH) = Some (hp', pH')"
          "hash_ok schar hp' pH' xs'" "set xs' = set xs - {a}" "same_content hp hp' (UNIV - {a})" "keyClass pH' = keyClass pH" by blast
      have "contents hp' xs' (put_map m ?k d)"
        unfolding contents_def
      proof (intro allI)
        fix k' d'
        have "(\<exists>b \<in> set xs'. elem_key hp' b = k' \<and> edata hp' b = Some d') \<longleftrightarrow>
            (\<exists>b \<in> set xs - {a}. elem_key hp b = k' \<and> edata hp b = Some d')"
          unfolding i(3) using same_contentD(1,4) [OF i(4), folded edata_def] by auto
        also have "\<dots> \<longleftrightarrow> k' \<noteq> ?k \<and> m k' = Some d'"
          unfolding contents_minus [OF m tb(3) a] ..
        finally show "put_map m ?k d k' = Some d' \<longleftrightarrow> (\<exists>b \<in> set xs'. elem_key hp' b = k' \<and> edata hp' b = Some d')"
          using True by auto
      qed
      with i mk e r Some True h0 show ?thesis
        by (auto simp: sqlite3Fts3HashInsert_def represents_iff val_def Let_def)
    next
      case False
      let ?hp = "hp(a := Some (e\<lparr>e_data := d\<rparr>))"
      have "hash_ok schar ?hp pH xs"
        by (rule hash_ok_tableI) (use tb e False in \<open>auto simp: table_ok_data elem_data\<close>)
      moreover have "contents ?hp xs (put_map m ?k d)"
        unfolding contents_def
      proof (intro allI)
        fix k' d'
        have "(\<exists>b \<in> set xs. elem_key ?hp b = k' \<and> edata ?hp b = Some d') \<longleftrightarrow>
            ?k = k' \<and> d = d' \<or> (\<exists>b \<in> set xs - {a}. elem_key hp b = k' \<and> edata hp b = Some d')"
          unfolding elem_data(1) [of hp a, OF e] using a by (auto simp: edata_def)
        also have "\<dots> \<longleftrightarrow> ?k = k' \<and> d = d' \<or> k' \<noteq> ?k \<and> m k' = Some d'"
          unfolding contents_minus [OF m tb(3) a] ..
        finally show "put_map m ?k d k' = Some d' \<longleftrightarrow> (\<exists>b \<in> set xs. elem_key ?hp b = k' \<and> edata ?hp b = Some d')"
          using False by auto
      qed
      ultimately show ?thesis using mk e r Some False h0
        by (auto simp: sqlite3Fts3HashInsert_def represents_iff val_def Let_def)
    qed
  qed
qed

section \<open>The contract of a map with replaceable entries\<close>

text \<open>\<open>put al s k d\<close> returns the data that was stored under \<open>k\<close> (0 for none); storing 0 removes the entry.
  \<open>good s al\<close>: the allocations \<open>al\<close> succeed in the state \<open>s\<close>.\<close>

fun put_all :: "('o \<Rightarrow> 's \<Rightarrow> bytes \<Rightarrow> nat \<Rightarrow> (nat \<times> 's) option) \<Rightarrow> ('o \<times> bytes \<times> nat) list \<Rightarrow> 's \<Rightarrow> 's option" where
  "put_all put [] s = Some s"
| "put_all put ((al, k, d) # ops) s = do { (old, s') \<leftarrow> put al s k d; put_all put ops s' }"

fun good_all ::
  "('o \<Rightarrow> 's \<Rightarrow> bytes \<Rightarrow> nat \<Rightarrow> (nat \<times> 's) option) \<Rightarrow> ('s \<Rightarrow> 'o \<Rightarrow> bool) \<Rightarrow> ('o \<times> bytes \<times> nat) list \<Rightarrow> 's \<Rightarrow> bool" where
  "good_all put good [] s = True"
| "good_all put good ((al, k, d) # ops) s =
     (good s al \<and> (case put al s k d of None \<Rightarrow> True | Some (old, s') \<Rightarrow> good_all put good ops s'))"

definition map_all :: "('o \<times> bytes \<times> nat) list \<Rightarrow> (bytes \<Rightarrow> nat option) \<Rightarrow> (bytes \<Rightarrow> nat option)" where
  "map_all = fold (\<lambda>(al, k, d) m. put_map m k d)"

lemma map_all_simps: "map_all [] m = m" "map_all ((al, k, d) # ops) m = map_all ops (put_map m k d)"
  by (simp_all add: map_all_def)

locale replaceable_map =
  fixes rep :: "'s \<Rightarrow> (bytes \<Rightarrow> nat option) \<Rightarrow> bool" and key_ok :: "bytes \<Rightarrow> bool"
    and find :: "'s \<Rightarrow> bytes \<Rightarrow> nat option" and put :: "'o \<Rightarrow> 's \<Rightarrow> bytes \<Rightarrow> nat \<Rightarrow> (nat \<times> 's) option"
    and good :: "'s \<Rightarrow> 'o \<Rightarrow> bool"
  assumes find_rep: "rep s m \<Longrightarrow> key_ok k \<Longrightarrow> find s k = Some (val (m k))"
    and put_rep: "rep s m \<Longrightarrow> key_ok k \<Longrightarrow> good s al \<Longrightarrow>
      \<exists>s'. put al s k d = Some (val (m k), s') \<and> rep s' (put_map m k d)"
begin

lemma put_find:
  assumes "rep s m" "key_ok k" "key_ok k'" "good s al"
  shows "\<exists>s'. put al s k d = Some (val (m k), s') \<and> find s' k' = Some (if k' = k then d else val (m k'))"
proof -
  from put_rep [OF assms(1,2,4)] obtain s' where s': "put al s k d = Some (val (m k), s')" "rep s' (put_map m k d)" by blast
  with find_rep [OF s'(2) assms(3)] show ?thesis by (auto simp: val_def)
qed

lemma put_all_rep:
  "rep s m \<Longrightarrow> list_all (\<lambda>(al, k, d). key_ok k) ops \<Longrightarrow> good_all put good ops s \<Longrightarrow>
   \<exists>s'. put_all put ops s = Some s' \<and> rep s' (map_all ops m)"
proof (induction ops arbitrary: s m)
  case Nil
  then show ?case by (simp add: map_all_simps)
next
  case (Cons x ops)
  obtain al k d where x: "x = (al, k, d)" by (cases x)
  from Cons.prems put_rep [of s m k al d] obtain s' where s': "put al s k d = Some (val (m k), s')" "rep s' (put_map m k d)"
    unfolding x by auto
  moreover from Cons.prems(2,3) s'(1) have "list_all (\<lambda>(al, k, d). key_ok k) ops" "good_all put good ops s'" unfolding x by auto
  ultimately obtain s'' where "put_all put ops s' = Some s''" "rep s'' (map_all ops (put_map m k d))" using Cons.IH by blast
  with s'(1) show ?case unfolding x map_all_simps by simp
qed

lemma history:
  assumes "rep s (\<lambda>_. None)" "list_all (\<lambda>(al, k, d). key_ok k) ops" "good_all put good ops s" "key_ok k"
  shows "\<exists>s'. put_all put ops s = Some s' \<and> find s' k = Some (val (map_all ops (\<lambda>_. None) k))"
  using put_all_rep [OF assms(1-3)] find_rep assms(4) by blast

end

text \<open>The hash table provides it, for both classes of keys and both kinds of \<^verbatim>\<open>char\<close>.\<close>

definition fts3_rep :: "bool \<Rightarrow> key_class \<Rightarrow> heap \<times> Fts3Hash \<Rightarrow> (bytes \<Rightarrow> nat option) \<Rightarrow> bool" where
  "fts3_rep schar kc s m \<longleftrightarrow> represents schar (fst s) (snd s) m \<and> keyClass (snd s) = kc"

definition fts3_find :: "bool \<Rightarrow> heap \<times> Fts3Hash \<Rightarrow> bytes \<Rightarrow> nat option" where
  "fts3_find schar s k = sqlite3Fts3HashFind schar (fst s) (snd s) k (int (length k))"

definition fts3_put :: "bool \<Rightarrow> allocs \<Rightarrow> heap \<times> Fts3Hash \<Rightarrow> bytes \<Rightarrow> nat \<Rightarrow> (nat \<times> heap \<times> Fts3Hash) option" where
  "fts3_put schar al s k d = sqlite3Fts3HashInsert schar al (fst s) (snd s) k (int (length k)) d"

definition fts3_key :: "key_class \<Rightarrow> bytes \<Rightarrow> bool" where
  "fts3_key kc k \<longleftrightarrow> key_valid kc k (int (length k))"

interpretation fts3: replaceable_map "fts3_rep schar kc" "fts3_key kc" "fts3_find schar" "fts3_put schar" "\<lambda>s. alloc_good (fst s)"
  for schar kc
proof (unfold_locales, goal_cases)
  case (1 s m k)
  then show ?case using Find_represents [of schar "fst s" "snd s" m k "int (length k)"]
    by (simp add: fts3_rep_def fts3_find_def fts3_key_def)
next
  case (2 s m k al d)
  then have "represents schar (fst s) (snd s) m" "key_valid (keyClass (snd s)) k (int (length k))" "alloc_good (fst s) al"
    by (simp_all add: fts3_rep_def fts3_key_def)
  from Insert_represents [OF this, of d] 2(1) show ?case by (auto simp: fts3_rep_def fts3_put_def)
qed

section \<open>Failing allocations\<close>

lemma represents_same:
  assumes "hash_ok schar hp pH xs" "contents hp xs m" "table_ok schar hp' pH' xs'" "set xs' = set xs" "same_content hp hp' UNIV"
    "count pH' = count pH"
  shows "represents schar hp' pH' m"
proof -
  have o: "distinct xs" "count pH = int (length xs)" "inj_on (elem_key hp) (set xs)" "\<forall>a \<in> set xs. map_option e_data (hp a) \<noteq> Some 0"
    using assms(1) by (cases rule: hash_ok_cases; auto dest: table_okD)+
  have same: "elem_key hp' = elem_key hp" "edata hp' = edata hp" using same_contentD [OF assms(5)] by (auto simp: edata_def)
  have "length xs' = length xs" using distinct_card [OF o(1)] distinct_card [OF table_okD(2) [OF assms(3)]] assms(4) by simp
  then have "hash_ok schar hp' pH' xs'"
    using assms(4,6) o(2-4) same_contentD(4) [OF assms(5)] unfolding same(1) [symmetric]
    by (intro hash_ok_tableI [OF assms(3)]) simp_all
  moreover have "contents hp' xs' m" using assms(2,4) same by (simp add: contents_def)
  ultimately show ?thesis by (auto simp: represents_iff)
qed

lemma Insert_no_memory:
  assumes rep: "represents schar hp pH m" and v: "key_valid (keyClass pH) k n" and new: "m (octets_of k n) = None" and d: "d \<noteq> 0"
    and al: "al_ht1 al" "al_ht2 al" "al_elem al = None \<or> copyKey pH \<and> \<not> al_key al"
  shows "\<exists>hp' pH'. sqlite3Fts3HashInsert schar al hp pH k n d = Some (d, hp', pH') \<and> represents schar hp' pH' m"
proof -
  from rep obtain xs where ok: "hash_ok schar hp pH xs" and m: "contents hp xs m" by (auto simp: represents_iff)
  from Find_hash [OF ok v] contents_find(1) [OF ok m] new have find: "fts3FindElementByHash hp pH k n
    (if htsize pH = 0 then ftsHashFunction schar (keyClass pH) k n else ftsHashFunction schar (keyClass pH) k n mod htsize pH) = Some None"
    by (metis option.distinct(1) option.exhaust)
  from grow_ok [OF ok al(1,2)] obtain hp' pH' xs' where g: "grow schar al hp pH = Some (False, hp', pH')" "table_ok schar hp' pH' xs'"
    "set xs' = set xs" "same_content hp hp' UNIV" "copyKey pH' = copyKey pH" "count pH' = count pH" by blast
  have "sqlite3Fts3HashInsert schar al hp pH k n d = Some (d, hp', pH')"
    using find d g(1,5) al(3) by (auto simp: sqlite3Fts3HashInsert_def Let_def split: option.split)
  with represents_same [OF ok m g(2,3,4,6)] show ?thesis by blast
qed

lemma Insert_no_table:
  assumes rep: "represents schar hp pH m" and v: "key_valid (keyClass pH) k n" and new: "m (octets_of k n) = None" and d: "d \<noteq> 0"
    and al: "0 < htsize pH" "int (htsize pH) \<le> count pH" "\<not> al_ht2 al"
  shows "sqlite3Fts3HashInsert schar al hp pH k n d = Some (d, hp, pH\<lparr>count := 0\<rparr>)"
proof -
  from rep obtain xs where ok: "hash_ok schar hp pH xs" and m: "contents hp xs m" by (auto simp: represents_iff)
  from Find_hash [OF ok v] contents_find(1) [OF ok m] new have find: "fts3FindElementByHash hp pH k n
    (if htsize pH = 0 then ftsHashFunction schar (keyClass pH) k n else ftsHashFunction schar (keyClass pH) k n mod htsize pH) = Some None"
    by (metis option.distinct(1) option.exhaust)
  with d al show ?thesis by (simp add: sqlite3Fts3HashInsert_def Let_def grow_def fts3Rehash_def)
qed

lemma Find_count: "fts3FindElementByHash hp (pH\<lparr>count := c\<rparr>) k n h = fts3FindElementByHash hp pH k n h"
  by (simp add: fts3FindElementByHash_def bucket_def)

text \<open>A removal from a table whose count is 0 although it has entries.\<close>

lemma Remove_count_lost:
  assumes rep: "represents schar hp pH m" and v: "key_valid (keyClass pH) k n" and old: "m (octets_of k n) = Some d"
  shows "\<exists>hp' pH'. sqlite3Fts3HashInsert schar al hp (pH\<lparr>count := 0\<rparr>) k n 0 = Some (d, hp', pH') \<and>
    represents schar hp' pH' (\<lambda>_. None)"
proof -
  from rep obtain xs where ok: "hash_ok schar hp pH xs" and m: "contents hp xs m" by (auto simp: represents_iff)
  from m old obtain a where a: "a \<in> set xs" "elem_key hp a = octets_of k n" "edata hp a = Some d"
    unfolding contents_def by blast
  from a(3) obtain e where e: "hp a = Some e" "e_data e = d" by (auto simp: edata_def)
  from ok a(1) obtain tb: "table_ok schar hp pH xs" and inj: "inj_on (elem_key hp) (set xs)"
    by (cases rule: hash_ok_cases) auto
  let ?pH = "pH\<lparr>count := 0\<rparr>" and ?h = "ftsHashFunction schar (keyClass pH) k n mod htsize pH"
  have tb': "table_ok schar hp ?pH xs" using tb by (simp add: table_ok_def)
  have h: "elem_hash schar (keyClass ?pH) hp a mod htsize ?pH = ?h"
    using table_okD(4) [OF tb] a e hash_key [OF _ v, of "e_pKey e" "e_nKey e" schar]
    by (auto simp: elem_valid_def elem_hash_def elem_key_def)
  from Find_table [OF tb v inj] a obtain r where "fts3FindElementByHash hp pH k n ?h = Some r" "r = Some a" by blast
  then have f: "fts3FindElementByHash hp ?pH k n ?h = Some (Some a)" by (simp only: Find_count)
  from Remove_table [OF tb' a(1) refl, unfolded h] obtain hp2 pH2 xs2 where
    rem: "fts3RemoveElementByHash hp ?pH a ?h = sqlite3Fts3HashClear hp2 pH2" and t2: "table_ok schar hp2 pH2 xs2" by auto
  let ?hp = "\<lambda>a. if a \<in> set xs2 then None else hp2 a" and ?init = "sqlite3Fts3HashInit (keyClass pH2) (copyKey pH2)"
  have "sqlite3Fts3HashInsert schar al hp ?pH k n 0 = Some (d, ?hp, ?init)"
    using f rem Clear_table [OF t2] e table_okD(5) [OF tb] by (simp add: sqlite3Fts3HashInsert_def Let_def)
  moreover have "represents schar ?hp ?init (\<lambda>_. None)"
    unfolding represents_iff by (rule exI [of _ "[]"]) (simp add: hash_ok_def contents_def sqlite3Fts3HashInit_def)
  ultimately show ?thesis by blast
qed

section \<open>Properties\<close>

lemma init_represents: "represents schar hp (sqlite3Fts3HashInit kc ck) (\<lambda>_. None)"
  unfolding represents_iff by (rule exI [of _ "[]"]) (simp add: hash_ok_def contents_def sqlite3Fts3HashInit_def)

definition sample_alloc :: "nat \<Rightarrow> allocs" where
  "sample_alloc a = \<lparr>al_ht1 = True, al_ht2 = True, al_elem = Some a, al_key = True\<rparr>"

lemma sample_alloc_good: "hp a = None \<Longrightarrow> alloc_good hp (sample_alloc a)"
  by (simp add: alloc_good_def sample_alloc_def)

text \<open>A table of one bucket with the elements 10 and 20.\<close>

definition sample_heap :: heap where
  "sample_heap = (\<lambda>_. None)(10 := Some \<lparr>e_next = Some 20, e_prev = None, e_data = 5, e_pKey = [1], e_nKey = 1\<rparr>,
     20 := Some \<lparr>e_next = None, e_prev = Some 10, e_data = 6, e_pKey = [2], e_nKey = 1\<rparr>)"

definition sample_table :: Fts3Hash where
  "sample_table = \<lparr>keyClass = FTS3_HASH_BINARY, copyKey = True, count = 2, first = Some 10, htsize = 1, ht = Some [(2, Some 10)]\<rparr>"

lemma sample_represents: "represents False sample_heap sample_table ((\<lambda>_. None)([1] := Some 5, [2] := Some 6))"
proof -
  have k: "elem_key sample_heap 10 = [1]" "elem_key sample_heap 20 = [2]" "edata sample_heap 10 = Some 5" "edata sample_heap 20 = Some 6"
    by (simp_all add: elem_key_def edata_def sample_heap_def)
  have "bucket_ok [10, 20] (2, Some 10) {10, 20}"
    unfolding bucket_ok_def by (intro exI [of _ "[]"] exI [of _ "[10, 20]"]) simp
  moreover have "{a. a = 10 \<or> a = (20::nat)} = {10, 20}" by auto
  ultimately have b: "bucket_ok [10, 20] (2, Some 10) {a \<in> set [10, 20]. elem_hash False FTS3_HASH_BINARY sample_heap a mod 1 = 0}"
    by simp
  have t: "table_ok False sample_heap sample_table [10, 20]"
    unfolding table_ok_def
  proof (intro conjI)
    show "linked sample_heap None [10, 20] None" by (simp add: sample_heap_def)
    show "\<forall>a \<in> set [10, 20]. elem_valid (keyClass sample_table) sample_heap a"
      by (simp add: sample_heap_def sample_table_def elem_valid_def key_valid_def)
    show "\<exists>k. htsize sample_table = 2 ^ k" by (rule exI [of _ 0]) (simp add: sample_table_def)
    show "\<exists>t. ht sample_table = Some t \<and> length t = htsize sample_table \<and> (\<forall>h < htsize sample_table.
        bucket_ok [10, 20] (t ! h) {a \<in> set [10, 20]. elem_hash False (keyClass sample_table) sample_heap a mod htsize sample_table = h})"
      using b by (simp add: sample_table_def)
  qed (simp_all add: sample_table_def)
  have "hash_ok False sample_heap sample_table [10, 20]"
    by (rule hash_ok_tableI [OF t]) (use k in \<open>auto simp: sample_table_def sample_heap_def\<close>)
  moreover have "contents sample_heap [10, 20] ((\<lambda>_. None)([1] := Some 5, [2] := Some 6))"
    using k by (auto simp: contents_def)
  ultimately show ?thesis unfolding represents_iff by blast
qed

text \<open>C4: the hash table implements a finite map. In every state that satisfies the invariant (one doubly linked
  list, buckets that are contiguous parts of it with the right counts, different keys), for keys of both
  classes and on machines with signed or unsigned \<^verbatim>\<open>char\<close>: \<open>sqlite3Fts3HashFind\<close> returns the stored data or
  null, \<open>sqlite3Fts3HashInsert\<close> returns the previous data and stores, replaces or removes the entry of
  that key alone, growing the table if need be, and the invariant holds again.\<close>

theorem fts3_hash_refines_map:
  assumes "represents schar hp pH m" and "key_valid (keyClass pH) k n" and "alloc_good hp al"
  shows "sqlite3Fts3HashFind schar hp pH k n = Some (val (m (take (nat n) k))) \<and>
    (\<exists>hp' pH'. sqlite3Fts3HashInsert schar al hp pH k n d = Some (val (m (take (nat n) k)), hp', pH') \<and>
      represents schar hp' pH' (m(take (nat n) k := if d = 0 then None else Some d)))"
  using Find_represents [OF assms(1,2)] Insert_represents [OF assms, of d] by blast

theorem fts3_hash_refines_map_witness:
  "\<exists>hp' pH'. sqlite3Fts3HashInsert True (sample_alloc 3) (\<lambda>_. None) (sqlite3Fts3HashInit FTS3_HASH_STRING True) [104, 105, 0] 3 9 =
     Some (0, hp', pH') \<and> represents True hp' pH' ((\<lambda>_. None)([104, 105, 0] := Some 9))"
  using fts3_hash_refines_map [OF init_represents [of True "\<lambda>_. None" FTS3_HASH_STRING True] _ sample_alloc_good, of "[104, 105, 0]" 3 3 9]
  by (simp add: key_valid_def sqlite3Fts3HashInit_def val_def)

text \<open>C16: from an initialised table on, every sequence of insertions, replacements and removals returns (no loop
  runs forever, no dangling pointer is followed), and a search afterwards returns what the sequence
  stored last under the key, null if nothing was stored or the entry was removed.\<close>

theorem fts3_hash_history:
  assumes "list_all (\<lambda>(al, k, d). fts3_key kc k) ops" and "fts3_key kc k"
    and "good_all (fts3_put schar) (\<lambda>s. alloc_good (fst s)) ops (hp, sqlite3Fts3HashInit kc ck)"
  shows "\<exists>s'. put_all (fts3_put schar) ops (hp, sqlite3Fts3HashInit kc ck) = Some s' \<and>
    fts3_find schar s' k = Some (val (map_all ops (\<lambda>_. None) k))"
proof -
  have "fts3_rep schar kc (hp, sqlite3Fts3HashInit kc ck) (\<lambda>_. None)"
    using init_represents by (simp add: fts3_rep_def) (simp add: sqlite3Fts3HashInit_def)
  from fts3.history [OF this assms(1,3,2)] show ?thesis .
qed

theorem fts3_hash_history_witness:
  "\<exists>s'. put_all (fts3_put False) [(sample_alloc 3, [7, 8], 4)] (\<lambda>_. None, sqlite3Fts3HashInit FTS3_HASH_BINARY True) = Some s' \<and>
     fts3_find False s' [7, 8] = Some 4"
proof -
  have v: "list_all (\<lambda>(al, k, d). fts3_key FTS3_HASH_BINARY k) [(sample_alloc 3, [7, 8], 4)]" "fts3_key FTS3_HASH_BINARY [7, 8]"
    by (simp_all add: fts3_key_def key_valid_def)
  have "good_all (fts3_put False) (\<lambda>s. alloc_good (fst s)) [(sample_alloc 3, [7, 8], 4)] (\<lambda>_. None, sqlite3Fts3HashInit FTS3_HASH_BINARY True)"
    using sample_alloc_good [of "\<lambda>_. None" 3] by (simp split: option.split)
  from fts3_hash_history [OF v this] show ?thesis by (simp add: map_all_simps val_def)
qed

text \<open>when the element or the copy of its key cannot be allocated, the new data is returned and the table
  still stands for the same map, as the comment on \<open>sqlite3Fts3HashInsert\<close> promises.\<close>

theorem fts3_hash_no_memory:
  assumes "represents schar hp pH m" and "key_valid (keyClass pH) k n" and "m (take (nat n) k) = None" and "d \<noteq> 0"
    and "al_ht1 al" and "al_ht2 al" and "al_elem al = None \<or> copyKey pH \<and> \<not> al_key al"
  shows "\<exists>hp' pH'. sqlite3Fts3HashInsert schar al hp pH k n d = Some (d, hp', pH') \<and> represents schar hp' pH' m"
  using assms by (rule Insert_no_memory)

theorem fts3_hash_no_memory_witness:
  "\<exists>hp' pH'. sqlite3Fts3HashInsert False \<lparr>al_ht1 = True, al_ht2 = True, al_elem = None, al_key = True\<rparr> sample_heap sample_table [3] 1 8 =
      Some (8, hp', pH') \<and> represents False hp' pH' ((\<lambda>_. None)([1] := Some 5, [2] := Some 6))"
  by (rule fts3_hash_no_memory [OF sample_represents]) (simp_all add: key_valid_def)

text \<open>C39: when the larger table cannot be allocated, the new data is returned too, but the count of the table is
  set to 0 although the entries are still there; the next removal of any entry then empties the whole
  table and every other entry is lost.\<close>

theorem fts3_hash_failed_growth_loses_entries:
  assumes "represents schar hp pH m" and "key_valid (keyClass pH) k n" and "m (take (nat n) k) = None" and "d \<noteq> 0"
    and "0 < htsize pH" and "int (htsize pH) \<le> count pH" and "\<not> al_ht2 al"
    and "key_valid (keyClass pH) k2 n2" and "m (take (nat n2) k2) = Some d2"
  shows "\<exists>pH1 hp' pH'. sqlite3Fts3HashInsert schar al hp pH k n d = Some (d, hp, pH1) \<and> count pH1 = 0 \<and>
    sqlite3Fts3HashInsert schar al2 hp pH1 k2 n2 0 = Some (d2, hp', pH') \<and> represents schar hp' pH' (\<lambda>_. None)"
  using Insert_no_table [OF assms(1-7)] Remove_count_lost [OF assms(1,8,9), of al2] by fastforce

theorem fts3_hash_failed_growth_loses_entries_witness:
  "\<exists>pH1 hp' pH'. sqlite3Fts3HashInsert False \<lparr>al_ht1 = True, al_ht2 = False, al_elem = Some 30, al_key = True\<rparr> sample_heap sample_table [3] 1 8 =
      Some (8, sample_heap, pH1) \<and> count pH1 = 0 \<and>
    sqlite3Fts3HashInsert False (sample_alloc 30) sample_heap pH1 [1] 1 0 = Some (5, hp', pH') \<and> represents False hp' pH' (\<lambda>_. None)"
  by (rule fts3_hash_failed_growth_loses_entries [OF sample_represents]) (simp_all add: key_valid_def, simp_all add: sample_table_def)

end
