(* ===== verification/Character_Tokenizer.thy ===== *)
theory Character_Tokenizer
  imports Prelude
begin

text \<open>
  The tokenizer of \<^verbatim>\<open>tokenizers/character/character_tokenizer.c\<close>, which makes every UTF-8 character of the
  input a token and folds ASCII letters to lower case. The five functions of the tokenizer module
  and their cursor are modelled; an allocation fails when its argument \<open>ok\<close> is false. The loop that
  the full-text index runs over a cursor is \<open>all_tokens\<close>.
\<close>

abbreviation (input) SQLITE_OK :: int where "SQLITE_OK \<equiv> 0"
abbreviation (input) SQLITE_NOMEM :: int where "SQLITE_NOMEM \<equiv> 7"
abbreviation (input) SQLITE_DONE :: int where "SQLITE_DONE \<equiv> 101"

section \<open>The cursor and the operations\<close>

record character_tokenizer_cursor =
  pInput :: bytes
  nBytes :: nat
  iPosition :: nat
  iToken :: nat
  pToken :: "bytes option"

text \<open>The output arguments of \<open>characterNext\<close>.\<close>

record token =
  tk_text :: bytes
  tk_nBytes :: nat
  tk_start :: nat
  tk_end :: nat
  tk_position :: nat


text \<open>A tokenizer has no state of its own: only whether it exists.\<close>

definition characterCreate :: "bool \<Rightarrow> int \<times> unit option" where
  "characterCreate ok = (if \<not> ok then (SQLITE_NOMEM, None) else (SQLITE_OK, Some ()))"

definition characterDestroy :: "unit option \<Rightarrow> int \<times> unit option" where
  "characterDestroy t = (SQLITE_OK, None)"


definition characterClose :: "character_tokenizer_cursor \<Rightarrow> int \<times> character_tokenizer_cursor option" where
  "characterClose c = (SQLITE_OK, None)"

definition char_start :: "u8 \<Rightarrow> bool" where
  "char_start b \<longleftrightarrow> b AND 0x80 = 0 \<or> b AND 0xc0 = 0xc0"

function next_char :: "bytes \<Rightarrow> nat \<Rightarrow> nat \<Rightarrow> nat" where
  "next_char z n pos = (if pos < n \<and> \<not> char_start (z ! pos) then next_char z n (pos + 1) else pos)"
  by pat_completeness auto
termination by (relation "measure (\<lambda>(z, n, pos). n - pos)") auto

definition tolower :: "u8 \<Rightarrow> u8" where
  "tolower b = (if 0x41 \<le> b \<and> b \<le> 0x5a then b + 32 else b)"

definition fold_case :: "u8 \<Rightarrow> u8" where
  "fold_case b = (if b < 0x80 then tolower b else b)"

definition characterNext :: "bool \<Rightarrow> character_tokenizer_cursor \<Rightarrow> int \<times> token option \<times> character_tokenizer_cursor" where
  "characterNext ok c0 =
     (let c = c0\<lparr>pToken := None\<rparr>
      in if iPosition c \<ge> nBytes c then (SQLITE_DONE, None, c)
         else let start = iPosition c;
                  pos = next_char (pInput c) (nBytes c) (start + 1);
                  len = pos - start;
                  c1 = c\<lparr>iPosition := pos\<rparr>
              in if \<not> ok then (SQLITE_NOMEM, None, c1)
                 else let text = map fold_case (rd (pInput c) start len)
                      in (SQLITE_OK,
                          Some \<lparr>tk_text = text, tk_nBytes = len, tk_start = start, tk_end = start + len, tk_position = iToken c\<rparr>,
                          c1\<lparr>pToken := Some text, iToken := iToken c + 1\<rparr>))"

section \<open>The loop of a client\<close>

lemma next_char_bounds: "pos \<le> n \<Longrightarrow> pos \<le> next_char z n pos \<and> next_char z n pos \<le> n"
proof (induction z n pos rule: next_char.induct)
  case (1 z n pos)
  then show ?case by (subst (1 2) next_char.simps) (auto simp del: next_char.simps)
qed

declare next_char.simps [simp del]

lemma next_progress:
  assumes "characterNext True c = (SQLITE_OK, t, c')"
  shows "nBytes c' - iPosition c' < nBytes c - iPosition c"
proof -
  have "Suc (iPosition c) \<le> next_char (pInput c) (nBytes c) (Suc (iPosition c))" if "iPosition c < nBytes c"
    using next_char_bounds [of "Suc (iPosition c)" "nBytes c" "pInput c"] that by simp
  then show ?thesis using assms by (auto simp: characterNext_def Let_def split: if_splits)
qed

text \<open>\<open>characterNext\<close> until it returns something else than \<open>SQLITE_OK\<close>: the tokens and the last code.\<close>

function all_tokens :: "character_tokenizer_cursor \<Rightarrow> token list \<times> int" where
  "all_tokens c =
     (case characterNext True c of (rc, t, c') \<Rightarrow>
        if rc \<noteq> SQLITE_OK then ([], rc) else (case all_tokens c' of (ts, rc') \<Rightarrow> (the t # ts, rc')))"
  by pat_completeness auto
termination by (relation "measure (\<lambda>c. nBytes c - iPosition c)") (auto dest!: next_progress [OF sym])

declare all_tokens.simps [simp del]

section \<open>Reference\<close>

text \<open>The characters of an octet sequence: an octet with the continuation octets after it.\<close>

function chars :: "bytes \<Rightarrow> bytes list" where
  "chars [] = []"
| "chars (b # bs) = (b # takeWhile (\<lambda>x. \<not> char_start x) bs) # chars (dropWhile (\<lambda>x. \<not> char_start x) bs)"
  by pat_completeness auto
termination by (relation "measure length") (auto simp: length_dropWhile_le less_Suc_eq_le)

text \<open>The tokens of a list of characters from an offset and a position on.\<close>

fun tokens_ref :: "nat \<Rightarrow> nat \<Rightarrow> bytes list \<Rightarrow> token list" where
  "tokens_ref off n [] = []"
| "tokens_ref off n (c # cs) =
     \<lparr>tk_text = map fold_case c, tk_nBytes = length c, tk_start = off, tk_end = off + length c, tk_position = n\<rparr> #
     tokens_ref (off + length c) (n + 1) cs"

lemma next_char_takeWhile:
  "pos \<le> n \<Longrightarrow> n \<le> length z \<Longrightarrow>
   next_char z n pos = pos + length (takeWhile (\<lambda>x. \<not> char_start x) (rd z pos (n - pos)))"
proof (induction z n pos rule: next_char.induct)
  case (1 z n pos)
  show ?case
  proof (cases "pos < n")
    case True
    then have "rd z pos (n - pos) = z ! pos # rd z (pos + 1) (n - (pos + 1))"
      using 1(3) by (simp add: rd_def take_Suc_conv_app_nth Cons_nth_drop_Suc [symmetric] Suc_diff_Suc [symmetric])
    with 1 True show ?thesis by (subst next_char.simps) simp
  next
    case False
    with 1(2) show ?thesis by (subst next_char.simps) (simp add: rd_def)
  qed
qed

lemma concat_chars: "concat (chars z) = z"
  by (induction z rule: chars.induct) auto

lemma all_tokens_ref:
  "nBytes c \<le> length (pInput c) \<Longrightarrow> iPosition c \<le> nBytes c \<Longrightarrow>
   all_tokens c = (tokens_ref (iPosition c) (iToken c) (chars (rd (pInput c) (iPosition c) (nBytes c - iPosition c))), SQLITE_DONE)"
proof (induction c rule: all_tokens.induct)
  case (1 c)
  let ?z = "pInput c" and ?n = "nBytes c" and ?p = "iPosition c"
  show ?case
  proof (cases "?p < ?n")
    case False
    then show ?thesis using 1(3) by (subst all_tokens.simps) (simp add: characterNext_def rd_def)
  next
    case True
    let ?r = "rd ?z (?p + 1) (?n - (?p + 1))"
    let ?w = "takeWhile (\<lambda>x. \<not> char_start x) ?r"
    have r: "rd ?z ?p (?n - ?p) = ?z ! ?p # ?r"
      using 1(2) True by (simp add: rd_def Cons_nth_drop_Suc [symmetric] Suc_diff_Suc [symmetric])
    have pos: "next_char ?z ?n (?p + 1) = ?p + 1 + length ?w" using next_char_takeWhile [of "?p + 1" ?n ?z] True 1(2) by simp
    have lw: "length ?w \<le> ?n - (?p + 1)" using length_takeWhile_le [of _ ?r] True 1(2) by (simp add: rd_def)
    have w: "rd ?z ?p (Suc (length ?w)) = ?z ! ?p # ?w"
    proof -
      have "rd ?z ?p (Suc (length ?w)) = take (Suc (length ?w)) (rd ?z ?p (?n - ?p))"
        using lw True by (simp add: rd_def min_def)
      also have "\<dots> = ?z ! ?p # ?w" unfolding r by (simp add: takeWhile_eq_take [symmetric])
      finally show ?thesis .
    qed
    have d: "rd ?z (?p + 1 + length ?w) (?n - (?p + 1 + length ?w)) = dropWhile (\<lambda>x. \<not> char_start x) ?r"
      by (simp add: rd_def dropWhile_eq_drop drop_take add.commute)
    let ?c' = "c\<lparr>pToken := Some (map fold_case (?z ! ?p # ?w)), iPosition := ?p + 1 + length ?w, iToken := iToken c + 1\<rparr>"
    let ?t = "\<lparr>tk_text = map fold_case (?z ! ?p # ?w), tk_nBytes = Suc (length ?w), tk_start = ?p,
      tk_end = ?p + Suc (length ?w), tk_position = iToken c\<rparr>"
    have nx: "characterNext True c = (SQLITE_OK, Some ?t, ?c')"
      using True pos w by (simp add: characterNext_def Let_def)
    have "all_tokens ?c' = (tokens_ref (?p + 1 + length ?w) (iToken c + 1) (chars (dropWhile (\<lambda>x. \<not> char_start x) ?r)), SQLITE_DONE)"
      using 1(1) [of SQLITE_OK "(Some ?t, ?c')" "Some ?t" ?c'] nx 1(2) lw True d by simp
    then show ?thesis using nx by (subst all_tokens.simps) (simp add: r)
  qed
qed

section \<open>Properties\<close>



text \<open>The size of a token is not bounded by 4 octets, as the comment in \<open>characterNext\<close> says, but only by the
  number of continuation octets that follow: an octet followed by \<open>n\<close> octets of the form 10xxxxxx is one
  token of \<open>n + 1\<close> octets.\<close>

theorem character_token_unbounded:
  "fst (all_tokens \<lparr>pInput = 0xc3 # replicate n 0x80, nBytes = n + 1, iPosition = 0, iToken = 0, pToken = None\<rparr>) =
   [\<lparr>tk_text = 0xc3 # replicate n 0x80, tk_nBytes = n + 1, tk_start = 0, tk_end = n + 1, tk_position = 0\<rparr>]"
proof -
  have "takeWhile (\<lambda>x. \<not> char_start x) (replicate n (0x80::u8)) = replicate n 0x80"
    "dropWhile (\<lambda>x. \<not> char_start x) (replicate n (0x80::u8)) = []"
    by (simp_all add: char_start_def)
  then show ?thesis by (simp add: all_tokens_ref rd_def fold_case_def)
qed

end
