(* ===== verification/Regex_Cache.thy ===== *)
theory Regex_Cache
  imports Prelude
begin

text \<open>
  The \<^verbatim>\<open>REGEXP\<close> function of \<^verbatim>\<open>regex/regex.c\<close>: a cache of compiled patterns per connection, kept in the order
  of last use, and one mutex that all connections share. The PCRE library is a parameter: \<open>compile\<close>
  gives a compiled pattern or an error with its message and offset, \<open>study\<close> and \<open>exec\<close> are functions. A \<^verbatim>\<open>pthread_mutex_lock\<close> on the
  mutex that is already held blocks the caller, the result \<open>Blocked\<close>.
\<close>

section \<open>Data\<close>

record ('p, 'e) cache_entry =
  ce_s :: string
  ce_p :: 'p
  ce_e :: 'e

definition CACHE_SIZE :: nat where
  "CACHE_SIZE = 16"

text \<open>A null string marks a free entry. \<open>caches\<close>: the cache of a connection.\<close>

type_synonym ('p, 'e) cache = "('p, 'e) cache_entry option list"

record ('p, 'e) regex_state =
  caches :: "nat \<Rightarrow> ('p, 'e) cache"
  mylock :: bool
  is_mylock_valid :: bool

text \<open>\<open>Result_compile_error re err pos\<close> is the message \<^verbatim>\<open>re: err (offset pos)\<close>.\<close>

datatype regex_result = Result_int bool | Result_error string | Result_compile_error string string int | Blocked | Assert_failed

record ('p, 'e) pcre_lib =
  lib_compile :: "string \<Rightarrow> (string \<times> int) + 'p"
  lib_study :: "'p \<Rightarrow> 'e"
  lib_exec :: "'p \<Rightarrow> 'e \<Rightarrow> string \<Rightarrow> int"

section \<open>Operations\<close>

text \<open>The loop that looks for the pattern; it stops at the first free entry.\<close>

fun cache_find :: "('p, 'e) cache \<Rightarrow> string \<Rightarrow> nat option" where
  "cache_find [] re = None"
| "cache_find (None # cs) re = None"
| "cache_find (Some c # cs) re = (if ce_s c = re then Some 0 else map_option Suc (cache_find cs re))"

text \<open>The \<^verbatim>\<open>memmove\<close> of the first \<open>i\<close> entries and the store into entry 0.\<close>

definition shift_in :: "('p, 'e) cache \<Rightarrow> nat \<Rightarrow> ('p, 'e) cache_entry option \<Rightarrow> ('p, 'e) cache" where
  "shift_in cache i c = c # take i cache @ drop (Suc i) cache"

definition set_cache :: "('p, 'e) regex_state \<Rightarrow> nat \<Rightarrow> ('p, 'e) cache \<Rightarrow> ('p, 'e) regex_state" where
  "set_cache st conn cache = st\<lparr>caches := (caches st)(conn := cache)\<rparr>"

definition run_first :: "('p, 'e) pcre_lib \<Rightarrow> ('p, 'e) cache \<Rightarrow> string \<Rightarrow> regex_result" where
  "run_first lib cache str =
     (case hd cache of None \<Rightarrow> Assert_failed | Some c \<Rightarrow> Result_int (lib_exec lib (ce_p c) (ce_e c) str \<ge> 0))"

text \<open>\<open>dup\<close>: whether \<^verbatim>\<open>strdup\<close> succeeds.\<close>

definition regexp ::
  "('p, 'e) pcre_lib \<Rightarrow> bool \<Rightarrow> ('p, 'e) regex_state \<Rightarrow> nat \<Rightarrow> string option \<Rightarrow> string option \<Rightarrow> regex_result \<times> ('p, 'e) regex_state" where
  "regexp lib dup st conn re str =
     (case re of None \<Rightarrow> (Result_error ''no regexp'', st)
      | Some re \<Rightarrow> case str of None \<Rightarrow> (Result_error ''no string'', st)
      | Some str \<Rightarrow>
          let cache = caches st conn
          in case cache_find cache re of
               Some i \<Rightarrow>
                 (let cache' = (if i > 0 then shift_in cache i (cache ! i) else cache)
                  in (run_first lib cache' str, set_cache st conn cache'))
             | None \<Rightarrow>
                 if mylock st then (Blocked, st)
                 else let st1 = st\<lparr>mylock := True\<rparr>
                      in case lib_compile lib re of
                           Inl (err, pos) \<Rightarrow> (Result_compile_error re err pos, st1)
                         | Inr p \<Rightarrow>
                             if \<not> dup then (Result_error ''strdup: ENOMEM'', st1)
                             else let c = \<lparr>ce_s = re, ce_p = p, ce_e = lib_study lib p\<rparr>;
                                      st2 = st1\<lparr>mylock := False\<rparr>;
                                      cache' = shift_in cache (CACHE_SIZE - 1) (Some c)
                                  in (run_first lib cache' str, set_cache st2 conn cache'))"

text \<open>Loading the extension for a connection: the first load initialises the mutex; \<open>ok\<close> is whether
  \<^verbatim>\<open>calloc\<close> succeeds. The result is the return code with the message of \<^verbatim>\<open>pzErrMsg\<close>.\<close>

definition sqlite3_regex_init :: "bool \<Rightarrow> ('p, 'e) regex_state \<Rightarrow> nat \<Rightarrow> (int \<times> string option) \<times> ('p, 'e) regex_state" where
  "sqlite3_regex_init ok st conn =
     (let st1 = (if \<not> is_mylock_valid st then st\<lparr>mylock := False, is_mylock_valid := True\<rparr> else st)
      in if \<not> ok then ((1, Some ''calloc: ENOMEM''), st1)
         else ((0, None), set_cache st1 conn (replicate CACHE_SIZE None)))"

section \<open>Invariant\<close>

text \<open>A cache: \<open>CACHE_SIZE\<close> entries, the used ones first, with different patterns and what the library
  makes of them.\<close>

definition used :: "('p, 'e) cache \<Rightarrow> ('p, 'e) cache_entry list" where
  "used cache = map the (takeWhile (\<lambda>c. c \<noteq> None) cache)"

definition cache_ok :: "('p, 'e) pcre_lib \<Rightarrow> ('p, 'e) cache \<Rightarrow> bool" where
  "cache_ok lib cache \<longleftrightarrow>
     (\<exists>cs. cache = map Some cs @ replicate (CACHE_SIZE - length cs) None \<and> length cs \<le> CACHE_SIZE \<and>
        distinct (map ce_s cs) \<and>
        (\<forall>c \<in> set cs. lib_compile lib (ce_s c) = Inr (ce_p c) \<and> ce_e c = lib_study lib (ce_p c)))"

lemma used_map [simp]: "used (map Some cs @ replicate n None) = cs"
  by (induction cs) (auto simp: used_def takeWhile_replicate)

lemma cache_find_map:
  "cache_find (map Some cs @ replicate n None) re =
     (if re \<in> ce_s ` set cs then Some (length (takeWhile (\<lambda>c. ce_s c \<noteq> re) cs)) else None)"
proof (induction cs)
  case Nil
  then show ?case by (cases n) auto
qed auto

lemma cache_ok_used:
  assumes "cache_ok lib cache"
  shows "cache = map Some (used cache) @ replicate (CACHE_SIZE - length (used cache)) None" "length (used cache) \<le> CACHE_SIZE"
    "distinct (map ce_s (used cache))"
    "\<forall>c \<in> set (used cache). lib_compile lib (ce_s c) = Inr (ce_p c) \<and> ce_e c = lib_study lib (ce_p c)"
  using assms by (auto simp: cache_ok_def)

lemma cache_okI:
  "length cs \<le> CACHE_SIZE \<Longrightarrow> distinct (map ce_s cs) \<Longrightarrow>
   (\<And>c. c \<in> set cs \<Longrightarrow> lib_compile lib (ce_s c) = Inr (ce_p c) \<and> ce_e c = lib_study lib (ce_p c)) \<Longrightarrow>
   cache_ok lib (map Some cs @ replicate (CACHE_SIZE - length cs) None)"
  unfolding cache_ok_def by blast

text \<open>The pattern is found: its entry moves to the front.\<close>

lemma found_cache:
  assumes ok: "cache_ok lib cache" and i: "cache_find cache re = Some i"
  shows "\<exists>c cs. (if i > 0 then shift_in cache i (cache ! i) else cache) = map Some (c # cs) @ replicate (CACHE_SIZE - length (c # cs)) None \<and>
    ce_s c = re \<and> set (c # cs) = set (used cache) \<and> map ce_s (c # cs) = re # filter (\<lambda>s. s \<noteq> re) (map ce_s (used cache)) \<and>
    length (c # cs) = length (used cache)"
proof -
  let ?u = "used cache" and ?k = "CACHE_SIZE - length (used cache)"
  note u = cache_ok_used [OF ok]
  have "re \<in> ce_s ` set ?u" and iu: "i = length (takeWhile (\<lambda>c. ce_s c \<noteq> re) ?u)"
    using i unfolding u(1) [THEN arg_cong, of "\<lambda>c. cache_find c re"] cache_find_map by (auto split: if_splits)
  then have "\<exists>c \<in> set ?u. ce_s c = re" by auto
  from split_list_first_prop [OF this] obtain xs c ys where
    s: "?u = xs @ c # ys" "ce_s c = re" "\<forall>x \<in> set xs. ce_s x \<noteq> re" by blast
  have ix: "i = length xs" unfolding iu s(1) using s(2,3) by (simp add: takeWhile_append2)
  define R where "R = replicate ?k (None :: ('a, 'b) cache_entry option)"
  have c: "cache = map Some xs @ Some c # map Some ys @ R" using u(1) s(1) by (simp add: R_def)
  have "cache ! i = Some c" "take i cache = map Some xs" "drop (Suc i) cache = map Some ys @ R"
    unfolding c ix by (simp_all add: nth_append)
  then have "(if i > 0 then shift_in cache i (cache ! i) else cache) = Some c # map Some xs @ map Some ys @ replicate ?k None"
    unfolding R_def [symmetric] using ix c by (cases xs) (simp_all add: shift_in_def)
  moreover have "distinct (map ce_s (xs @ c # ys))" using u(3) s(1) by simp
  then have "re \<notin> ce_s ` set ys" using s(2) by simp
  then have "\<forall>y \<in> set ys. ce_s y \<noteq> re" by blast
  then have "filter (\<lambda>s. s \<noteq> re) (map ce_s ?u) = map ce_s (xs @ ys)"
    unfolding s(1) using s(2,3) by (simp add: filter_map comp_def)
  ultimately show ?thesis using s(1,2) by (intro exI [of _ c] exI [of _ "xs @ ys"]) auto
qed

text \<open>It is not found: the new entry comes first and the last one is dropped when the cache is full.\<close>

lemma new_cache:
  assumes ok: "cache_ok lib cache" and new: "cache_find cache re = None"
  shows "shift_in cache (CACHE_SIZE - 1) (Some c) =
    map Some (take CACHE_SIZE (c # used cache)) @ replicate (CACHE_SIZE - length (take CACHE_SIZE (c # used cache))) None"
    and "re \<notin> ce_s ` set (used cache)"
proof -
  let ?u = "used cache"
  note u = cache_ok_used [OF ok]
  show "re \<notin> ce_s ` set ?u"
    using new unfolding u(1) [THEN arg_cong, of "\<lambda>c. cache_find c re"] cache_find_map by (auto split: if_splits)
  have l: "length cache = CACHE_SIZE" using u(2) by (subst u(1)) simp
  have p: "CACHE_SIZE = Suc (CACHE_SIZE - 1)" by (simp add: CACHE_SIZE_def)
  have "shift_in cache (CACHE_SIZE - 1) (Some c) = Some c # take (CACHE_SIZE - 1) cache"
    unfolding shift_in_def p [symmetric] using l by simp
  also have "take (CACHE_SIZE - 1) cache =
      map Some (take (CACHE_SIZE - 1) ?u) @ replicate (CACHE_SIZE - 1 - length ?u) None"
    by (subst u(1)) (simp add: take_map min_def)
  finally show "shift_in cache (CACHE_SIZE - 1) (Some c) =
    map Some (take CACHE_SIZE (c # ?u)) @ replicate (CACHE_SIZE - length (take CACHE_SIZE (c # ?u))) None"
    by (subst p) (simp add: min_def)
qed

section \<open>Calls\<close>

lemma set_cache_simps [simp]: "caches (set_cache st conn x) = (caches st)(conn := x)" "mylock (set_cache st conn x) = mylock st"
  by (simp_all add: set_cache_def)

lemma regexp_cached:
  assumes ok: "cache_ok lib (caches st conn)" and i: "cache_find (caches st conn) re = Some i"
  shows "\<exists>p st'. regexp lib dup st conn (Some re) (Some str) = (Result_int (lib_exec lib p (lib_study lib p) str \<ge> 0), st') \<and>
    lib_compile lib re = Inr p \<and> cache_ok lib (caches st' conn) \<and> mylock st' = mylock st \<and>
    map ce_s (used (caches st' conn)) = re # filter (\<lambda>s. s \<noteq> re) (map ce_s (used (caches st conn))) \<and>
    set (used (caches st' conn)) = set (used (caches st conn)) \<and> (\<forall>c. c \<noteq> conn \<longrightarrow> caches st' c = caches st c)"
proof -
  let ?cache = "caches st conn"
  from found_cache [OF ok i] obtain c cs where f: "(if i > 0 then shift_in ?cache i (?cache ! i) else ?cache) =
      map Some (c # cs) @ replicate (CACHE_SIZE - length (c # cs)) None" "ce_s c = re" "set (c # cs) = set (used ?cache)"
    "map ce_s (c # cs) = re # filter (\<lambda>s. s \<noteq> re) (map ce_s (used ?cache))" "length (c # cs) = length (used ?cache)" by (elim exE conjE) (rule that; assumption)
  let ?cache' = "map Some (c # cs) @ replicate (CACHE_SIZE - length (c # cs)) None"
  note u = cache_ok_used [OF ok]
  have cl: "lib_compile lib (ce_s x) = Inr (ce_p x) \<and> ce_e x = lib_study lib (ce_p x)" if "x \<in> set (c # cs)" for x
    using u(4) f(3) that by blast
  have comp: "lib_compile lib re = Inr (ce_p c)" using cl [of c] f(2) by simp
  have "distinct (map ce_s (c # cs))" unfolding f(4) using u(3) by simp
  then have "cache_ok lib ?cache'" using u(2) f(5) cl by (intro cache_okI) auto
  moreover have "regexp lib dup st conn (Some re) (Some str) =
      (Result_int (lib_exec lib (ce_p c) (lib_study lib (ce_p c)) str \<ge> 0), set_cache st conn ?cache')"
    using i cl [of c] by (simp add: regexp_def Let_def f(1) run_first_def)
  moreover have "used (caches (set_cache st conn ?cache') conn) = c # cs" by (simp only: set_cache_simps fun_upd_same used_map)
  ultimately show ?thesis using f(2-4) comp
    by (intro exI [of _ "ce_p c"] exI [of _ "set_cache st conn ?cache'"]) simp
qed

lemma regexp_new:
  assumes ok: "cache_ok lib (caches st conn)" and new: "cache_find (caches st conn) re = None" and p: "lib_compile lib re = Inr p"
    and "\<not> mylock st" and dup
  shows "\<exists>st'. regexp lib dup st conn (Some re) (Some str) = (Result_int (lib_exec lib p (lib_study lib p) str \<ge> 0), st') \<and>
    cache_ok lib (caches st' conn) \<and> \<not> mylock st' \<and>
    map ce_s (used (caches st' conn)) = take CACHE_SIZE (re # filter (\<lambda>s. s \<noteq> re) (map ce_s (used (caches st conn)))) \<and>
    (\<forall>c. c \<noteq> conn \<longrightarrow> caches st' c = caches st c)"
proof -
  let ?cache = "caches st conn" and ?c = "\<lparr>ce_s = re, ce_p = p, ce_e = lib_study lib p\<rparr>"
  let ?cs = "take CACHE_SIZE (?c # used ?cache)"
  let ?cache' = "map Some ?cs @ replicate (CACHE_SIZE - length ?cs) None"
  let ?st = "set_cache (st\<lparr>mylock := False\<rparr>) conn ?cache'"
  note u = cache_ok_used [OF ok] and n = new_cache(1) [OF ok new, of ?c, unfolded One_nat_def] new_cache(2) [OF ok new]
  have hd: "hd ?cache' = Some ?c" by (simp add: CACHE_SIZE_def)
  have "distinct (map ce_s (?c # used ?cache))" using u(3) n(2) by auto
  then have "distinct (map ce_s ?cs)" unfolding take_map [symmetric] by (rule distinct_take)
  moreover have "lib_compile lib (ce_s x) = Inr (ce_p x) \<and> ce_e x = lib_study lib (ce_p x)" if "x \<in> set ?cs" for x
    using in_set_takeD [OF that] u(4) p by auto
  ultimately have "cache_ok lib ?cache'" by (intro cache_okI) auto
  moreover have "regexp lib dup st conn (Some re) (Some str) = (Result_int (lib_exec lib p (lib_study lib p) str \<ge> 0), ?st)"
    using assms(2-5) hd by (simp add: regexp_def Let_def n(1) run_first_def)
  moreover have "filter (\<lambda>s. s \<noteq> re) (map ce_s (used ?cache)) = map ce_s (used ?cache)"
    using n(2) by (auto simp: filter_id_conv)
  moreover have "used (caches ?st conn) = ?cs" by (simp only: set_cache_simps fun_upd_same used_map)
  ultimately show ?thesis by (intro exI [of _ ?st]) (simp add: take_map [symmetric])
qed

text \<open>While the mutex is held no entry is added to a cache, by a call or by loading the extension again.\<close>

definition stuck :: "('p, 'e) pcre_lib \<Rightarrow> ('p, 'e) regex_state \<Rightarrow> bool" where
  "stuck lib st \<longleftrightarrow> mylock st \<and> is_mylock_valid st \<and> (\<forall>c. cache_ok lib (caches st c))"

lemma used_free [simp]: "used (replicate n None) = []"
  using used_map [of "[]" n] by simp

lemma cache_ok_free: "cache_ok lib (replicate CACHE_SIZE None)"
  using cache_okI [of "[]" lib] by simp

lemma regexp_valid [simp]: "is_mylock_valid (snd (regexp lib dup st conn re str)) = is_mylock_valid st"
  by (simp add: regexp_def Let_def set_cache_def split: option.split sum.split prod.split)

lemma regexp_stuck:
  assumes "stuck lib st" and "regexp lib dup st conn re str = (r, st')"
  shows "stuck lib st' \<and> (\<forall>c. set (used (caches st' c)) \<subseteq> set (used (caches st c)))"
proof (cases "re = None \<or> str = None \<or> cache_find (caches st conn) (the re) = None")
  case True
  then have "st' = st" using assms by (auto simp: stuck_def regexp_def Let_def split: option.splits)
  with assms(1) show ?thesis by simp
next
  case False
  then obtain re' str' i where c: "re = Some re'" "str = Some str'" "cache_find (caches st conn) re' = Some i" by auto
  have ok: "cache_ok lib (caches st c)" and l: "mylock st" "is_mylock_valid st" for c using assms(1) by (simp_all add: stuck_def)
  from regexp_cached [OF ok c(3), of dup str'] assms(2) obtain
    n: "cache_ok lib (caches st' conn)" "mylock st' = mylock st" "set (used (caches st' conn)) = set (used (caches st conn))"
      "\<forall>c. c \<noteq> conn \<longrightarrow> caches st' c = caches st c" unfolding c(1,2) by (elim exE conjE) simp
  have "is_mylock_valid st'" using regexp_valid [of lib dup st conn re str] assms(2) l by simp
  moreover have "cache_ok lib (caches st' c) \<and> set (used (caches st' c)) = set (used (caches st c))" for c
    using n ok [of c] by (cases "c = conn") simp_all
  ultimately show ?thesis using n(2) l by (simp add: stuck_def)
qed

lemma init_stuck:
  "stuck lib st \<Longrightarrow> stuck lib (snd (sqlite3_regex_init ok st conn)) \<and>
   (\<forall>c. set (used (caches (snd (sqlite3_regex_init ok st conn)) c)) \<subseteq> set (used (caches st c)))"
  by (auto simp: stuck_def sqlite3_regex_init_def Let_def set_cache_def cache_ok_free)

text \<open>What the connections do, in the order in which the calls are executed.\<close>

datatype regex_call = Load bool nat | Call bool nat "string option" "string option"

fun calls :: "('p, 'e) pcre_lib \<Rightarrow> regex_call list \<Rightarrow> ('p, 'e) regex_state \<Rightarrow> ('p, 'e) regex_state" where
  "calls lib [] st = st"
| "calls lib (Load ok conn # xs) st = calls lib xs (snd (sqlite3_regex_init ok st conn))"
| "calls lib (Call dup conn re str # xs) st = calls lib xs (snd (regexp lib dup st conn re str))"

lemma calls_stuck:
  "stuck lib st \<Longrightarrow> stuck lib (calls lib xs st) \<and> (\<forall>c. set (used (caches (calls lib xs st) c)) \<subseteq> set (used (caches st c)))"
proof (induction lib xs st rule: calls.induct)
  case (2 lib ok conn xs st)
  from init_stuck [OF 2(2), of ok conn] have s: "stuck lib (snd (sqlite3_regex_init ok st conn))"
    "\<And>c. set (used (caches (snd (sqlite3_regex_init ok st conn)) c)) \<subseteq> set (used (caches st c))" by simp_all
  from 2(1) [OF s(1)] s(2) show ?case by (simp, blast)
next
  case (3 lib dup conn re str xs st)
  obtain r st' where r: "regexp lib dup st conn re str = (r, st')" by fastforce
  from regexp_stuck [OF 3(2) r] have s: "stuck lib st'" "\<And>c. set (used (caches st' c)) \<subseteq> set (used (caches st c))" by simp_all
  from 3(1) s r show ?case by (simp, blast)
qed simp

section \<open>Properties\<close>

text \<open>A library whose patterns are literal strings and for which only the empty pattern is an error.\<close>

definition literal_lib :: "(string, unit) pcre_lib" where
  "literal_lib = \<lparr>lib_compile = (\<lambda>re. if re = [] then Inl (''empty'', 0) else Inr re), lib_study = (\<lambda>p. ()),
     lib_exec = (\<lambda>p e str. if p = str then 0 else -1)\<rparr>"

definition empty_state :: "('p, 'e) regex_state" where
  "empty_state = \<lparr>caches = (\<lambda>conn. replicate CACHE_SIZE None), mylock = False, is_mylock_valid = True\<rparr>"

lemma used_empty [simp]: "used (caches empty_state c) = []"
  by (simp add: empty_state_def)

lemma empty_state_ok: "cache_ok lib (caches empty_state c)"
  by (simp add: empty_state_def cache_ok_free)

text \<open>C29: the cache is transparent and least-recently-used: with the mutex free, a call with a pattern that
  compiles returns what the library returns for that pattern, whatever the cache of the connection
  holds; afterwards the mutex is free, the caches satisfy the invariant (used entries first, no pattern
  twice, each with its own compiled form), the pattern is first and the others keep their order, the
  last one being dropped when the cache was full; other connections are not touched.\<close>

theorem regexp_cache_transparent:
  assumes "\<And>c. cache_ok lib (caches st c)" and "\<not> mylock st" and "lib_compile lib re = Inr p" and "dup"
  shows "\<exists>st'. regexp lib dup st conn (Some re) (Some str) = (Result_int (lib_exec lib p (lib_study lib p) str \<ge> 0), st') \<and>
    (\<forall>c. cache_ok lib (caches st' c)) \<and> \<not> mylock st' \<and> (\<forall>c. c \<noteq> conn \<longrightarrow> caches st' c = caches st c) \<and>
    map ce_s (used (caches st' conn)) = take CACHE_SIZE (re # filter (\<lambda>s. s \<noteq> re) (map ce_s (used (caches st conn))))"
proof -
  have all: "\<forall>c. cache_ok lib (caches st' c)" if "cache_ok lib (caches st' conn)" "\<forall>c. c \<noteq> conn \<longrightarrow> caches st' c = caches st c" for st'
    using that assms(1) by metis
  show ?thesis
  proof (cases "cache_find (caches st conn) re")
    case None
    from regexp_new [OF assms(1) None assms(3,2,4), of str] obtain st' where
      r: "regexp lib dup st conn (Some re) (Some str) = (Result_int (lib_exec lib p (lib_study lib p) str \<ge> 0), st')"
        "cache_ok lib (caches st' conn)" "\<not> mylock st'"
        "map ce_s (used (caches st' conn)) = take CACHE_SIZE (re # filter (\<lambda>s. s \<noteq> re) (map ce_s (used (caches st conn))))"
        "\<forall>c. c \<noteq> conn \<longrightarrow> caches st' c = caches st c" by (elim exE conjE) (rule that; assumption)
    with all [OF r(2,5)] show ?thesis by blast
  next
    case (Some i)
    from regexp_cached [OF assms(1) Some, of dup str] obtain q st' where
      r: "regexp lib dup st conn (Some re) (Some str) = (Result_int (lib_exec lib q (lib_study lib q) str \<ge> 0), st')"
        "lib_compile lib re = Inr q" "cache_ok lib (caches st' conn)" "mylock st' = mylock st"
        "map ce_s (used (caches st' conn)) = re # filter (\<lambda>s. s \<noteq> re) (map ce_s (used (caches st conn)))"
        "\<forall>c. c \<noteq> conn \<longrightarrow> caches st' c = caches st c" by (elim exE conjE) (rule that; assumption)
    have "length (map ce_s (used (caches st' conn))) \<le> CACHE_SIZE" using cache_ok_used(2) [OF r(3)] by simp
    then have "map ce_s (used (caches st' conn)) = take CACHE_SIZE (re # filter (\<lambda>s. s \<noteq> re) (map ce_s (used (caches st conn))))"
      unfolding r(5) by simp
    with r(1,2,4,6) assms(2,3) all [OF r(3,6)] show ?thesis by auto
  qed
qed

theorem regexp_cache_transparent_witness:
  "\<exists>st'. regexp literal_lib True empty_state 1 (Some ''ab'') (Some ''ab'') = (Result_int True, st') \<and>
     map ce_s (used (caches st' 1)) = [''ab'']"
proof -
  have "\<not> mylock (empty_state :: (string, unit) regex_state)" "lib_compile literal_lib ''ab'' = Inr ''ab''"
    "lib_exec literal_lib ''ab'' e ''ab'' = 0" for e
    by (simp_all add: empty_state_def literal_lib_def)
  with regexp_cache_transparent [OF empty_state_ok, of literal_lib "''ab''" "''ab''" True 1 "''ab''"] show ?thesis
    by (auto simp: CACHE_SIZE_def)
qed

text \<open>C38: a pattern that does not compile leaves the mutex locked: the call reports the error, but every later
  call, on any connection and after any other calls and loads of the extension, whose pattern is not already in the cache of its
  connection blocks for ever.\<close>

theorem regexp_bad_pattern_deadlock:
  assumes "\<And>c. cache_ok lib (caches st c)" and "\<not> mylock st" and "is_mylock_valid st" and "lib_compile lib re = Inl (err, pos)"
    and "re2 \<notin> ce_s ` set (used (caches st conn2))"
  shows "fst (regexp lib dup st conn (Some re) (Some str)) = Result_compile_error re err pos \<and>
    fst (regexp lib dup2 (calls lib xs (snd (regexp lib dup st conn (Some re) (Some str)))) conn2 (Some re2) (Some str2)) = Blocked"
proof -
  have find: "cache_find (caches s c) r = None" if "cache_ok lib (caches s c)" "r \<notin> ce_s ` set (used (caches s c))" for s c r
    using that(2) by (subst cache_ok_used(1) [OF that(1)]) (simp add: cache_find_map)
  have "re \<notin> ce_s ` set (used (caches st conn))" using cache_ok_used(4) [OF assms(1)] assms(4) by auto
  then have r: "regexp lib dup st conn (Some re) (Some str) = (Result_compile_error re err pos, st\<lparr>mylock := True\<rparr>)"
    using assms(2,4) find [OF assms(1)] by (simp add: regexp_def Let_def)
  let ?st = "calls lib xs (st\<lparr>mylock := True\<rparr>)"
  have "stuck lib (st\<lparr>mylock := True\<rparr>)" using assms(1,3) by (simp add: stuck_def)
  from calls_stuck [OF this, of xs] have s: "stuck lib ?st" "set (used (caches ?st conn2)) \<subseteq> set (used (caches st conn2))" by simp_all
  then have "re2 \<notin> ce_s ` set (used (caches ?st conn2))" using assms(5) by blast
  with find [of ?st conn2 re2] s(1) have "cache_find (caches ?st conn2) re2 = None" "mylock ?st" by (simp_all add: stuck_def)
  then show ?thesis using r by (simp add: regexp_def Let_def)
qed

theorem regexp_bad_pattern_deadlock_witness:
  "fst (regexp literal_lib True (calls literal_lib [] (snd (regexp literal_lib True empty_state 1 (Some []) (Some ''x'')))) 2 (Some ''a'') (Some ''x'')) =
   Blocked"
proof -
  have "''a'' \<notin> ce_s ` set (used (caches (empty_state :: (string, unit) regex_state) 2))" by simp
  moreover have "\<not> mylock (empty_state :: (string, unit) regex_state)" "is_mylock_valid (empty_state :: (string, unit) regex_state)"
    "lib_compile literal_lib [] = Inl (''empty'', 0)" by (simp_all add: empty_state_def literal_lib_def)
  ultimately show ?thesis using regexp_bad_pattern_deadlock [OF empty_state_ok, of literal_lib "[]" "''empty''" 0 "''a''" 2] by blast
qed

end
