(* ===== verification/Unicode_Tables.thy ===== *)
theory Unicode_Tables
  imports Prelude
begin

text \<open>
  The Unicode tables of \<^verbatim>\<open>fts3_html_tokenizer.c\<close> and the functions that search them: which code points
  are letters or digits (\<open>sqlite3FtsUnicodeIsalnum\<close>), which are combining marks
  (\<open>sqlite3FtsUnicodeIsdiacritic\<close>), folding to lower case (\<open>sqlite3FtsUnicodeFold\<close>) and the removal of
  diacritics (\<open>remove_diacritic\<close>). Code points are integers. Shown: the binary searches end and give what a
  search through the whole table gives.
\<close>

section \<open>Tables\<close>

text \<open>The ranges of code points that are neither letters nor digits: 22 bits for the first one, 10 bits for their number.\<close>

definition alnum_aEntry :: "int list" where
  "alnum_aEntry = [
    0x00000030, 0x0000E807, 0x00016C06, 0x0001EC2F, 0x0002AC07, 0x0002D001, 0x0002D803, 0x0002EC01,
    0x0002FC01, 0x00035C01, 0x0003DC01, 0x000B0804, 0x000B480E, 0x000B9407, 0x000BB401, 0x000BBC81,
    0x000DD401, 0x000DF801, 0x000E1002, 0x000E1C01, 0x000FD801, 0x00120808, 0x00156806, 0x00162402,
    0x00163C01, 0x00164437, 0x0017CC02, 0x00180005, 0x00181816, 0x00187802, 0x00192C15, 0x0019A804,
    0x0019C001, 0x001B5001, 0x001B580F, 0x001B9C07, 0x001BF402, 0x001C000E, 0x001C3C01, 0x001C4401,
    0x001CC01B, 0x001E980B, 0x001FAC09, 0x001FD804, 0x00205804, 0x00206C09, 0x00209403, 0x0020A405,
    0x0020C00F, 0x00216403, 0x00217801, 0x0023901B, 0x00240004, 0x0024E803, 0x0024F812, 0x00254407,
    0x00258804, 0x0025C001, 0x00260403, 0x0026F001, 0x0026F807, 0x00271C02, 0x00272C03, 0x00275C01,
    0x00278802, 0x0027C802, 0x0027E802, 0x00280403, 0x0028F001, 0x0028F805, 0x00291C02, 0x00292C03,
    0x00294401, 0x0029C002, 0x0029D401, 0x002A0403, 0x002AF001, 0x002AF808, 0x002B1C03, 0x002B2C03,
    0x002B8802, 0x002BC002, 0x002C0403, 0x002CF001, 0x002CF807, 0x002D1C02, 0x002D2C03, 0x002D5802,
    0x002D8802, 0x002DC001, 0x002E0801, 0x002EF805, 0x002F1803, 0x002F2804, 0x002F5C01, 0x002FCC08,
    0x00300403, 0x0030F807, 0x00311803, 0x00312804, 0x00315402, 0x00318802, 0x0031FC01, 0x00320802,
    0x0032F001, 0x0032F807, 0x00331803, 0x00332804, 0x00335402, 0x00338802, 0x00340802, 0x0034F807,
    0x00351803, 0x00352804, 0x00355C01, 0x00358802, 0x0035E401, 0x00360802, 0x00372801, 0x00373C06,
    0x00375801, 0x00376008, 0x0037C803, 0x0038C401, 0x0038D007, 0x0038FC01, 0x00391C09, 0x00396802,
    0x003AC401, 0x003AD006, 0x003AEC02, 0x003B2006, 0x003C041F, 0x003CD00C, 0x003DC417, 0x003E340B,
    0x003E6424, 0x003EF80F, 0x003F380D, 0x0040AC14, 0x00412806, 0x00415804, 0x00417803, 0x00418803,
    0x00419C07, 0x0041C404, 0x0042080C, 0x00423C01, 0x00426806, 0x0043EC01, 0x004D740C, 0x004E400A,
    0x00500001, 0x0059B402, 0x005A0001, 0x005A6C02, 0x005BAC03, 0x005C4803, 0x005CC805, 0x005D4802,
    0x005DC802, 0x005ED023, 0x005F6004, 0x005F7401, 0x0060000F, 0x0062A401, 0x0064800C, 0x0064C00C,
    0x00650001, 0x00651002, 0x0066C011, 0x00672002, 0x00677822, 0x00685C05, 0x00687802, 0x0069540A,
    0x0069801D, 0x0069FC01, 0x006A8007, 0x006AA006, 0x006C0005, 0x006CD011, 0x006D6823, 0x006E0003,
    0x006E840D, 0x006F980E, 0x006FF004, 0x00709014, 0x0070EC05, 0x0071F802, 0x00730008, 0x00734019,
    0x0073B401, 0x0073C803, 0x00770027, 0x0077F004, 0x007EF401, 0x007EFC03, 0x007F3403, 0x007F7403,
    0x007FB403, 0x007FF402, 0x00800065, 0x0081A806, 0x0081E805, 0x00822805, 0x0082801A, 0x00834021,
    0x00840002, 0x00840C04, 0x00842002, 0x00845001, 0x00845803, 0x00847806, 0x00849401, 0x00849C01,
    0x0084A401, 0x0084B801, 0x0084E802, 0x00850005, 0x00852804, 0x00853C01, 0x00864264, 0x00900027,
    0x0091000B, 0x0092704E, 0x00940200, 0x009C0475, 0x009E53B9, 0x00AD400A, 0x00B39406, 0x00B3BC03,
    0x00B3E404, 0x00B3F802, 0x00B5C001, 0x00B5FC01, 0x00B7804F, 0x00B8C00C, 0x00BA001A, 0x00BA6C59,
    0x00BC00D6, 0x00BFC00C, 0x00C00005, 0x00C02019, 0x00C0A807, 0x00C0D802, 0x00C0F403, 0x00C26404,
    0x00C28001, 0x00C3EC01, 0x00C64002, 0x00C6580A, 0x00C70024, 0x00C8001F, 0x00C8A81E, 0x00C94001,
    0x00C98020, 0x00CA2827, 0x00CB003F, 0x00CC0100, 0x01370040, 0x02924037, 0x0293F802, 0x02983403,
    0x0299BC10, 0x029A7C01, 0x029BC008, 0x029C0017, 0x029C8002, 0x029E2402, 0x02A00801, 0x02A01801,
    0x02A02C01, 0x02A08C09, 0x02A0D804, 0x02A1D004, 0x02A20002, 0x02A2D011, 0x02A33802, 0x02A38012,
    0x02A3E003, 0x02A4980A, 0x02A51C0D, 0x02A57C01, 0x02A60004, 0x02A6CC1B, 0x02A77802, 0x02A8A40E,
    0x02A90C01, 0x02A93002, 0x02A97004, 0x02A9DC03, 0x02A9EC01, 0x02AAC001, 0x02AAC803, 0x02AADC02,
    0x02AAF802, 0x02AB0401, 0x02AB7802, 0x02ABAC07, 0x02ABD402, 0x02AF8C0B, 0x03600001, 0x036DFC02,
    0x036FFC02, 0x037FFC01, 0x03EC7801, 0x03ECA401, 0x03EEC810, 0x03F4F802, 0x03F7F002, 0x03F8001A,
    0x03F88007, 0x03F8C023, 0x03F95013, 0x03F9A004, 0x03FBFC01, 0x03FC040F, 0x03FC6807, 0x03FCEC06,
    0x03FD6C0B, 0x03FF8007, 0x03FFA007, 0x03FFE405, 0x04040003, 0x0404DC09, 0x0405E411, 0x0406400C,
    0x0407402E, 0x040E7C01, 0x040F4001, 0x04215C01, 0x04247C01, 0x0424FC01, 0x04280403, 0x04281402,
    0x04283004, 0x0428E003, 0x0428FC01, 0x04294009, 0x0429FC01, 0x042CE407, 0x04400003, 0x0440E016,
    0x04420003, 0x0442C012, 0x04440003, 0x04449C0E, 0x04450004, 0x04460003, 0x0446CC0E, 0x04471404,
    0x045AAC0D, 0x0491C004, 0x05BD442E, 0x05BE3C04, 0x074000F6, 0x07440027, 0x0744A4B5, 0x07480046,
    0x074C0057, 0x075B0401, 0x075B6C01, 0x075BEC01, 0x075C5401, 0x075CD401, 0x075D3C01, 0x075DBC01,
    0x075E2401, 0x075EA401, 0x075F0C01, 0x07BBC002, 0x07C0002C, 0x07C0C064, 0x07C2800F, 0x07C2C40E,
    0x07C3040F, 0x07C3440F, 0x07C4401F, 0x07C4C03C, 0x07C5C02B, 0x07C7981D, 0x07C8402B, 0x07C90009,
    0x07C94002, 0x07CC0021, 0x07CCC006, 0x07CCDC46, 0x07CE0014, 0x07CE8025, 0x07CF1805, 0x07CF8011,
    0x07D0003F, 0x07D10001, 0x07D108B6, 0x07D3E404, 0x07D4003E, 0x07D50004, 0x07D54018, 0x07D7EC46,
    0x07D9140B, 0x07DA0046, 0x07DC0074, 0x38000401, 0x38008060, 0x380400F0]"

definition aAscii :: "int list" where
  "aAscii = [0xFFFFFFFF, 0xFC00FFFF, 0xF8000001, 0xF8000001]"

definition aDia :: "int list" where
  "aDia = [
    0, 1797, 1848, 1859, 1891, 1928, 1940, 1995, 2024, 2040, 2060, 2110, 2168, 2206,
    2264, 2286, 2344, 2383, 2472, 2488, 2516, 2596, 2668, 2732, 2782, 2842, 2894, 2954,
    2984, 3000, 3028, 3336, 3456, 3696, 3712, 3728, 3744, 3896, 3912, 3928, 3968, 4008,
    4040, 4106, 4138, 4170, 4202, 4234, 4266, 4296, 4312, 4344, 4408, 4424, 4472, 4504,
    6148, 6198, 6264, 6280, 6360, 6429, 6505, 6529, 61448, 61468, 61534, 61592, 61642, 61688,
    61704, 61726, 61784, 61800, 61836, 61880, 61914, 61948, 61998, 62122, 62154, 62200, 62218, 62302,
    62364, 62442, 62478, 62536, 62554, 62584, 62604, 62640, 62648, 62656, 62664, 62730, 62924, 63050,
    63082, 63274, 63390]"

definition aChar :: "int list" where
  "aChar = [
    0, 97, 99, 101, 105, 110, 111, 117, 121, 121, 97, 99, 100, 101, 101, 103, 104, 105, 106, 107,
    108, 110, 111, 114, 115, 116, 117, 117, 119, 121, 122, 111, 117, 97, 105, 111, 117, 103, 107, 111,
    106, 103, 110, 97, 101, 105, 111, 114, 117, 115, 116, 104, 97, 101, 111, 121, 0, 0, 0, 0,
    0, 0, 0, 0, 97, 98, 100, 100, 101, 102, 103, 104, 104, 105, 107, 108, 108, 109, 110, 112,
    114, 114, 115, 116, 117, 118, 119, 119, 120, 121, 122, 104, 116, 119, 121, 97, 101, 105, 111, 117,
    121]"

text \<open>The rules for folding: first code point, flags, number of code points.\<close>

record TableEntry =
  iCode :: int
  flags :: int
  nRange :: int

definition fold_aEntry :: "TableEntry list" where
  "fold_aEntry = map (\<lambda>(c, f, n). \<lparr>iCode = c, flags = f, nRange = n\<rparr>) [
    (65, 14, 26), (181, 64, 1), (192, 14, 23), (216, 14, 7), (256, 1, 48), (306, 1, 6),
    (313, 1, 16), (330, 1, 46), (376, 116, 1), (377, 1, 6), (383, 104, 1), (385, 50, 1),
    (386, 1, 4), (390, 44, 1), (391, 0, 1), (393, 42, 2), (395, 0, 1), (398, 32, 1),
    (399, 38, 1), (400, 40, 1), (401, 0, 1), (403, 42, 1), (404, 46, 1), (406, 52, 1),
    (407, 48, 1), (408, 0, 1), (412, 52, 1), (413, 54, 1), (415, 56, 1), (416, 1, 6),
    (422, 60, 1), (423, 0, 1), (425, 60, 1), (428, 0, 1), (430, 60, 1), (431, 0, 1),
    (433, 58, 2), (435, 1, 4), (439, 62, 1), (440, 0, 1), (444, 0, 1), (452, 2, 1),
    (453, 0, 1), (455, 2, 1), (456, 0, 1), (458, 2, 1), (459, 1, 18), (478, 1, 18),
    (497, 2, 1), (498, 1, 4), (502, 122, 1), (503, 134, 1), (504, 1, 40), (544, 110, 1),
    (546, 1, 18), (570, 70, 1), (571, 0, 1), (573, 108, 1), (574, 68, 1), (577, 0, 1),
    (579, 106, 1), (580, 28, 1), (581, 30, 1), (582, 1, 10), (837, 36, 1), (880, 1, 4),
    (886, 0, 1), (902, 18, 1), (904, 16, 3), (908, 26, 1), (910, 24, 2), (913, 14, 17),
    (931, 14, 9), (962, 0, 1), (975, 4, 1), (976, 140, 1), (977, 142, 1), (981, 146, 1),
    (982, 144, 1), (984, 1, 24), (1008, 136, 1), (1009, 138, 1), (1012, 130, 1), (1013, 128, 1),
    (1015, 0, 1), (1017, 152, 1), (1018, 0, 1), (1021, 110, 3), (1024, 34, 16), (1040, 14, 32),
    (1120, 1, 34), (1162, 1, 54), (1216, 6, 1), (1217, 1, 14), (1232, 1, 88), (1329, 22, 38),
    (4256, 66, 38), (4295, 66, 1), (4301, 66, 1), (7680, 1, 150), (7835, 132, 1), (7838, 96, 1),
    (7840, 1, 96), (7944, 150, 8), (7960, 150, 6), (7976, 150, 8), (7992, 150, 8), (8008, 150, 6),
    (8025, 151, 8), (8040, 150, 8), (8072, 150, 8), (8088, 150, 8), (8104, 150, 8), (8120, 150, 2),
    (8122, 126, 2), (8124, 148, 1), (8126, 100, 1), (8136, 124, 4), (8140, 148, 1), (8152, 150, 2),
    (8154, 120, 2), (8168, 150, 2), (8170, 118, 2), (8172, 152, 1), (8184, 112, 2), (8186, 114, 2),
    (8188, 148, 1), (8486, 98, 1), (8490, 92, 1), (8491, 94, 1), (8498, 12, 1), (8544, 8, 16),
    (8579, 0, 1), (9398, 10, 26), (11264, 22, 47), (11360, 0, 1), (11362, 88, 1), (11363, 102, 1),
    (11364, 90, 1), (11367, 1, 6), (11373, 84, 1), (11374, 86, 1), (11375, 80, 1), (11376, 82, 1),
    (11378, 0, 1), (11381, 0, 1), (11390, 78, 2), (11392, 1, 100), (11499, 1, 4), (11506, 0, 1),
    (42560, 1, 46), (42624, 1, 24), (42786, 1, 14), (42802, 1, 62), (42873, 1, 4), (42877, 76, 1),
    (42878, 1, 10), (42891, 0, 1), (42893, 74, 1), (42896, 1, 4), (42912, 1, 10), (42922, 72, 1),
    (65313, 14, 26)]"

definition aiOff :: "int list" where
  "aiOff = [
    1, 2, 8, 15, 16, 26, 28, 32, 37, 38, 40, 48, 63, 64,
    69, 71, 79, 80, 116, 202, 203, 205, 206, 207, 209, 210, 211, 213,
    214, 217, 218, 219, 775, 7264, 10792, 10795, 23228, 23256, 30204, 54721, 54753, 54754,
    54756, 54787, 54793, 54809, 57153, 57274, 57921, 58019, 58363, 61722, 65268, 65341, 65373, 65406,
    65408, 65410, 65415, 65424, 65436, 65439, 65450, 65462, 65472, 65476, 65478, 65480, 65482, 65488,
    65506, 65511, 65514, 65521, 65527, 65528, 65529]"

definition sqlite3Utf8Trans1 :: "int list" where
  "sqlite3Utf8Trans1 = [
    0x00, 0x01, 0x02, 0x03, 0x04, 0x05, 0x06, 0x07, 0x08, 0x09, 0x0a, 0x0b, 0x0c, 0x0d, 0x0e, 0x0f,
    0x10, 0x11, 0x12, 0x13, 0x14, 0x15, 0x16, 0x17, 0x18, 0x19, 0x1a, 0x1b, 0x1c, 0x1d, 0x1e, 0x1f,
    0x00, 0x01, 0x02, 0x03, 0x04, 0x05, 0x06, 0x07, 0x08, 0x09, 0x0a, 0x0b, 0x0c, 0x0d, 0x0e, 0x0f,
    0x00, 0x01, 0x02, 0x03, 0x04, 0x05, 0x06, 0x07, 0x00, 0x01, 0x02, 0x03, 0x00, 0x01, 0x00, 0x00]"

section \<open>Functions\<close>

definition sqlite3FtsUnicodeIsdiacritic :: "int \<Rightarrow> int" where
  "sqlite3FtsUnicodeIsdiacritic c =
     (let mask0 = 0x08029FDF; mask1 = 0x000361F8
      in if c < 768 \<or> c > 817 then 0
         else if c < 768 + 32 then mask0 AND push_bit (nat (c - 768)) 1
         else mask1 AND push_bit (nat (c - 768 - 32)) 1)"

text \<open>The loop of the three searches: \<open>ge i\<close> is the comparison of the key with entry \<open>i\<close>; the last entry for which
  it was true is returned, the start value if there was none.\<close>

function search :: "(nat \<Rightarrow> bool) \<Rightarrow> int \<Rightarrow> int \<Rightarrow> int \<Rightarrow> int" where
  "search ge iLo iHi iRes =
     (if iHi \<ge> iLo
      then let iTest = (iHi + iLo) div 2
           in if ge (nat iTest) then search ge (iTest + 1) iHi iTest else search ge iLo (iTest - 1) iRes
      else iRes)"
  by pat_completeness auto
termination by (relation "measure (\<lambda>(ge, iLo, iHi, iRes). nat (iHi - iLo + 1))") (auto simp: Let_def)

declare search.simps [simp del]

definition sqlite3FtsUnicodeIsalnum :: "int \<Rightarrow> bool" where
  "sqlite3FtsUnicodeIsalnum c =
     (if c < 128 then aAscii ! nat (drop_bit 5 c) AND push_bit (nat (c AND 0x001F)) 1 = 0
      else if c < push_bit 22 1
      then let key = push_bit 10 c OR 0x000003FF;
               iRes = search (\<lambda>i. key \<ge> alnum_aEntry ! i) 0 (int (length alnum_aEntry) - 1) 0;
               e = alnum_aEntry ! nat iRes
           in c \<ge> drop_bit 10 e + (e AND 0x3FF)
      else True)"

definition remove_diacritic :: "int \<Rightarrow> int" where
  "remove_diacritic c =
     (let key = push_bit 3 c OR 0x00000007;
          iRes = search (\<lambda>i. key \<ge> aDia ! i) 0 (int (length aDia) - 1) 0;
          e = aDia ! nat iRes
      in if c > drop_bit 3 e + (e AND 0x07) then c else aChar ! nat iRes)"

definition sqlite3FtsUnicodeFold :: "int \<Rightarrow> bool \<Rightarrow> int" where
  "sqlite3FtsUnicodeFold c bRemoveDiacritic =
     (if c < 128 then if c \<ge> 65 \<and> c \<le> 90 then c + (97 - 65) else c
      else if c < 65536
      then let iRes = search (\<lambda>i. c - iCode (fold_aEntry ! i) \<ge> 0) 0 (int (length fold_aEntry) - 1) (-1);
               p = fold_aEntry ! nat iRes;
               ret = (if iRes \<ge> 0 \<and> c < iCode p + nRange p \<and> 0x01 AND flags p AND (iCode p XOR c) = 0
                      then (c + aiOff ! nat (drop_bit 1 (flags p))) AND 0x0000FFFF else c)
           in if bRemoveDiacritic then remove_diacritic ret else ret
      else if c \<ge> 66560 \<and> c < 66600 then c + 40 else c)"

section \<open>The binary search\<close>

text \<open>If the comparison holds for the first \<open>k\<close> of \<open>n\<close> entries, the search returns the last of them.\<close>

lemma search_inv:
  assumes "\<And>i. i < n \<Longrightarrow> ge i \<longleftrightarrow> i < k" and "0 \<le> iLo" and "iLo \<le> int k" and "int k \<le> iHi + 1" and "iHi < int n"
  shows "search ge iLo iHi (if iLo = 0 then r else iLo - 1) = (if k = 0 then r else int k - 1)"
  using assms(2-)
proof (induction "nat (iHi - iLo + 1)" arbitrary: iLo iHi rule: less_induct)
  case less
  show ?case
  proof (cases "iHi \<ge> iLo")
    case True
    let ?t = "(iHi + iLo) div 2"
    have t: "iLo \<le> ?t" "?t \<le> iHi" using True by auto
    have g: "ge (nat ?t) \<longleftrightarrow> ?t < int k" using assms(1) [of "nat ?t"] t less.prems by auto
    show ?thesis
    proof (cases "?t < int k")
      case True
      have "search ge (?t + 1) iHi (if ?t + 1 = 0 then r else ?t + 1 - 1) = (if k = 0 then r else int k - 1)"
        using True t less.prems by (intro less.hyps) auto
      then show ?thesis using True g t \<open>iLo \<le> iHi\<close> less.prems(1) by (subst search.simps) (simp add: Let_def)
    next
      case False
      have "search ge iLo (?t - 1) (if iLo = 0 then r else iLo - 1) = (if k = 0 then r else int k - 1)"
        using False t less.prems by (intro less.hyps) auto
      then show ?thesis using False g \<open>iLo \<le> iHi\<close> by (subst search.simps) (simp add: Let_def)
    qed
  next
    case False
    then show ?thesis using less.prems by (subst search.simps) auto
  qed
qed

lemma search_count:
  assumes "\<And>i. i < n \<Longrightarrow> ge i \<longleftrightarrow> i < k" and "k \<le> n"
  shows "search ge 0 (int n - 1) r = (if k = 0 then r else int k - 1)"
  using search_inv [of n ge k 0 "int n - 1" r] assms by simp

text \<open>Entries in order: \<open>k\<close> is the number of those that begin at or before the code point.\<close>

definition upto_code :: "('a \<Rightarrow> int) \<Rightarrow> 'a list \<Rightarrow> int \<Rightarrow> nat" where
  "upto_code start xs c = length (takeWhile (\<lambda>e. start e \<le> c) xs)"

lemma upto_code:
  assumes "sorted_wrt (\<lambda>a b. start a < start b) xs" and "i < length xs"
  shows "start (xs ! i) \<le> c \<longleftrightarrow> i < upto_code start xs c"
  using assms
proof (induction xs arbitrary: i)
  case (Cons x xs)
  show ?case
  proof (cases i)
    case 0
    then show ?thesis by (simp add: upto_code_def)
  next
    case (Suc j)
    with Cons have "start (xs ! j) \<le> c \<longleftrightarrow> j < upto_code start xs c" "start x < start (xs ! j)" by auto
    with Suc show ?thesis by (auto simp: upto_code_def)
  qed
qed simp

lemma upto_code_le: "upto_code start xs c \<le> length xs"
  by (simp add: upto_code_def length_takeWhile_le)

text \<open>\<open>ranges start end xs\<close>: the ranges from \<open>start e\<close> up to \<open>end e\<close> are not empty, in order and disjoint.\<close>

definition ranges :: "('a \<Rightarrow> int) \<Rightarrow> ('a \<Rightarrow> int) \<Rightarrow> 'a list \<Rightarrow> bool" where
  "ranges start end xs \<longleftrightarrow> list_all (\<lambda>e. start e < end e) xs \<and> successively (\<lambda>a b. end a \<le> start b) xs"

lemma ranges_sorted:
  assumes "ranges start end xs"
  shows "sorted_wrt (\<lambda>a b. end a \<le> start b) xs" "sorted_wrt (\<lambda>a b. start a < start b) xs"
proof -
  from assms show s: "sorted_wrt (\<lambda>a b. end a \<le> start b) xs"
  proof (induction xs)
    case (Cons x xs)
    then have r: "ranges start end xs" by (auto simp: ranges_def successively_Cons)
    have "end x \<le> start y" if "y \<in> set xs" for y
    proof (cases xs)
      case (Cons z zs)
      from Cons.prems \<open>xs = z # zs\<close> have "end x \<le> start z" "start z < end z" by (auto simp: ranges_def)
      moreover have "y = z \<or> end z \<le> start y" using Cons.IH [OF r] \<open>xs = z # zs\<close> that by auto
      ultimately show ?thesis by auto
    qed (use that in simp)
    with Cons.IH [OF r] show ?case by simp
  qed simp
  show "sorted_wrt (\<lambda>a b. start a < start b) xs"
    using assms by (intro sorted_wrt_mono_rel [OF _ s]) (fastforce simp: ranges_def list_all_iff)
qed

lemma in_some_range:
  assumes "ranges start end xs"
  shows "(\<exists>e \<in> set xs. start e \<le> c \<and> c < end e) \<longleftrightarrow>
    (let k = upto_code start xs c in k > 0 \<and> c < end (xs ! (k - 1)))"
proof -
  let ?k = "upto_code start xs c"
  note s = ranges_sorted [OF assms]
  have "i = ?k - 1 \<and> ?k > 0" if i: "i < length xs" "start (xs ! i) \<le> c" "c < end (xs ! i)" for i
  proof -
    have "i < ?k" using upto_code [OF s(2) i(1)] i(2) by simp
    moreover have False if "i < ?k - 1"
    proof -
      have k: "?k - 1 < length xs" "?k - 1 < ?k" using that i(1) upto_code_le [of start xs c] by auto
      then have "end (xs ! i) \<le> start (xs ! (?k - 1))" using sorted_wrt_nth_less [OF s(1) that] by simp
      moreover have "start (xs ! (?k - 1)) \<le> c" using upto_code [OF s(2) k(1)] k(2) by simp
      ultimately show False using i(3) by simp
    qed
    ultimately show ?thesis by fastforce
  qed
  moreover have "start (xs ! (?k - 1)) \<le> c \<and> xs ! (?k - 1) \<in> set xs" if "?k > 0"
    using upto_code [OF s(2), of "?k - 1"] that upto_code_le [of start xs c] by auto
  ultimately show ?thesis unfolding Let_def by (metis in_set_conv_nth)
qed

text \<open>The search through all entries of a table.\<close>

definition range_of :: "('a \<Rightarrow> int) \<Rightarrow> ('a \<Rightarrow> int) \<Rightarrow> 'a list \<Rightarrow> int \<Rightarrow> nat option" where
  "range_of start end xs c = find (\<lambda>i. start (xs ! i) \<le> c \<and> c < end (xs ! i)) [0..<length xs]"

lemma range_of_upto:
  assumes "ranges start end xs"
  shows "range_of start end xs c =
    (let k = upto_code start xs c in if k > 0 \<and> c < end (xs ! (k - 1)) then Some (k - 1) else None)"
proof -
  let ?k = "upto_code start xs c"
  note s = ranges_sorted [OF assms]
  show ?thesis
  proof (cases "?k > 0 \<and> c < end (xs ! (?k - 1))")
    case True
    have k: "?k - 1 < length xs" "?k - 1 < ?k" using True upto_code_le [of start xs c] by auto
    moreover have "start (xs ! (?k - 1)) \<le> c" using upto_code [OF s(2) k(1)] k(2) by simp
    moreover have "\<not> c < end (xs ! j)" if "j < ?k - 1" for j
      using sorted_wrt_nth_less [OF s(1) that] k(1) \<open>start (xs ! (?k - 1)) \<le> c\<close> by simp
    ultimately show ?thesis using True by (auto simp: range_of_def find_Some_iff Let_def intro!: exI [of _ "?k - 1"])
  next
    case False
    then have "\<not> (\<exists>e \<in> set xs. start e \<le> c \<and> c < end e)" using in_some_range [OF assms] by (simp add: Let_def)
    then show ?thesis using False by (auto simp: range_of_def find_None_iff Let_def)
  qed
qed

section \<open>The three tables\<close>

abbreviation (input) alnum_start :: "int \<Rightarrow> int" where "alnum_start e \<equiv> e div 1024"
abbreviation (input) alnum_end :: "int \<Rightarrow> int" where "alnum_end e \<equiv> e div 1024 + e mod 1024"
abbreviation (input) dia_start :: "int \<Rightarrow> int" where "dia_start e \<equiv> e div 8"
abbreviation (input) dia_end :: "int \<Rightarrow> int" where "dia_end e \<equiv> e div 8 + e mod 8 + 1"
abbreviation (input) rule_end :: "TableEntry \<Rightarrow> int" where "rule_end p \<equiv> iCode p + nRange p"

lemma ranges_simps [simp]:
  "ranges start end []" "ranges start end [a] \<longleftrightarrow> start a < end a"
  "ranges start end (a # b # xs) \<longleftrightarrow> start a < end a \<and> end a \<le> start b \<and> ranges start end (b # xs)"
  by (auto simp: ranges_def)

lemma alnum_ranges: "ranges alnum_start alnum_end alnum_aEntry"
  unfolding alnum_aEntry_def by simp

lemma dia_ranges: "ranges dia_start dia_end aDia"
  unfolding aDia_def by simp

lemma fold_ranges: "ranges iCode rule_end fold_aEntry"
  unfolding fold_aEntry_def by simp

lemma key_or: "push_bit n c OR mask n = c * 2 ^ n + (2 ^ n - 1 :: int)"
proof -
  have "push_bit n c AND mask n = (0 :: int)" by (simp add: take_bit_eq_mask [symmetric] take_bit_push_bit)
  then have "push_bit n c OR mask n = push_bit n c + (mask n :: int)" by (simp add: disjunctive_add_eq_or)
  then show ?thesis by (simp add: push_bit_eq_mult mask_eq_exp_minus_1)
qed

lemma key_ge:
  assumes "(0 :: int) < m"
  shows "c * m + (m - 1) \<ge> e \<longleftrightarrow> e div m \<le> c"
proof -
  define q r where "q = e div m" and "r = e mod m"
  have e: "e = m * q + r" "0 \<le> r" "r < m" using assms by (simp_all add: q_def r_def)
  show ?thesis
  proof (cases "q \<le> c")
    case True
    then have "m * q \<le> m * c" using assms by (intro mult_left_mono) simp_all
    then have "e \<le> c * m + (m - 1)" unfolding mult.commute [of c m] using e by linarith
    with True show ?thesis unfolding q_def [symmetric] by simp
  next
    case False
    then have "m * (c + 1) \<le> m * q" using assms by (intro mult_left_mono) simp_all
    with False e show ?thesis unfolding q_def [symmetric] by (simp add: algebra_simps)
  qed
qed

lemma search_table:
  assumes "ranges start end xs" and "\<And>i. i < length xs \<Longrightarrow> ge i \<longleftrightarrow> start (xs ! i) \<le> c"
  shows "search ge 0 (int (length xs) - 1) r = (let k = upto_code start xs c in if k = 0 then r else int k - 1)"
  unfolding Let_def using assms upto_code [OF ranges_sorted(2) [OF assms(1)]] upto_code_le
  by (intro search_count) auto

lemma upto_code_pos: "xs \<noteq> [] \<Longrightarrow> start (hd xs) \<le> c \<Longrightarrow> 0 < upto_code start xs c"
  by (cases xs) (simp_all add: upto_code_def)

lemma isalnum_table:
  assumes "128 \<le> c" and "c < 2 ^ 22"
  shows "sqlite3FtsUnicodeIsalnum c \<longleftrightarrow> range_of alnum_start alnum_end alnum_aEntry c = None"
proof -
  let ?k = "upto_code alnum_start alnum_aEntry c"
  have k: "0 < ?k" using assms(1) by (intro upto_code_pos) (simp_all add: alnum_aEntry_def)
  have key: "push_bit 10 c OR 0x3FF = c * 1024 + (1024 - 1)" using key_or [of 10 c] by (simp add: mask_eq_exp_minus_1)
  have s: "search (\<lambda>i. c * 1024 + (1024 - 1) \<ge> alnum_aEntry ! i) 0 (int (length alnum_aEntry) - 1) 0 = int ?k - 1"
    using search_table [OF alnum_ranges, of "\<lambda>i. c * 1024 + (1024 - 1) \<ge> alnum_aEntry ! i" c 0] k
    by (simp only: key_ge Let_def) simp
  have a: "e AND 0x3FF = e mod 1024" for e :: int using take_bit_eq_mask [of 10 e] by (simp add: take_bit_eq_mod mask_eq_exp_minus_1)
  show ?thesis unfolding range_of_upto [OF alnum_ranges] sqlite3FtsUnicodeIsalnum_def key Let_def s a
    using assms k by (auto simp: drop_bit_eq_div nat_diff_distrib push_bit_eq_mult not_less)
qed

lemma remove_diacritic_table:
  assumes "0 \<le> c"
  shows "remove_diacritic c = (case range_of dia_start dia_end aDia c of None \<Rightarrow> c | Some i \<Rightarrow> aChar ! i)"
proof -
  let ?k = "upto_code dia_start aDia c"
  have k: "0 < ?k" using assms(1) by (intro upto_code_pos) (simp_all add: aDia_def)
  have key: "push_bit 3 c OR 7 = c * 8 + (8 - 1)" using key_or [of 3 c] by (simp add: mask_eq_exp_minus_1)
  have s: "search (\<lambda>i. c * 8 + (8 - 1) \<ge> aDia ! i) 0 (int (length aDia) - 1) 0 = int ?k - 1"
    using search_table [OF dia_ranges, of "\<lambda>i. c * 8 + (8 - 1) \<ge> aDia ! i" c 0] k
    by (simp only: key_ge Let_def) simp
  have a: "e AND 7 = e mod 8" for e :: int using take_bit_eq_mask [of 3 e] by (simp add: take_bit_eq_mod mask_eq_exp_minus_1)
  show ?thesis unfolding range_of_upto [OF dia_ranges] remove_diacritic_def key Let_def s a
    using k by (auto simp: drop_bit_eq_div nat_diff_distrib)
qed

text \<open>Folding by the table: a rule with an odd flag applies to every second code point of its range only.\<close>

definition fold_rule :: "int \<Rightarrow> int" where
  "fold_rule c = (case range_of iCode rule_end fold_aEntry c of None \<Rightarrow> c
     | Some i \<Rightarrow> let p = fold_aEntry ! i
                in if even (flags p) \<or> even (c - iCode p) then (c + aiOff ! nat (flags p div 2)) mod 65536 else c)"

lemma flag_parity: "1 AND f AND (a XOR c) = 0 \<longleftrightarrow> even f \<or> even (c - a)" for f a c :: int
proof -
  have "1 AND f AND (a XOR c) = 0 \<longleftrightarrow> \<not> bit (f AND (a XOR c)) 0" by (simp add: and.assoc one_and_eq bit_0 even_iff_mod_2_eq_zero)
  then show ?thesis by (simp add: bit_0 even_and_iff even_xor_iff) blast
qed

lemma fold_table:
  assumes "128 \<le> c" and "c < 65536"
  shows "sqlite3FtsUnicodeFold c d = (if d then remove_diacritic (fold_rule c) else fold_rule c)"
proof -
  let ?k = "upto_code iCode fold_aEntry c"
  have k: "0 < ?k" using assms(1) by (intro upto_code_pos) (simp_all add: fold_aEntry_def)
  have s: "search (\<lambda>i. c - iCode (fold_aEntry ! i) \<ge> 0) 0 (int (length fold_aEntry) - 1) (-1) = int ?k - 1"
    using search_table [OF fold_ranges, of "\<lambda>i. c - iCode (fold_aEntry ! i) \<ge> 0" c "-1"] k by (simp add: Let_def)
  have a: "e AND 0xFFFF = e mod 65536" for e :: int using take_bit_eq_mask [of 16 e] by (simp add: take_bit_eq_mod mask_eq_exp_minus_1)
  have "fold_rule c = (let p = fold_aEntry ! nat (int ?k - 1)
      in if int ?k - 1 \<ge> 0 \<and> c < iCode p + nRange p \<and> 0x01 AND flags p AND (iCode p XOR c) = 0
         then (c + aiOff ! nat (drop_bit 1 (flags p))) AND 0x0000FFFF else c)"
    unfolding fold_rule_def range_of_upto [OF fold_ranges] a flag_parity using k
    by (simp add: Let_def nat_diff_distrib drop_bit_eq_div)
  then show ?thesis unfolding sqlite3FtsUnicodeFold_def s using assms by (simp add: Let_def)
qed

section \<open>Folding is idempotent\<close>

text \<open>The code points to which a rule applies lie before \<open>sel_end\<close>; \<open>apart p q\<close>: the rule \<open>q\<close> applies to none of the code
  points that the rule \<open>p\<close> gives.\<close>

definition selects :: "TableEntry \<Rightarrow> int \<Rightarrow> bool" where
  "selects p c \<longleftrightarrow> iCode p \<le> c \<and> c < rule_end p \<and> (even (flags p) \<or> even (c - iCode p))"

definition sel_end :: "TableEntry \<Rightarrow> int" where
  "sel_end p = iCode p + nRange p - flags p mod 2"

definition rule_target :: "TableEntry \<Rightarrow> int" where
  "rule_target p = (iCode p + aiOff ! nat (flags p div 2)) mod 65536"

definition apart :: "int \<times> int \<times> int \<Rightarrow> int \<times> int \<times> int \<Rightarrow> bool" where
  "apart = (\<lambda>(t, n, f) (b, m, g). t + n \<le> b \<or> b + m \<le> t \<or> odd g \<and> (odd f \<or> n = 1) \<and> odd (t - b))"

definition sources :: "(int \<times> int \<times> int) list" where
  "sources = map (\<lambda>p. (iCode p, sel_end p - iCode p, flags p mod 2)) fold_aEntry"

definition targets :: "(int \<times> int \<times> int) list" where
  "targets = map (\<lambda>p. (rule_target p, sel_end p - iCode p, flags p mod 2)) fold_aEntry"

lemma apart_simp [simp]: "apart (t, n, f) (b, m, g) \<longleftrightarrow> t + n \<le> b \<or> b + m \<le> t \<or> odd g \<and> (odd f \<or> n = 1) \<and> odd (t - b)"
  by (simp add: apart_def)

text \<open>A check of all pairs in one pass over both lists, each in the order of the first components.\<close>

fun ahead :: "int \<times> int \<times> int \<Rightarrow> (int \<times> int \<times> int) list \<Rightarrow> bool" where
  "ahead p [] = True"
| "ahead p (q # qs) = (fst p + fst (snd p) \<le> fst q \<or> apart p q \<and> ahead p qs)"

fun pairs_apart :: "(int \<times> int \<times> int) list \<Rightarrow> (int \<times> int \<times> int) list \<Rightarrow> bool" where
  "pairs_apart [] qs = True"
| "pairs_apart ps [] = True"
| "pairs_apart (p # ps) (q # qs) =
     (if fst q + fst (snd q) \<le> fst p then pairs_apart (p # ps) qs else ahead p (q # qs) \<and> pairs_apart ps (q # qs))"

lemma ahead_sound: "ahead p qs \<Longrightarrow> sorted (map fst qs) \<Longrightarrow> q \<in> set qs \<Longrightarrow> apart p q"
proof (induction p qs rule: ahead.induct)
  case (2 p q' qs)
  then show ?case by (cases p; cases q'; cases q) fastforce
qed simp

lemma pairs_apart_sound:
  "pairs_apart ps qs \<Longrightarrow> sorted (map fst ps) \<Longrightarrow> sorted (map fst qs) \<Longrightarrow> p \<in> set ps \<Longrightarrow> q \<in> set qs \<Longrightarrow> apart p q"
proof (induction ps qs rule: pairs_apart.induct)
  case (3 p' ps q' qs)
  show ?case
  proof (cases "fst q' + fst (snd q') \<le> fst p'")
    case True
    then have "apart p q'" using 3(4,6) by (cases p; cases q'; cases p') auto
    with True 3 show ?thesis by auto
  next
    case False
    with 3(3) have "ahead p' (q' # qs)" "pairs_apart ps (q' # qs)" by auto
    with False 3(2,4-7) ahead_sound [of p' "q' # qs" q] show ?thesis by auto
  qed
qed simp_all

lemma all_pairs_apart: "pairs_apart (sort_key fst targets) sources"
  by code_simp

lemma sources_sorted: "sorted (map fst sources)"
  by code_simp

lemma odd_rules: "list_all (\<lambda>p. odd (flags p) \<longrightarrow> even (nRange p)) fold_aEntry" "list_all (\<lambda>p. rule_target p + nRange p \<le> 65536) fold_aEntry"
  by code_simp+

lemma rules_apart: "p \<in> set targets \<Longrightarrow> q \<in> set sources \<Longrightarrow> apart p q"
  using pairs_apart_sound [OF all_pairs_apart _ sources_sorted] by simp

lemma range_of_Some:
  "range_of start end xs c = Some i \<Longrightarrow> i < length xs \<and> start (xs ! i) \<le> c \<and> c < end (xs ! i)"
  by (auto simp: range_of_def find_Some_iff)

lemma fold_rule_cases:
  assumes "0 \<le> c" and "c < 65536"
  obtains (same) "fold_rule c = c" "\<And>p. p \<in> set fold_aEntry \<Longrightarrow> \<not> selects p c"
  | (rule) p where "p \<in> set fold_aEntry" "selects p c" "fold_rule c = rule_target p + (c - iCode p)"
proof (cases "\<exists>p \<in> set fold_aEntry. selects p c")
  case False
  then have "fold_rule c = c"
    by (auto simp: fold_rule_def selects_def Let_def split: option.split dest!: range_of_Some)
  with False same show thesis by blast
next
  case True
  then obtain j where "j < length fold_aEntry" "selects (fold_aEntry ! j) c" by (metis in_set_conv_nth)
  note j = this
  then obtain i where i: "range_of iCode rule_end fold_aEntry c = Some i"
    by (cases "range_of iCode rule_end fold_aEntry c") (auto simp: range_of_def find_None_iff selects_def)
  note r = range_of_Some [OF i]
  have "i = j"
  proof (rule ccontr)
    assume "i \<noteq> j"
    then show False using sorted_wrt_nth_less [OF ranges_sorted(1) [OF fold_ranges], of i j]
        sorted_wrt_nth_less [OF ranges_sorted(1) [OF fold_ranges], of j i] r j by (auto simp: selects_def linorder_neq_iff)
  qed
  let ?p = "fold_aEntry ! i"
  have p: "?p \<in> set fold_aEntry" using r by simp
  have e: "fold_rule c = (c + aiOff ! nat (flags ?p div 2)) mod 65536"
    using i j \<open>i = j\<close> by (auto simp: fold_rule_def selects_def Let_def)
  have "0 \<le> rule_target ?p + (c - iCode ?p)" "rule_target ?p + (c - iCode ?p) < 65536"
    using r bspec [OF odd_rules(2) [unfolded list_all_iff] p] by (simp_all add: rule_target_def)
  then have "fold_rule c = rule_target ?p + (c - iCode ?p)"
    using mod_add_left_eq [of "iCode ?p + aiOff ! nat (flags ?p div 2)" 65536 "c - iCode ?p"]
    unfolding e rule_target_def by (simp add: add.commute)
  with rule p j \<open>i = j\<close> show thesis by blast
qed

lemma fold_rule_bounds: "0 \<le> c \<Longrightarrow> c < 65536 \<Longrightarrow> 0 \<le> fold_rule c \<and> fold_rule c < 65536"
  by (auto simp: fold_rule_def Let_def split: option.split)

lemma not_selected: "\<lbrakk>\<And>p. p \<in> set fold_aEntry \<Longrightarrow> \<not> selects p c\<rbrakk> \<Longrightarrow> fold_rule c = c"
  by (auto simp: fold_rule_def selects_def Let_def split: option.split dest!: range_of_Some)

lemma selects_sel_end:
  assumes "selects p c" and "p \<in> set fold_aEntry"
  shows "c < sel_end p"
proof (cases "even (flags p)")
  case True
  then show ?thesis using assms(1) by (simp add: selects_def sel_end_def even_iff_mod_2_eq_zero)
next
  case False
  then have "even (nRange p)" "even (c - iCode p)" "c - iCode p < nRange p" using assms odd_rules(1) by (auto simp: list_all_iff selects_def)
  then have "c - iCode p \<noteq> nRange p - 1" by (metis diff_add_cancel even_add odd_one)
  with \<open>c - iCode p < nRange p\<close> False show ?thesis by (simp add: sel_end_def odd_iff_mod_2_eq_one)
qed

lemma fold_rule_selected:
  assumes "p \<in> set fold_aEntry" and "selects p c" and "q \<in> set fold_aEntry"
  shows "\<not> selects q (rule_target p + (c - iCode p))"
proof
  let ?t = "rule_target p + (c - iCode p)"
  assume q: "selects q ?t"
  have e: "c < sel_end p" "?t < sel_end q" "iCode p \<le> c" "iCode q \<le> ?t"
    using selects_sel_end assms q by (auto simp: selects_def)
  have "(rule_target p, sel_end p - iCode p, flags p mod 2) \<in> set targets" "(iCode q, sel_end q - iCode q, flags q mod 2) \<in> set sources"
    using assms(1,3) by (auto simp: targets_def sources_def)
  from rules_apart [OF this] e have "odd (flags q)" "odd (flags p) \<or> sel_end p - iCode p = 1" "odd (rule_target p - iCode q)" by auto
  moreover have "even (c - iCode p)"
  proof (cases "odd (flags p)")
    case False
    then have "c = iCode p" using calculation(2) e by linarith
    then show ?thesis by simp
  qed (use assms(2) in \<open>simp add: selects_def\<close>)
  moreover have "even (?t - iCode q)" using q calculation(1) by (auto simp: selects_def)
  ultimately show False by auto
qed

lemma fold_rule_idem: "0 \<le> c \<Longrightarrow> c < 65536 \<Longrightarrow> fold_rule (fold_rule c) = fold_rule c"
  by (erule (1) fold_rule_cases) (simp_all add: not_selected fold_rule_selected)

lemma aChar_lower: "list_all (\<lambda>ch. ch = 0 \<or> 97 \<le> ch \<and> ch \<le> 122) aChar" and length_aChar: "length aDia = length aChar"
  by code_simp+

lemma ascii_rule: "c < 128 \<Longrightarrow> fold_rule c = c \<Longrightarrow> \<not> (65 \<le> c \<and> c \<le> 90)"
proof
  assume a: "fold_rule c = c" "65 \<le> c \<and> c \<le> 90"
  have p: "\<lparr>iCode = 65, flags = 14, nRange = 26\<rparr> \<in> set fold_aEntry" "aiOff ! 7 = 32" by (simp_all add: fold_aEntry_def aiOff_def)
  have s: "selects \<lparr>iCode = 65, flags = 14, nRange = 26\<rparr> c" and b: "0 \<le> c" "c < 65536" using a(2) by (simp_all add: selects_def)
  from b show False
  proof (cases rule: fold_rule_cases)
    case same
    with s p(1) show False by blast
  next
    case (rule q)
    from fold_rule_selected [OF rule(1,2) rule(1)] rule(2,3) a(1) show False by simp
  qed
qed

lemma remove_diacritic_cases:
  "0 \<le> c \<Longrightarrow> remove_diacritic c = c \<or> remove_diacritic c = 0 \<or> 97 \<le> remove_diacritic c \<and> remove_diacritic c \<le> 122"
  using aChar_lower length_aChar
  by (auto simp: remove_diacritic_table list_all_length split: option.split dest!: range_of_Some)

section \<open>Properties\<close>

lemma isalnum_ascii:
  assumes "0 \<le> c" and "c < 128"
  shows "sqlite3FtsUnicodeIsalnum c \<longleftrightarrow> c \<in> {48..57} \<union> {65..90} \<union> {97..122}"
proof -
  have "list_all (\<lambda>c. sqlite3FtsUnicodeIsalnum c = (48 \<le> c \<and> c \<le> 57 \<or> 65 \<le> c \<and> c \<le> 90 \<or> 97 \<le> c \<and> c \<le> 122)) (map int [0..<128])"
    by code_simp
  then have "\<forall>i < 128. sqlite3FtsUnicodeIsalnum (int i) = (48 \<le> i \<and> i \<le> 57 \<or> 65 \<le> i \<and> i \<le> 90 \<or> 97 \<le> i \<and> i \<le> 122)"
    by (simp add: list_all_iff)
  moreover obtain i where "c = int i" "i < 128" using assms nonneg_int_cases [of c] by auto
  ultimately show ?thesis by simp
qed

text \<open>C26: \<open>sqlite3FtsUnicodeIsalnum\<close>: among the ASCII characters exactly the digits and letters; above them, every code
  point that lies in none of the ranges of the table. The binary search, which looks at a few entries
  only, always finds the range if there is one.\<close>

theorem unicode_isalnum_reference:
  assumes "0 \<le> c"
  shows "sqlite3FtsUnicodeIsalnum c \<longleftrightarrow>
    (if c < 128 then c \<in> {48..57} \<union> {65..90} \<union> {97..122}
     else c \<ge> 2 ^ 22 \<or> \<not> (\<exists>e \<in> set alnum_aEntry. e div 1024 \<le> c \<and> c < e div 1024 + e mod 1024))"
proof (cases "c < 128 \<or> 2 ^ 22 \<le> c")
  case True
  then show ?thesis using assms by (auto simp: isalnum_ascii) (simp_all add: sqlite3FtsUnicodeIsalnum_def)
next
  case False
  then have "range_of alnum_start alnum_end alnum_aEntry c = None \<longleftrightarrow> \<not> (\<exists>e \<in> set alnum_aEntry. e div 1024 \<le> c \<and> c < e div 1024 + e mod 1024)"
    unfolding range_of_def find_None_iff by (metis add_0 atLeastLessThan_iff in_set_conv_nth le0 set_upt)
  with False show ?thesis by (simp add: isalnum_table)
qed

theorem unicode_isalnum_reference_witness:
  "(\<not> sqlite3FtsUnicodeIsalnum 215) = (\<exists>e \<in> set alnum_aEntry. e div 1024 \<le> 215 \<and> 215 < e div 1024 + e mod 1024)"
  using unicode_isalnum_reference [of 215] by simp

text \<open>C25: \<open>sqlite3FtsUnicodeFold\<close> applies the rule of the table in whose range the code point lies, to each or to every second
  code point of the range, then the table of diacritics; a second application changes nothing.\<close>

theorem unicode_fold_reference:
  assumes "0 \<le> c"
  shows "sqlite3FtsUnicodeFold c d =
      (if c < 128 then if 65 \<le> c \<and> c \<le> 90 then c + 32 else c
       else if c < 65536
       then case range_of dia_start dia_end (if d then aDia else []) (fold_rule c) of None \<Rightarrow> fold_rule c | Some i \<Rightarrow> aChar ! i
       else if 66560 \<le> c \<and> c < 66600 then c + 40 else c) \<and>
    sqlite3FtsUnicodeFold (sqlite3FtsUnicodeFold c d) d = sqlite3FtsUnicodeFold c d"
proof
  have n: "range_of start end [] x = None" for start :: "'a \<Rightarrow> int" and "end" x by (simp add: range_of_def)
  show "sqlite3FtsUnicodeFold c d =
      (if c < 128 then if 65 \<le> c \<and> c \<le> 90 then c + 32 else c
       else if c < 65536
       then case range_of dia_start dia_end (if d then aDia else []) (fold_rule c) of None \<Rightarrow> fold_rule c | Some i \<Rightarrow> aChar ! i
       else if 66560 \<le> c \<and> c < 66600 then c + 40 else c)" (is "?f = ?r")
  proof (cases "128 \<le> c \<and> c < 65536")
    case True
    with fold_rule_bounds [of c] show ?thesis by (simp add: fold_table remove_diacritic_table n)
  next
    case False
    then show ?thesis by (auto simp: sqlite3FtsUnicodeFold_def)
  qed
  show "sqlite3FtsUnicodeFold ?f d = ?f"
  proof (cases "128 \<le> c \<and> c < 65536")
    case True
    let ?t = "fold_rule c"
    have t: "0 \<le> ?t" "?t < 65536" "fold_rule ?t = ?t" using fold_rule_bounds [of c] fold_rule_idem [of c] True by simp_all
    have low: "sqlite3FtsUnicodeFold x d = x" if "x = 0 \<or> 97 \<le> x \<and> x \<le> 122" for x using that by (auto simp: sqlite3FtsUnicodeFold_def)
    have same: "sqlite3FtsUnicodeFold ?t d = ?t" if "d \<longrightarrow> remove_diacritic ?t = ?t"
    proof (cases "?t < 128")
      case True
      then show ?thesis using t ascii_rule [of ?t] by (auto simp: sqlite3FtsUnicodeFold_def)
    next
      case False
      then show ?thesis using t that by (simp add: fold_table)
    qed
    from True have f: "?f = (if d then remove_diacritic ?t else ?t)" by (simp add: fold_table)
    show ?thesis
    proof (cases "d \<longrightarrow> remove_diacritic ?t = ?t")
      case True
      then have "?f = ?t" using f by simp
      with same [OF True] show ?thesis by simp
    next
      case False
      then have "?f = 0 \<or> 97 \<le> ?f \<and> ?f \<le> 122" using f remove_diacritic_cases [OF t(1)] by auto
      then show ?thesis by (rule low)
    qed
  next
    case False
    with assms show ?thesis by (auto simp: sqlite3FtsUnicodeFold_def)
  qed
qed

theorem unicode_fold_reference_witness:
  "sqlite3FtsUnicodeFold (sqlite3FtsUnicodeFold 203 True) True = sqlite3FtsUnicodeFold 203 True \<and> sqlite3FtsUnicodeFold 203 True = 101"
  using unicode_fold_reference [of 203 True] by (simp, code_simp)

end
