(* ===== verification/Utf8_Codec.thy ===== *)
theory Utf8_Codec
  imports Unicode_Tables "HOL-Library.Monad_Syntax"
begin

text \<open>
  Reading and writing of UTF-8 in \<^verbatim>\<open>fts3_html_tokenizer.c\<close> (the macros \<open>READ_UTF8\<close> and \<open>WRITE_UTF8\<close>) on a memory that is
  a list of octets. \<open>None\<close> is the result of a read beyond that memory. Shown: a code point that was
  written is read back, whatever follows.
\<close>

section \<open>Definitions\<close>

definition at :: "bytes \<Rightarrow> nat \<Rightarrow> u8 option" where
  "at mem z = (if z < length mem then Some (mem ! z) else None)"

lemma at_less: "at mem z = Some b \<Longrightarrow> z < length mem"
  by (simp add: at_def split: if_splits)

text \<open>The proofs speak about the octets from a position on.\<close>

lemma at_drop: "drop z mem = x # xs \<Longrightarrow> at mem z = Some x"
  unfolding at_def by (metis drop_all hd_drop_conv_nth leI list.distinct(1) list.sel(1))

lemma drop_Suc_eq: "drop z mem = x # xs \<Longrightarrow> drop (Suc z) mem = xs"
  by (metis drop_Suc list.sel(3) tl_drop)

lemma drop_add_eq: "drop z mem = b @ xs \<Longrightarrow> drop (z + length b) mem = xs"
  by (metis add.commute append_eq_conv_conj drop_drop)

text \<open>The loop over the continuation octets; \<open>c\<close> is an \<^verbatim>\<open>int\<close> of 32 bits, taken to wrap around.\<close>

function read_cont :: "bytes \<Rightarrow> nat \<Rightarrow> nat \<Rightarrow> int \<Rightarrow> (nat \<times> int) option" where
  "read_cont mem zTerm z c =
     (if z = zTerm then Some (z, c)
      else case at mem z of None \<Rightarrow> None
           | Some b \<Rightarrow> if b AND 0xc0 = 0x80
                      then read_cont mem zTerm (z + 1) (signed_take_bit 31 (push_bit 6 c + (0x3f AND uint b)))
                      else Some (z, c))"
  by pat_completeness auto
termination by (relation "measure (\<lambda>(mem, zTerm, z, c). length mem - z)") (auto dest: at_less)

declare read_cont.simps [simp del]

definition READ_UTF8 :: "bytes \<Rightarrow> nat \<Rightarrow> nat \<Rightarrow> (nat \<times> int) option" where
  "READ_UTF8 mem zTerm zIn =
     do {
       b \<leftarrow> at mem zIn;
       if b \<ge> 0xc0
       then do {
         (z, c) \<leftarrow> read_cont mem zTerm (zIn + 1) (sqlite3Utf8Trans1 ! (unat b - 0xc0));
         Some (z, if c < 0x80 \<or> c AND 0xFFFFF800 = 0xD800 \<or> c AND 0xFFFFFFFE = 0xFFFE then 0xFFFD else c)
       }
       else Some (zIn + 1, uint b)
     }"

definition WRITE_UTF8 :: "int \<Rightarrow> bytes" where
  "WRITE_UTF8 c =
     (if c < 0x00080 then [word_of_int (c AND 0xFF)]
      else if c < 0x00800 then
        [0xC0 + word_of_int (drop_bit 6 c AND 0x1F), 0x80 + word_of_int (c AND 0x3F)]
      else if c < 0x10000 then
        [0xE0 + word_of_int (drop_bit 12 c AND 0x0F), 0x80 + word_of_int (drop_bit 6 c AND 0x3F), 0x80 + word_of_int (c AND 0x3F)]
      else
        [0xF0 + word_of_int (drop_bit 18 c AND 0x07), 0x80 + word_of_int (drop_bit 12 c AND 0x3F),
         0x80 + word_of_int (drop_bit 6 c AND 0x3F), 0x80 + word_of_int (c AND 0x3F)])"

section \<open>Lead and continuation octets\<close>

lemma uint_small: "0 \<le> x \<Longrightarrow> x < 256 \<Longrightarrow> uint (word_of_int x :: u8) = x"
  by (simp add: uint_word_of_int)

lemma and_masks: "x AND 0x3F = x mod 64" "x AND 0x1F = x mod 32" "x AND 0x0F = x mod 16" "x AND 0x07 = x mod 8" "x AND 0xFF = x mod 256"
  "0x3F AND x = x mod 64" for x :: int
  using take_bit_eq_mask [of 6 x] take_bit_eq_mask [of 5 x] take_bit_eq_mask [of 4 x] take_bit_eq_mask [of 3 x] take_bit_eq_mask [of 8 x]
  by (simp_all add: take_bit_eq_mod mask_eq_exp_minus_1 and.commute)

lemma uint_add_small:
  assumes "0 \<le> x" and "uint (k :: u8) + x < 256"
  shows "uint (k + word_of_int x) = uint k + x"
proof -
  have "x < 256" using assms(2) uint_ge_0 [of k] by linarith
  then show ?thesis using assms uint_small [of x] by (simp add: uint_word_ariths)
qed

definition is_cont :: "u8 \<Rightarrow> bool" where
  "is_cont b \<longleftrightarrow> b AND 0xc0 = 0x80"

lemma and_top_bits: "x AND 0xC0 = x div 64 mod 4 * 64" for x :: int
proof -
  have "x AND push_bit 6 (mask 2) = push_bit 6 (take_bit 2 (drop_bit 6 x))" by (rule bit_eqI) (auto simp: bit_simps)
  then show ?thesis by (simp add: push_bit_eq_mult take_bit_eq_mod drop_bit_eq_div mask_eq_exp_minus_1)
qed

lemma is_cont_range: "is_cont b \<longleftrightarrow> 0x80 \<le> uint b \<and> uint b < 0xc0"
proof -
  have "is_cont b \<longleftrightarrow> uint b div 64 mod 4 * 64 = 0x80"
    unfolding is_cont_def word_uint_eq_iff by (simp add: uint_and and_top_bits)
  moreover have b: "uint b < 256" "0 \<le> uint b" using uint_lt2p [of b] by simp_all
  then have "uint b div 64 mod 4 = uint b div 64" by (intro mod_pos_pos_trivial) (auto simp: pos_imp_zdiv_nonneg_iff)
  moreover have "uint b div 64 * 64 = 0x80 \<longleftrightarrow> uint b div 64 = 2" by simp
  moreover have "uint b div 64 = 2 \<longleftrightarrow> 0x80 \<le> uint b \<and> uint b < 0xc0"
    using div_mult_mod_eq [of "uint b" 64] pos_mod_bound [of 64 "uint b"] pos_mod_sign [of 64 "uint b"] by linarith
  ultimately show ?thesis by simp
qed

lemma cont_octet: "is_cont (0x80 + word_of_int (x mod 64))" "uint (0x80 + word_of_int (x mod 64) :: u8) = 0x80 + x mod 64"
proof -
  have "0 \<le> x mod 64" "x mod 64 < 64" by simp_all
  then show "uint (0x80 + word_of_int (x mod 64) :: u8) = 0x80 + x mod 64" using uint_add_small [of "x mod 64" "0x80"] by simp
  then show "is_cont (0x80 + word_of_int (x mod 64))" unfolding is_cont_range using \<open>0 \<le> x mod 64\<close> \<open>x mod 64 < 64\<close> by simp
qed

text \<open>A run of continuation octets before the end of the input or an octet of another kind.\<close>

definition after_char :: "bytes \<Rightarrow> nat \<Rightarrow> nat \<Rightarrow> bool" where
  "after_char mem zTerm z \<longleftrightarrow> z = zTerm \<or> z < zTerm \<and> z < length mem \<and> \<not> is_cont (mem ! z)"

lemma read_cont_stop: "after_char mem zTerm z \<Longrightarrow> read_cont mem zTerm z c = Some (z, c)"
  by (subst read_cont.simps) (auto simp: after_char_def at_def is_cont_def)

lemma signed_wrap: "0 \<le> x \<Longrightarrow> x < 2 ^ 31 \<Longrightarrow> signed_take_bit 31 x = (x :: int)"
  by (simp add: signed_take_bit_int_eq_self)

lemma read_cont_run:
  "list_all is_cont bs \<Longrightarrow> mem = pre @ bs @ post \<Longrightarrow> after_char mem zTerm (length pre + length bs) \<Longrightarrow>
   0 \<le> c \<Longrightarrow> (c + 1) * 64 ^ length bs \<le> 2 ^ 31 \<Longrightarrow>
   read_cont mem zTerm (length pre) c = Some (length pre + length bs, foldl (\<lambda>c b. c * 64 + uint b mod 64) c bs)"
proof (induction bs arbitrary: pre c)
  case Nil
  then show ?case by (simp add: read_cont_stop)
next
  case (Cons b bs)
  let ?c = "c * 64 + uint b mod 64"
  have m: "0 \<le> uint b mod 64" "uint b mod 64 < 64" by simp_all
  then have c0: "0 \<le> ?c" using Cons.prems(4) by simp
  have "(?c + 1) * 64 ^ length bs \<le> ((c + 1) * 64) * 64 ^ length bs" using m by (intro mult_right_mono) simp_all
  also have "\<dots> = (c + 1) * 64 ^ length (b # bs)" by simp
  also have "\<dots> \<le> 2 ^ 31" by (rule Cons.prems(5))
  finally have c1: "(?c + 1) * 64 ^ length bs \<le> 2 ^ 31" .
  have "?c + 1 \<le> (?c + 1) * 64 ^ length bs" using c0 by (simp add: mult_le_cancel_left1)
  with c1 have c2: "?c < 2 ^ 31" by linarith
  have z: "length pre \<noteq> zTerm" using Cons.prems(3) by (auto simp: after_char_def)
  have "at mem (length pre) = Some b" using Cons.prems(2) by (simp add: at_def)
  then have "read_cont mem zTerm (length pre) c = read_cont mem zTerm (length (pre @ [b])) ?c"
    using Cons.prems(1) z c0 c2 by (subst read_cont.simps) (simp add: is_cont_def and_masks push_bit_eq_mult signed_wrap)
  also have "\<dots> = Some (length (pre @ [b]) + length bs, foldl (\<lambda>c b. c * 64 + uint b mod 64) ?c bs)"
    using Cons.prems c0 c1 by (intro Cons.IH) simp_all
  finally show ?case by simp
qed

lemma trans1:
  "x < 32 \<Longrightarrow> sqlite3Utf8Trans1 ! x = int x" "x < 16 \<Longrightarrow> sqlite3Utf8Trans1 ! (32 + x) = int x" "x < 8 \<Longrightarrow> sqlite3Utf8Trans1 ! (48 + x) = int x"
proof -
  have "list_all (\<lambda>x. sqlite3Utf8Trans1 ! x = int x) [0..<32]" "list_all (\<lambda>x. sqlite3Utf8Trans1 ! (32 + x) = int x) [0..<16]"
    "list_all (\<lambda>x. sqlite3Utf8Trans1 ! (48 + x) = int x) [0..<8]" by code_simp+
  then show "x < 32 \<Longrightarrow> sqlite3Utf8Trans1 ! x = int x" "x < 16 \<Longrightarrow> sqlite3Utf8Trans1 ! (32 + x) = int x"
    "x < 8 \<Longrightarrow> sqlite3Utf8Trans1 ! (48 + x) = int x" by (simp_all add: list_all_iff)
qed

section \<open>Round trip\<close>

text \<open>The code points that \<open>READ_UTF8\<close> accepts: no surrogates, not U+FFFE and U+FFFF, and at most four octets.\<close>

definition scalar :: "int \<Rightarrow> bool" where
  "scalar c \<longleftrightarrow> 0 \<le> c \<and> c < 0x200000 \<and> \<not> (0xD800 \<le> c \<and> c < 0xE000) \<and> c \<noteq> 0xFFFE \<and> c \<noteq> 0xFFFF"

lemma scalar_kept:
  assumes "scalar c" and "0x80 \<le> c"
  shows "\<not> (c < 0x80 \<or> c AND 0xFFFFF800 = 0xD800 \<or> c AND 0xFFFFFFFE = 0xFFFE)"
proof -
  have "c AND push_bit 11 (mask 21) = push_bit 11 (take_bit 21 (drop_bit 11 c))" by (rule bit_eqI) (auto simp: bit_simps)
  then have a: "c AND 0xFFFFF800 = c div 2048 mod 2097152 * 2048"
    by (simp add: push_bit_eq_mult take_bit_eq_mod drop_bit_eq_div mask_eq_exp_minus_1)
  have "c AND push_bit n (mask m) = push_bit n (take_bit m (drop_bit n c))" for n m by (rule bit_eqI) (auto simp: bit_simps)
  from this [of 1 31] have b: "c AND 0xFFFFFFFE = c div 2 mod 2147483648 * 2"
    by (simp add: push_bit_eq_mult take_bit_eq_mod drop_bit_eq_div mask_eq_exp_minus_1)
  show ?thesis unfolding a b using assms by (auto simp: scalar_def)
qed

text \<open>The octets of a code point: a lead octet and continuation octets.\<close>

definition lead :: "int \<Rightarrow> int" where
  "lead c = (if c < 0x80 then c else if c < 0x800 then 0xC0 + c div 64 else if c < 0x10000 then 0xE0 + c div 4096 else 0xF0 + c div 262144)"

definition conts :: "int \<Rightarrow> bytes" where
  "conts c = map (\<lambda>x. 0x80 + word_of_int (x mod 64))
     (if c < 0x80 then [] else if c < 0x800 then [c] else if c < 0x10000 then [c div 64, c] else [c div 4096, c div 64, c])"

lemma lead_range: "scalar c \<Longrightarrow> 0 \<le> lead c \<and> lead c < 256"
  by (auto simp: scalar_def lead_def)

lemma write_lead_conts:
  assumes "scalar c"
  shows "WRITE_UTF8 c = word_of_int (lead c) # conts c"
proof -
  have "0 \<le> c" "c < 2097152" using assms by (simp_all add: scalar_def)
  then have "c div 262144 mod 8 = c div 262144" "c < 0x800 \<longrightarrow> c div 64 mod 32 = c div 64" "c < 0x10000 \<longrightarrow> c div 4096 mod 16 = c div 4096"
    "c < 0x80 \<longrightarrow> c mod 256 = c" by (auto intro!: mod_pos_pos_trivial)
  then show ?thesis
    by (simp add: WRITE_UTF8_def lead_def conts_def and_masks drop_bit_eq_div)
qed

lemma conts_cont: "list_all is_cont (conts c)"
  by (simp add: conts_def cont_octet list_all_iff)

definition payload :: "int \<Rightarrow> int" where
  "payload c = (if c < 0x800 then c div 64 else if c < 0x10000 then c div 4096 else c div 262144)"

lemma payload_trans1:
  assumes "scalar c" and "0x80 \<le> c"
  shows "sqlite3Utf8Trans1 ! (nat (lead c) - 0xc0) = payload c"
proof -
  have c: "c < 2097152" using assms(1) by (simp add: scalar_def)
  consider "c < 0x800" | "0x800 \<le> c" "c < 0x10000" | "0x10000 \<le> c" by linarith
  then show ?thesis
  proof cases
    case 1
    then have "nat (lead c) - 0xc0 = nat (c div 64)" "nat (c div 64) < 32" using assms(2) by (auto simp: lead_def nat_less_iff)
    with 1 assms(2) show ?thesis by (simp add: trans1(1) payload_def)
  next
    case 2
    then have "nat (lead c) - 0xc0 = 32 + nat (c div 4096)" "nat (c div 4096) < 16" by (auto simp: lead_def nat_less_iff nat_add_distrib)
    with 2 show ?thesis by (simp only: trans1(2) payload_def) simp
  next
    case 3
    then have "nat (lead c) - 0xc0 = 48 + nat (c div 262144)" "nat (c div 262144) < 8" using c by (auto simp: lead_def nat_less_iff nat_add_distrib)
    with 3 show ?thesis by (simp only: trans1(3) payload_def) simp
  qed
qed

lemma payload_bound:
  assumes "scalar c" and "0x80 \<le> c"
  shows "0 \<le> payload c" "(payload c + 1) * 64 ^ length (conts c) \<le> 2 ^ 31"
proof -
  have c: "c < 2097152" using assms(1) by (simp add: scalar_def)
  with assms(2) show "0 \<le> payload c" by (auto simp: payload_def)
  from c assms(2) show "(payload c + 1) * 64 ^ length (conts c) \<le> 2 ^ 31" by (auto simp: payload_def conts_def)
qed

lemma payload_conts:
  assumes "scalar c" and "0x80 \<le> c"
  shows "foldl (\<lambda>c b. c * 64 + uint b mod 64) (payload c) (conts c) = c"
proof -
  have m: "(128 + x mod 64) mod 64 = x mod 64" for x :: int using mod_mult_self2 [of "x mod 64" 64 2] by (simp add: add.commute)
  have d: "c div 64 div 64 = c div 4096" "c div 4096 div 64 = c div 262144" by simp_all
  have "c div 4096 * 64 + c div 64 mod 64 = c div 64" "c div 262144 * 64 + c div 4096 mod 64 = c div 4096" "c div 64 * 64 + c mod 64 = c"
    using div_mult_mod_eq [of "c div 64" 64] div_mult_mod_eq [of "c div 4096" 64] div_mult_mod_eq [of c 64] unfolding d by simp_all
  note s = this
  consider "c < 0x800" | "0x800 \<le> c" "c < 0x10000" | "0x10000 \<le> c" by linarith
  then show ?thesis
    by cases (use assms(2) in \<open>simp_all add: payload_def conts_def cont_octet(2) m s\<close>)
qed

lemma read_write:
  assumes c: "scalar c" and mem: "mem = pre @ WRITE_UTF8 c @ post" and after: "after_char mem zTerm (length pre + length (WRITE_UTF8 c))"
  shows "READ_UTF8 mem zTerm (length pre) = Some (length pre + length (WRITE_UTF8 c), c)"
proof -
  have w: "WRITE_UTF8 c = word_of_int (lead c) # conts c" by (rule write_lead_conts [OF c])
  then have b: "at mem (length pre) = Some (word_of_int (lead c))" using mem by (simp add: at_def)
  have u: "uint (word_of_int (lead c) :: u8) = lead c" using lead_range [OF c] by (intro uint_small) simp_all
  have ge: "word_of_int (lead c) \<ge> (0xc0 :: u8) \<longleftrightarrow> 0x80 \<le> c"
    unfolding word_le_def u using c by (auto simp: lead_def scalar_def)
  show ?thesis
  proof (cases "0x80 \<le> c")
    case False
    then have "lead c = c" "length (WRITE_UTF8 c) = 1" using w by (simp_all add: lead_def conts_def)
    with False b ge u show ?thesis by (simp add: READ_UTF8_def)
  next
    case True
    let ?pre = "pre @ [word_of_int (lead c)]"
    have "read_cont mem zTerm (length ?pre) (payload c) =
        Some (length ?pre + length (conts c), foldl (\<lambda>c b. c * 64 + uint b mod 64) (payload c) (conts c))"
      using conts_cont after payload_bound [OF c True] mem w by (intro read_cont_run) simp_all
    then have "read_cont mem zTerm (length ?pre) (payload c) = Some (length ?pre + length (conts c), c)"
      by (simp only: payload_conts [OF c True])
    moreover have "unat (word_of_int (lead c) :: u8) = nat (lead c)" using u by (simp add: unat_eq_nat_uint)
    ultimately show ?thesis using b ge True w scalar_kept [OF c True] by (simp add: READ_UTF8_def payload_trans1 [OF c True])
  qed
qed

lemma write_props:
  assumes "scalar c"
  shows "WRITE_UTF8 c \<noteq> []" "\<not> is_cont (hd (WRITE_UTF8 c))" "length (WRITE_UTF8 c) \<le> 4"
    "0 < c \<Longrightarrow> 0 \<notin> set (WRITE_UTF8 c)" "c \<noteq> 60 \<Longrightarrow> hd (WRITE_UTF8 c) \<noteq> 60"
proof -
  have w: "WRITE_UTF8 c = word_of_int (lead c) # conts c" by (rule write_lead_conts [OF assms])
  have u: "uint (word_of_int (lead c) :: u8) = lead c" using lead_range [OF assms] by (intro uint_small) simp_all
  have r: "0x80 \<le> c \<Longrightarrow> 0xC0 \<le> lead c" "c < 0x80 \<Longrightarrow> lead c = c" using assms by (auto simp: lead_def)
  show "WRITE_UTF8 c \<noteq> []" "length (WRITE_UTF8 c) \<le> 4" by (simp_all add: w conts_def)
  show "\<not> is_cont (hd (WRITE_UTF8 c))" using r u by (cases "c < 0x80") (auto simp: w is_cont_range simp del: of_int_add)
  have nz: "b \<noteq> 0" if "b \<in> set (conts c)" for b
    using conts_cont [of c] that by (auto simp: list_all_iff is_cont_range)
  have "word_of_int (lead c) \<noteq> (0 :: u8)" if "0 < c"
    using r u that by (cases "c < 0x80") auto
  with nz show "0 < c \<Longrightarrow> 0 \<notin> set (WRITE_UTF8 c)" by (auto simp: w)
  show "c \<noteq> 60 \<Longrightarrow> hd (WRITE_UTF8 c) \<noteq> 60" using r u by (cases "c < 0x80") (auto simp: w word_uint_eq_iff)
qed

text \<open>Whatever the octets: a read moves on, and its code point is not negative and not a surrogate.\<close>

lemma read_cont_mono: "read_cont mem zTerm z c = Some (z', c') \<Longrightarrow> z \<le> z'"
proof (induction mem zTerm z c rule: read_cont.induct)
  case (1 mem zTerm z c)
  show ?case
  proof (cases "z = zTerm \<or> at mem z = None \<or> the (at mem z) AND 0xc0 \<noteq> 0x80")
    case True
    then show ?thesis using 1(2) by (subst (asm) read_cont.simps) (auto split: if_splits option.splits)
  next
    case False
    then obtain b where b: "at mem z = Some b" "b AND 0xc0 = 0x80" "z \<noteq> zTerm" by auto
    with 1(2) have "read_cont mem zTerm (z + 1) (signed_take_bit 31 (push_bit 6 c + (0x3f AND uint b))) = Some (z', c')"
      by (subst (asm) read_cont.simps) simp
    with 1(1) b show ?thesis by fastforce
  qed
qed

lemma read_result:
  assumes "READ_UTF8 mem zTerm z = Some (z', c)"
  shows "z < z'" "0 \<le> c" "z < length mem"
proof -
  obtain b where b: "at mem z = Some b" using assms by (auto simp: READ_UTF8_def split: Option.bind_splits)
  show "z < length mem" using at_less [OF b] .
  show "z < z'" "0 \<le> c" using assms b
    by (auto simp: READ_UTF8_def split: if_splits Option.bind_splits dest: read_cont_mono)
qed

section \<open>Property\<close>

lemma after_write:
  assumes "list_all scalar cs" and "mem = pre @ concat (map WRITE_UTF8 cs) @ post"
  shows "after_char mem (length pre + length (concat (map WRITE_UTF8 cs))) (length pre)"
proof (cases cs)
  case (Cons c cs')
  then have "scalar c" using assms(1) by simp
  from write_props(1,2) [OF this] assms(2) Cons show ?thesis
    by (auto simp: after_char_def nth_append hd_conv_nth)
qed (simp add: after_char_def)

text \<open>C27: UTF-8 round trip: in a memory that holds the encodings of code points other than surrogates, U+FFFE and U+FFFF,
  one after the other, \<open>READ_UTF8\<close> at the start of one of them gives that code point and the start of the
  next, for every content before and after them.\<close>

theorem utf8_roundtrip:
  assumes "scalar c" and "list_all scalar cs" and "mem = pre @ WRITE_UTF8 c @ concat (map WRITE_UTF8 cs) @ post"
  shows "READ_UTF8 mem (length pre + length (WRITE_UTF8 c @ concat (map WRITE_UTF8 cs))) (length pre) =
    Some (length pre + length (WRITE_UTF8 c), c)"
  using read_write [OF assms(1), of mem pre "concat (map WRITE_UTF8 cs) @ post"] after_write [OF assms(2), of mem "pre @ WRITE_UTF8 c" post] assms(3)
  by (simp add: add.assoc)

theorem utf8_roundtrip_witness:
  "READ_UTF8 ([0x61] @ WRITE_UTF8 0x20AC @ concat (map WRITE_UTF8 [0x1F600]) @ [0]) 8 1 = Some (4, 0x20AC)"
  using utf8_roundtrip [of "0x20AC" "[0x1F600]" _ "[0x61]" "[0]"] by (simp add: scalar_def WRITE_UTF8_def eval_nat_numeral)

end
