(* ===== verification/Html_Tokenizer.thy ===== *)
theory Html_Tokenizer
  imports Utf8_Codec
begin

text \<open>
  The tokenizer object of \<^verbatim>\<open>fts3_html_tokenizer.c\<close>: the exceptions to what is a letter or digit (\<open>tokenchars=\<close> and
  \<open>separators=\<close>) in a sorted array with a binary search, and the arguments of \<open>unicodeCreate\<close>. Allocation is an argument;
  an access through a null pointer gives \<open>None\<close>. Shown: what the arguments mean.
\<close>

abbreviation (input) OK :: int where "OK \<equiv> 0"
abbreviation (input) ERROR :: int where "ERROR \<equiv> 1"
abbreviation (input) NOMEM :: int where "NOMEM \<equiv> 7"
abbreviation (input) DONE :: int where "DONE \<equiv> 101"

definition ascii :: "string \<Rightarrow> bytes" where
  "ascii s = map of_char s"

section \<open>The tokenizer object\<close>

record unicode_tokenizer =
  bRemoveDiacritic :: bool
  nException :: nat
  aiException :: "int list"
  tk_locale :: "bytes option"

text \<open>The code points of the octets from \<open>z\<close> up to \<open>zTerm\<close>.\<close>

function codes :: "bytes \<Rightarrow> nat \<Rightarrow> nat \<Rightarrow> int list option" where
  "codes mem zTerm z =
     (if z < zTerm
      then case READ_UTF8 mem zTerm z of None \<Rightarrow> None
           | Some (z', c) \<Rightarrow> (case codes mem zTerm z' of None \<Rightarrow> None | Some cs \<Rightarrow> Some (c # cs))
      else Some [])"
  by pat_completeness auto
termination by (relation "measure (\<lambda>(mem, zTerm, z). zTerm - z)") (auto dest: read_result(1))

declare codes.simps [simp del]

definition is_exception_for :: "bool \<Rightarrow> int \<Rightarrow> bool" where
  "is_exception_for bAlnum c \<longleftrightarrow> sqlite3FtsUnicodeIsalnum c \<noteq> bAlnum \<and> sqlite3FtsUnicodeIsdiacritic c = 0"

fun first_ge :: "int list \<Rightarrow> int \<Rightarrow> nat" where
  "first_ge [] c = 0"
| "first_ge (a # as) c = (if a < c then Suc (first_ge as c) else 0)"

definition insert_exception :: "int \<Rightarrow> int list \<Rightarrow> int list" where
  "insert_exception c aNew = (let i = first_ge aNew c in take i aNew @ c # drop i aNew)"

definition unicodeAddExceptions :: "bool \<Rightarrow> unicode_tokenizer \<Rightarrow> bool \<Rightarrow> bytes \<Rightarrow> (int \<times> unicode_tokenizer) option" where
  "unicodeAddExceptions ok p bAlnum zIn =
     do {
       cs \<leftarrow> codes (zIn @ [0]) (length zIn) 0;
       let new = filter (is_exception_for bAlnum) cs;
       Some (if length new \<noteq> 0
             then if \<not> ok then (NOMEM, p)
                  else (OK, p\<lparr>aiException := fold insert_exception new (aiException p), nException := nException p + length new\<rparr>)
             else (OK, p))
     }"

function exception_search :: "int list \<Rightarrow> int \<Rightarrow> int \<Rightarrow> int \<Rightarrow> bool" where
  "exception_search a code iLo iHi =
     (if iHi \<ge> iLo
      then let iTest = (iHi + iLo) div 2
           in if code = a ! nat iTest then True
              else if code > a ! nat iTest then exception_search a code (iTest + 1) iHi
              else exception_search a code iLo (iTest - 1)
      else False)"
  by pat_completeness auto
termination by (relation "measure (\<lambda>(a, code, iLo, iHi). nat (iHi - iLo + 1))") (auto simp: Let_def)

declare exception_search.simps [simp del]

definition unicodeIsException :: "unicode_tokenizer \<Rightarrow> int \<Rightarrow> bool" where
  "unicodeIsException p code =
     (if nException p > 0 then exception_search (aiException p) code 0 (int (nException p) - 1) else False)"

definition unicodeIsAlnum :: "unicode_tokenizer \<Rightarrow> int \<Rightarrow> bool" where
  "unicodeIsAlnum p code \<longleftrightarrow> sqlite3FtsUnicodeIsalnum code \<noteq> unicodeIsException p code"

definition unicodeDestroy :: "unicode_tokenizer option \<Rightarrow> int \<times> unicode_tokenizer option" where
  "unicodeDestroy p = (OK, None)"

text \<open>One argument of \<open>unicodeCreate\<close>; \<open>ok\<close> is whether the allocation for it succeeds. The result of the
  \<^verbatim>\<open>malloc\<close> for the locale is used without a test.\<close>

definition create_arg :: "bool \<Rightarrow> bytes \<Rightarrow> unicode_tokenizer \<Rightarrow> (int \<times> unicode_tokenizer) option" where
  "create_arg ok z p =
     (if z = ascii ''remove_diacritics=1'' then Some (OK, p\<lparr>bRemoveDiacritic := True\<rparr>)
      else if z = ascii ''remove_diacritics=0'' then Some (OK, p\<lparr>bRemoveDiacritic := False\<rparr>)
      else if length z \<ge> 11 \<and> take 11 z = ascii ''tokenchars='' then unicodeAddExceptions ok p True (drop 11 z)
      else if length z \<ge> 11 \<and> take 11 z = ascii ''separators='' then unicodeAddExceptions ok p False (drop 11 z)
      else if length z > 0 then if ok then Some (OK, p\<lparr>tk_locale := Some z\<rparr>) else None
      else Some (ERROR, p))"

fun create_args :: "(bool \<times> bytes) list \<Rightarrow> unicode_tokenizer \<Rightarrow> (int \<times> unicode_tokenizer) option" where
  "create_args [] p = Some (OK, p)"
| "create_args ((ok, z) # args) p =
     do { (rc, p') \<leftarrow> create_arg ok z p; if rc = OK then create_args args p' else Some (rc, p') }"

definition unicodeCreate :: "bool \<Rightarrow> (bool \<times> bytes) list \<Rightarrow> (int \<times> unicode_tokenizer option) option" where
  "unicodeCreate ok args =
     (if \<not> ok then Some (NOMEM, None)
      else do {
        (rc, p) \<leftarrow> create_args args \<lparr>bRemoveDiacritic = True, nException = 0, aiException = [], tk_locale = None\<rparr>;
        Some (if rc \<noteq> OK then (rc, snd (unicodeDestroy (Some p))) else (rc, Some p))
      })"

section \<open>Exceptions\<close>

lemma codes_write:
  "list_all scalar cs \<Longrightarrow> mem = pre @ concat (map WRITE_UTF8 cs) @ post \<Longrightarrow>
   codes mem (length pre + length (concat (map WRITE_UTF8 cs))) (length pre) = Some cs"
proof (induction cs arbitrary: pre)
  case Nil
  then show ?case by (simp add: codes.simps)
next
  case (Cons c cs)
  let ?w = "WRITE_UTF8 c" and ?ws = "concat (map WRITE_UTF8 cs)"
  let ?t = "length pre + length (concat (map WRITE_UTF8 (c # cs)))"
  have s: "scalar c" "list_all scalar cs" using Cons.prems(1) by simp_all
  have t: "?t = length (pre @ ?w) + length ?ws" by simp
  have "READ_UTF8 mem ?t (length pre) = Some (length pre + length ?w, c)"
    using read_write [OF s(1), of mem pre "?ws @ post" ?t] after_write [OF s(2), of mem "pre @ ?w" post] Cons.prems(2)
    unfolding t by simp
  moreover have "codes mem ?t (length (pre @ ?w)) = Some cs"
    unfolding t using Cons.prems(2) by (intro Cons.IH [OF s(2)]) simp
  moreover have "length pre < ?t" using write_props(1) [OF s(1)] by simp
  ultimately show ?case by (subst codes.simps) simp
qed

lemma first_ge_takeWhile: "first_ge xs c = length (takeWhile (\<lambda>a. a < c) xs)"
  by (induction xs c rule: first_ge.induct) auto

lemma insert_exception_eq: "insert_exception c xs = takeWhile (\<lambda>a. a < c) xs @ c # dropWhile (\<lambda>a. a < c) xs"
  by (simp add: insert_exception_def first_ge_takeWhile takeWhile_eq_take [symmetric] dropWhile_eq_drop [symmetric])

lemma insert_exception_set [simp]: "set (insert_exception c xs) = insert c (set xs)" "length (insert_exception c xs) = Suc (length xs)"
  unfolding insert_exception_eq by (induction xs) auto

lemma insert_exception_sorted: "sorted xs \<Longrightarrow> sorted (insert_exception c xs)"
  unfolding insert_exception_eq
  by (induction xs) (auto simp: sorted_append dest: set_takeWhileD)

lemma fold_insert_exception:
  "set (fold insert_exception cs xs) = set cs \<union> set xs" "length (fold insert_exception cs xs) = length cs + length xs"
  "sorted xs \<Longrightarrow> sorted (fold insert_exception cs xs)"
  by (induction cs arbitrary: xs) (auto simp: insert_exception_sorted)

lemma exception_search_iff:
  "sorted a \<Longrightarrow> 0 \<le> iLo \<Longrightarrow> iHi < int (length a) \<Longrightarrow>
   exception_search a c iLo iHi \<longleftrightarrow> (\<exists>i. iLo \<le> int i \<and> int i \<le> iHi \<and> a ! i = c)"
proof (induction a c iLo iHi rule: exception_search.induct)
  case (1 a c iLo iHi)
  show ?case
  proof (cases "iHi \<ge> iLo")
    case False
    then show ?thesis by (subst exception_search.simps) auto
  next
    case True
    define t where "t = (iHi + iLo) div 2"
    have t: "iLo \<le> t" "t \<le> iHi" using True by (auto simp: t_def)
    have tn: "nat t < length a" "0 \<le> t" using t 1(4,5) by auto
    have mono: "i \<le> j \<Longrightarrow> j < length a \<Longrightarrow> a ! i \<le> a ! j" for i j using 1(3) by (simp add: sorted_nth_mono)
    note e = exception_search.simps [of a c iLo iHi, folded t_def]
    consider "c = a ! nat t" | "c > a ! nat t" | "c < a ! nat t" by linarith
    then show ?thesis
    proof cases
      case 1
      then have "exception_search a c iLo iHi" using True by (subst e) simp
      moreover have "iLo \<le> int (nat t) \<and> int (nat t) \<le> iHi \<and> a ! nat t = c" using 1 t tn by simp
      ultimately show ?thesis by blast
    next
      case 2
      have "exception_search a c iLo iHi = exception_search a c (t + 1) iHi" using True 2 by (simp add: e)
      also have "\<dots> = (\<exists>i. t + 1 \<le> int i \<and> int i \<le> iHi \<and> a ! i = c)"
        using 2 True t tn "1.prems" by (intro "1.IH"(1) [of t]) (auto simp: t_def)
      also have "\<dots> = (\<exists>i. iLo \<le> int i \<and> int i \<le> iHi \<and> a ! i = c)"
      proof -
        have "t + 1 \<le> int i" if "a ! i = c" for i
        proof (rule ccontr)
          assume "\<not> t + 1 \<le> int i"
          then have "i \<le> nat t" using tn by linarith
          from mono [OF this tn(1)] 2 that show False by simp
        qed
        with t show ?thesis by force
      qed
      finally show ?thesis .
    next
      case 3
      have "exception_search a c iLo iHi = exception_search a c iLo (t - 1)" using True 3 by (simp add: e)
      also have "\<dots> = (\<exists>i. iLo \<le> int i \<and> int i \<le> t - 1 \<and> a ! i = c)"
        using 3 True t tn "1.prems" by (intro "1.IH"(2) [of t]) (auto simp: t_def)
      also have "\<dots> = (\<exists>i. iLo \<le> int i \<and> int i \<le> iHi \<and> a ! i = c)"
      proof -
        have "int i \<le> t - 1" if "a ! i = c" "int i \<le> iHi" for i
        proof (rule ccontr)
          assume "\<not> int i \<le> t - 1"
          then have "nat t \<le> i" "i < length a" using tn that(2) "1.prems"(3) by linarith+
          from mono [OF this] 3 that show False by simp
        qed
        with t show ?thesis by force
      qed
      finally show ?thesis .
    qed
  qed
qed

text \<open>The invariant of a tokenizer object, and what its exceptions mean.\<close>

definition tokenizer_ok :: "unicode_tokenizer \<Rightarrow> bool" where
  "tokenizer_ok p \<longleftrightarrow> nException p = length (aiException p) \<and> sorted (aiException p)"

lemma is_exception_iff:
  assumes "tokenizer_ok p"
  shows "unicodeIsException p c \<longleftrightarrow> c \<in> set (aiException p)"
proof -
  have "exception_search (aiException p) c 0 (int (nException p) - 1) \<longleftrightarrow> (\<exists>i < length (aiException p). aiException p ! i = c)"
    using assms exception_search_iff [of "aiException p" 0 "int (nException p) - 1" c] by (auto simp: tokenizer_ok_def)
  then show ?thesis using assms by (auto simp: unicodeIsException_def tokenizer_ok_def in_set_conv_nth)
qed

section \<open>Options\<close>

datatype option_arg = Remove_diacritics bool | Tokenchars "int list" | Separators "int list" | Locale bytes

fun arg_octets :: "option_arg \<Rightarrow> bytes" where
  "arg_octets (Remove_diacritics b) = ascii (if b then ''remove_diacritics=1'' else ''remove_diacritics=0'')"
| "arg_octets (Tokenchars cs) = ascii ''tokenchars='' @ concat (map WRITE_UTF8 cs)"
| "arg_octets (Separators cs) = ascii ''separators='' @ concat (map WRITE_UTF8 cs)"
| "arg_octets (Locale l) = l"

text \<open>A locale name is not empty and none of the options.\<close>

fun arg_ok :: "option_arg \<Rightarrow> bool" where
  "arg_ok (Remove_diacritics b) = True"
| "arg_ok (Tokenchars cs) = list_all scalar cs"
| "arg_ok (Separators cs) = list_all scalar cs"
| "arg_ok (Locale l) =
     (l \<noteq> [] \<and> l \<noteq> ascii ''remove_diacritics=1'' \<and> l \<noteq> ascii ''remove_diacritics=0'' \<and>
      take 11 l \<noteq> ascii ''tokenchars='' \<and> take 11 l \<noteq> ascii ''separators='')"

definition listed :: "bool \<Rightarrow> option_arg list \<Rightarrow> int set" where
  "listed bAlnum opts = (\<Union>a \<in> set opts. case a of Tokenchars cs \<Rightarrow> if bAlnum then set cs else {} | Separators cs \<Rightarrow> if bAlnum then {} else set cs | _ \<Rightarrow> {})"

fun diacritics_option :: "bool \<Rightarrow> option_arg list \<Rightarrow> bool" where
  "diacritics_option b [] = b"
| "diacritics_option b (Remove_diacritics b' # opts) = diacritics_option b' opts"
| "diacritics_option b (_ # opts) = diacritics_option b opts"

lemma length_ascii [simp]: "length (ascii s) = length s"
  by (simp add: ascii_def)

lemma ascii_Cons [simp]: "ascii [] = []" "ascii (c # s) = of_char c # ascii s"
  by (simp_all add: ascii_def)

lemma add_exceptions:
  assumes "list_all scalar cs" and "tokenizer_ok p"
  shows "\<exists>p'. unicodeAddExceptions True p b (concat (map WRITE_UTF8 cs)) = Some (OK, p') \<and> tokenizer_ok p' \<and>
    set (aiException p') = set (aiException p) \<union> {c \<in> set cs. is_exception_for b c} \<and> bRemoveDiacritic p' = bRemoveDiacritic p"
proof -
  let ?new = "filter (is_exception_for b) cs"
  have "codes (concat (map WRITE_UTF8 cs) @ [0]) (length (concat (map WRITE_UTF8 cs))) 0 = Some cs"
    using codes_write [OF assms(1), of _ "[]" "[0]"] by simp
  note c = this and f = fold_insert_exception(1,2) [of ?new "aiException p"] fold_insert_exception(3) [of "aiException p" ?new]
  show ?thesis
  proof (cases "?new = []")
    case True
    then have "{c \<in> set cs. is_exception_for b c} = {}" by (auto simp: filter_empty_conv)
    with True c assms(2) show ?thesis by (intro exI [of _ p]) (auto simp: unicodeAddExceptions_def)
  next
    case False
    with c f assms(2) show ?thesis by (simp add: unicodeAddExceptions_def tokenizer_ok_def Let_def Un_commute)
  qed
qed

lemma create_arg_ok:
  assumes "arg_ok a" and "tokenizer_ok p"
  shows "\<exists>p'. create_arg True (arg_octets a) p = Some (OK, p') \<and> tokenizer_ok p' \<and>
    bRemoveDiacritic p' = diacritics_option (bRemoveDiacritic p) [a] \<and>
    set (aiException p') = set (aiException p) \<union> {c \<in> listed True [a]. is_exception_for True c} \<union> {c \<in> listed False [a]. is_exception_for False c}"
proof (cases a)
  case (Remove_diacritics b)
  then show ?thesis using assms(2) by (cases b) (auto simp: create_arg_def listed_def tokenizer_ok_def)
next
  case (Tokenchars cs)
  then have "create_arg True (arg_octets a) p = unicodeAddExceptions True p True (concat (map WRITE_UTF8 cs))"
    by (simp add: create_arg_def)
  moreover from Tokenchars assms(1) have "list_all scalar cs" by simp
  from add_exceptions [OF this assms(2), of True] obtain p' where "unicodeAddExceptions True p True (concat (map WRITE_UTF8 cs)) = Some (OK, p')"
    "tokenizer_ok p'" "set (aiException p') = set (aiException p) \<union> {c \<in> set cs. is_exception_for True c}" "bRemoveDiacritic p' = bRemoveDiacritic p" by blast
  ultimately show ?thesis using Tokenchars by (auto simp: listed_def)
next
  case (Separators cs)
  then have "create_arg True (arg_octets a) p = unicodeAddExceptions True p False (concat (map WRITE_UTF8 cs))"
    by (simp add: create_arg_def)
  moreover from Separators assms(1) have "list_all scalar cs" by simp
  from add_exceptions [OF this assms(2), of False] obtain p' where "unicodeAddExceptions True p False (concat (map WRITE_UTF8 cs)) = Some (OK, p')"
    "tokenizer_ok p'" "set (aiException p') = set (aiException p) \<union> {c \<in> set cs. is_exception_for False c}" "bRemoveDiacritic p' = bRemoveDiacritic p" by blast
  ultimately show ?thesis using Separators by (auto simp: listed_def)
next
  case (Locale l)
  then show ?thesis using assms by (auto simp: create_arg_def listed_def tokenizer_ok_def simp del: ascii_Cons)
qed

lemma listed_Cons: "listed b (a # opts) = listed b [a] \<union> listed b opts"
  by (simp add: listed_def)

lemma diacritics_option_Cons: "diacritics_option b (a # opts) = diacritics_option (diacritics_option b [a]) opts"
  by (cases a) simp_all

lemma create_args_ok:
  "list_all arg_ok opts \<Longrightarrow> tokenizer_ok p \<Longrightarrow>
   \<exists>p'. create_args (map (\<lambda>a. (True, arg_octets a)) opts) p = Some (OK, p') \<and> tokenizer_ok p' \<and>
     bRemoveDiacritic p' = diacritics_option (bRemoveDiacritic p) opts \<and>
     set (aiException p') = set (aiException p) \<union> {c \<in> listed True opts. is_exception_for True c} \<union> {c \<in> listed False opts. is_exception_for False c}"
proof (induction opts arbitrary: p)
  case Nil
  then show ?case by (simp add: listed_def)
next
  case (Cons a opts)
  from Cons.prems have ok: "arg_ok a" "list_all arg_ok opts" by simp_all
  from create_arg_ok [OF ok(1) Cons.prems(2)] obtain p1 where p1: "create_arg True (arg_octets a) p = Some (OK, p1)" "tokenizer_ok p1"
    "bRemoveDiacritic p1 = diacritics_option (bRemoveDiacritic p) [a]"
    "set (aiException p1) = set (aiException p) \<union> {c \<in> listed True [a]. is_exception_for True c} \<union> {c \<in> listed False [a]. is_exception_for False c}"
    by (elim exE conjE) (rule that; assumption)
  from Cons.IH [OF ok(2) p1(2)] obtain p2 where p2: "create_args (map (\<lambda>a. (True, arg_octets a)) opts) p1 = Some (OK, p2)" "tokenizer_ok p2"
    "bRemoveDiacritic p2 = diacritics_option (bRemoveDiacritic p1) opts"
    "set (aiException p2) = set (aiException p1) \<union> {c \<in> listed True opts. is_exception_for True c} \<union> {c \<in> listed False opts. is_exception_for False c}" by (elim exE conjE) (rule that; assumption)
  have "bRemoveDiacritic p2 = diacritics_option (bRemoveDiacritic p) (a # opts)" unfolding p2(3) p1(3) by (rule diacritics_option_Cons [symmetric])
  moreover have "set (aiException p2) = set (aiException p) \<union> {c \<in> listed True (a # opts). is_exception_for True c} \<union> {c \<in> listed False (a # opts). is_exception_for False c}"
    unfolding p2(4) p1(4) listed_Cons [of _ a opts] by blast
  moreover have "create_args (map (\<lambda>a. (True, arg_octets a)) (a # opts)) p = Some (OK, p2)" using p1(1) p2(1) by simp
  ultimately show ?case using p2(2) by (intro exI [of _ p2] conjI)
qed

lemma diacritic_not_alnum: "sqlite3FtsUnicodeIsdiacritic c \<noteq> 0 \<Longrightarrow> \<not> sqlite3FtsUnicodeIsalnum c"
proof -
  assume d: "sqlite3FtsUnicodeIsdiacritic c \<noteq> 0"
  then have "768 \<le> c" "c \<le> 817" by (auto simp: sqlite3FtsUnicodeIsdiacritic_def split: if_splits)
  moreover have "(0x000BBC81 :: int) \<in> set alnum_aEntry" by (simp add: alnum_aEntry_def)
  then obtain i where "i < length alnum_aEntry" "alnum_aEntry ! i = 0x000BBC81" by (metis in_set_conv_nth)
  ultimately have "range_of alnum_start alnum_end alnum_aEntry c \<noteq> None" by (auto simp: range_of_def find_None_iff intro!: exI [of _ i])
  then show ?thesis using \<open>768 \<le> c\<close> \<open>c \<le> 817\<close> by (simp add: isalnum_table)
qed

text \<open>C22: what the arguments of \<open>unicodeCreate\<close> mean: the tokenizer is created, its exceptions are in order (so that the
  binary search of \<open>unicodeIsException\<close> is right), the last \<open>remove_diacritics\<close> counts, and a code point is a token
  character if it is a letter or digit that no \<open>separators=\<close> lists or another one, no combining mark, that a
  \<open>tokenchars=\<close> lists. The order of the arguments does not matter for the latter.\<close>

theorem html_create_options:
  assumes "list_all arg_ok opts"
  shows "\<exists>p. unicodeCreate True (map (\<lambda>a. (True, arg_octets a)) opts) = Some (OK, Some p) \<and> tokenizer_ok p \<and>
    bRemoveDiacritic p = diacritics_option True opts \<and>
    (\<forall>c. unicodeIsAlnum p c \<longleftrightarrow>
       (if sqlite3FtsUnicodeIsalnum c then c \<notin> listed False opts
        else c \<in> listed True opts \<and> sqlite3FtsUnicodeIsdiacritic c = 0))"
proof -
  let ?p = "\<lparr>bRemoveDiacritic = True, nException = 0, aiException = [], tk_locale = None\<rparr>"
  have "tokenizer_ok ?p" by (simp add: tokenizer_ok_def)
  from create_args_ok [OF assms this] obtain p where p: "create_args (map (\<lambda>a. (True, arg_octets a)) opts) ?p = Some (OK, p)" "tokenizer_ok p"
    "bRemoveDiacritic p = diacritics_option True opts"
    "set (aiException p) = {c \<in> listed True opts. is_exception_for True c} \<union> {c \<in> listed False opts. is_exception_for False c}" by auto
  have "unicodeIsAlnum p c \<longleftrightarrow> (if sqlite3FtsUnicodeIsalnum c then c \<notin> listed False opts
        else c \<in> listed True opts \<and> sqlite3FtsUnicodeIsdiacritic c = 0)" for c
    using diacritic_not_alnum [of c] by (auto simp: unicodeIsAlnum_def is_exception_iff [OF p(2)] p(4) is_exception_for_def)
  with p(1-3) show ?thesis by (auto simp: unicodeCreate_def)
qed

theorem html_create_options_witness:
  "\<exists>p. unicodeCreate True [(True, ascii ''tokenchars=-''), (True, ascii ''en'')] = Some (OK, Some p) \<and>
    unicodeIsAlnum p 45 \<and> \<not> unicodeIsAlnum p 46"
proof -
  have "sqlite3FtsUnicodeIsalnum 45 = False" "sqlite3FtsUnicodeIsalnum 46 = False" "sqlite3FtsUnicodeIsdiacritic 45 = 0" by code_simp+
  then show ?thesis
    using html_create_options [of "[Tokenchars [45], Locale (ascii ''en'')]"] by (auto simp: scalar_def WRITE_UTF8_def listed_def)
qed

end
