(* ===== verification/Html_Next.thy ===== *)
theory Html_Next
  imports Html_Tokenizer
begin

text \<open>
  The cursor of \<^verbatim>\<open>fts3_html_tokenizer.c\<close> and \<open>unicodeNext\<close>, which skips HTML tags, folds the code points of a token and stems it.
  The input is a list of octets that includes the zero octet at its end; a read beyond it, a write beyond the
  token buffer and an access through a null pointer give \<open>None\<close>. Allocation is an argument, and so are the octets that
  \<^verbatim>\<open>sqlite3_realloc\<close> adds to a buffer and the stemmer (Snowball).
\<close>

section \<open>The cursor\<close>

type_synonym stemmer = "bytes \<Rightarrow> bytes option"

record unicode_cursor =
  aInput :: bytes
  nInput :: nat
  iOff :: nat
  iTok :: nat
  zToken :: bytes
  nAlloc :: nat
  cur_stemmer :: "stemmer option"

text \<open>\<open>aInput\<close>: the input with the zero octet after it, if there is one. When the allocation fails the code
  reads \<^verbatim>\<open>pCsr->stemmer\<close> through the null pointer.\<close>

definition unicodeOpen ::
  "(bytes \<Rightarrow> stemmer option) \<Rightarrow> bool \<Rightarrow> unicode_tokenizer \<Rightarrow> bytes option \<Rightarrow> int \<Rightarrow> (int \<times> unicode_cursor) option" where
  "unicodeOpen sb_stemmer_new ok ut input n =
     (if \<not> ok then None
      else Some (OK, \<lparr>aInput = (case input of None \<Rightarrow> [] | Some a \<Rightarrow> a),
                      nInput = (case input of None \<Rightarrow> 0 | Some a \<Rightarrow> if n < 0 then length (takeWhile (\<lambda>b. b \<noteq> 0) a) else nat n),
                      iOff = 0, iTok = 0, zToken = [], nAlloc = 0,
                      cur_stemmer = (case tk_locale ut of None \<Rightarrow> None | Some l \<Rightarrow> sb_stemmer_new l)\<rparr>))"

definition unicodeClose :: "unicode_cursor \<Rightarrow> int \<times> unicode_cursor option" where
  "unicodeClose c = (OK, None)"

section \<open>Strings in the input\<close>

text \<open>\<open>strncasecmp_eq mem z t\<close>: whether \<^verbatim>\<open>strncasecmp(z, t, strlen(t))\<close> is 0, for a string \<open>t\<close> without a zero octet.\<close>

definition ascii_lower :: "u8 \<Rightarrow> u8" where
  "ascii_lower b = (if 0x41 \<le> b \<and> b \<le> 0x5a then b + 32 else b)"

fun strncasecmp_eq :: "bytes \<Rightarrow> nat \<Rightarrow> bytes \<Rightarrow> bool option" where
  "strncasecmp_eq mem z [] = Some True"
| "strncasecmp_eq mem z (t # ts) =
     do { b \<leftarrow> at mem z; if ascii_lower b = ascii_lower t then strncasecmp_eq mem (z + 1) ts else Some False }"

fun occurs_at :: "bytes \<Rightarrow> nat \<Rightarrow> bytes \<Rightarrow> bool option" where
  "occurs_at mem z [] = Some True"
| "occurs_at mem z (t # ts) = do { b \<leftarrow> at mem z; if b = t then occurs_at mem (z + 1) ts else Some False }"

text \<open>\<^verbatim>\<open>strstr\<close>: the first place at which the pattern occurs before the zero octet that ends the string.\<close>

function strstr :: "bytes \<Rightarrow> nat \<Rightarrow> bytes \<Rightarrow> nat option option" where
  "strstr mem z pat =
     (case occurs_at mem z pat of None \<Rightarrow> None
      | Some True \<Rightarrow> Some (Some z)
      | Some False \<Rightarrow> (case at mem z of None \<Rightarrow> None | Some b \<Rightarrow> if b = 0 then Some None else strstr mem (z + 1) pat))"
  by pat_completeness auto
termination by (relation "measure (\<lambda>(mem, z, pat). length mem - z)") (auto dest: at_less)

function skip_gt :: "bytes \<Rightarrow> nat \<Rightarrow> nat \<Rightarrow> nat option" where
  "skip_gt mem zTerm z =
     (if z = zTerm then Some z
      else case at mem z of None \<Rightarrow> None | Some b \<Rightarrow> if b = 0x3e then Some z else skip_gt mem zTerm (z + 1))"
  by pat_completeness auto
termination by (relation "measure (\<lambda>(mem, zTerm, z). length mem - z)") (auto dest: at_less)

declare strstr.simps [simp del] skip_gt.simps [simp del]

definition c_strlen_at :: "bytes \<Rightarrow> nat \<Rightarrow> nat option" where
  "c_strlen_at buf o' = (if 0 \<in> set (drop o' buf) then Some (length (takeWhile (\<lambda>b. b \<noteq> 0) (drop o' buf))) else None)"

section \<open>Tags\<close>

definition ignore_tags :: "(bytes \<times> bytes) list" where
  "ignore_tags = [(ascii ''sup class=\"marker\"'', ascii ''sup''), (ascii ''head'', ascii ''head''),
     (ascii ''footer class=\"study-notes\"'', ascii ''footer''), (ascii ''footer class=\"notes\"'', ascii ''footer'')]"

definition nonbreaking_tags :: "bytes list" where
  "nonbreaking_tags = [ascii ''ruby'']"

definition nonbreaking_ignore_tags :: "bytes list" where
  "nonbreaking_ignore_tags = [ascii ''rp'', ascii ''rt'']"

text \<open>The loop over the tags that are left out with their content, before a token.\<close>

fun ignore_loop :: "bytes \<Rightarrow> (bytes \<times> bytes) list \<Rightarrow> nat \<Rightarrow> bool \<Rightarrow> (nat \<times> bool) option" where
  "ignore_loop mem [] z ignoredTag = Some (z, ignoredTag)"
| "ignore_loop mem ((op, cl) # tags) z ignoredTag =
     do {
       m \<leftarrow> strncasecmp_eq mem z op;
       if m
       then do {
         let z1 = z + length op;
         _ \<leftarrow> at mem z1;
         found \<leftarrow> strstr mem z1 (cl @ [0x3e]);
         case found of Some q \<Rightarrow> do { _ \<leftarrow> at mem (q + length cl); Some (q + length cl, True) }
         | None \<Rightarrow> ignore_loop mem tags z1 True
       }
       else ignore_loop mem tags z ignoredTag
     }"

definition scan_tag :: "bytes \<Rightarrow> nat \<Rightarrow> nat \<Rightarrow> nat option" where
  "scan_tag mem zTerm z =
     do {
       b \<leftarrow> at mem (z + 1);
       z2 \<leftarrow> (if b \<noteq> 0x2f
             then do {
               (z1, ignoredTag) \<leftarrow> ignore_loop mem ignore_tags (z + 1) False;
               if \<not> ignoredTag
               then map_option fst (ignore_loop mem (map (\<lambda>t. (t, t)) nonbreaking_ignore_tags) z1 False)
               else Some z1
             }
             else Some (z + 1));
       skip_gt mem zTerm z2
     }"

text \<open>The loop that looks for the start of a token: the position after its first code point, its start and that code point.\<close>

partial_function (option) scan ::
  "unicode_tokenizer \<Rightarrow> bytes \<Rightarrow> nat \<Rightarrow> nat \<Rightarrow> nat \<Rightarrow> int \<Rightarrow> (nat \<times> nat \<times> int) option" where
  "scan p mem zTerm z zStart code =
     (if z < zTerm
      then do {
        b \<leftarrow> at mem z;
        z1 \<leftarrow> (if b = 0x3c then scan_tag mem zTerm z else Some z);
        r \<leftarrow> READ_UTF8 mem zTerm z1;
        if unicodeIsAlnum p (snd r) then Some (fst r, zStart, snd r)
        else scan p mem zTerm (fst r) (fst r) (snd r)
      }
      else Some (z, zStart, code))"

text \<open>Within a token: the tags that do not end it, and those that are left out with their content.\<close>

fun nonbreak_loop :: "bytes \<Rightarrow> nat \<Rightarrow> nat \<Rightarrow> bytes list \<Rightarrow> nat \<Rightarrow> bool \<Rightarrow> (nat \<times> bool) option" where
  "nonbreak_loop mem zTerm k [] z ignoring = Some (z, ignoring)"
| "nonbreak_loop mem zTerm k (t # tags) z ignoring =
     do {
       m \<leftarrow> strncasecmp_eq mem (z + k) t;
       if m
       then do {
         _ \<leftarrow> at mem (z + k + length t);
         z1 \<leftarrow> skip_gt mem zTerm (z + k + length t);
         _ \<leftarrow> at mem z1;
         nonbreak_loop mem zTerm k tags (z1 + 1) True
       }
       else nonbreak_loop mem zTerm k tags z ignoring
     }"

fun annot_loop :: "bytes \<Rightarrow> nat \<Rightarrow> bytes list \<Rightarrow> nat \<Rightarrow> bool \<Rightarrow> (nat \<times> bool) option" where
  "annot_loop mem zTerm [] z ignoring = Some (z, ignoring)"
| "annot_loop mem zTerm (t # tags) z ignoring =
     do {
       m \<leftarrow> strncasecmp_eq mem (z + 1) t;
       if m
       then do {
         let z1 = z + 1 + length t;
         _ \<leftarrow> at mem z1;
         found \<leftarrow> strstr mem z1 (t @ [0x3e]);
         case found of
           Some q \<Rightarrow> do {
             _ \<leftarrow> at mem (q + length t);
             z2 \<leftarrow> skip_gt mem zTerm (q + length t);
             _ \<leftarrow> at mem z2;
             Some (z2 + 1, True)
           }
         | None \<Rightarrow> annot_loop mem zTerm tags z1 True
       }
       else annot_loop mem zTerm tags z ignoring
     }"

partial_function (option) inner_tags :: "bytes \<Rightarrow> nat \<Rightarrow> nat \<Rightarrow> nat option" where
  "inner_tags mem zTerm z =
     do {
       b \<leftarrow> at mem z;
       if b \<noteq> 0x3c then Some z
       else do {
         b1 \<leftarrow> at mem (z + 1);
         if b1 = 0x2f
         then do {
           r \<leftarrow> nonbreak_loop mem zTerm 2 nonbreaking_tags z False;
           if snd r then inner_tags mem zTerm (fst r) else Some (fst r)
         }
         else do {
           r \<leftarrow> annot_loop mem zTerm nonbreaking_ignore_tags z False;
           if snd r then inner_tags mem zTerm (fst r)
           else do {
             r' \<leftarrow> nonbreak_loop mem zTerm 1 nonbreaking_tags (fst r) False;
             if snd r' then inner_tags mem zTerm (fst r') else Some (fst r')
           }
         }
       }
     }"

section \<open>The next token\<close>

text \<open>The token buffer: its octets, the space allocated and the position of \<^verbatim>\<open>zOut\<close>.\<close>

record out_buffer =
  ob_octets :: bytes
  ob_alloc :: nat
  ob_out :: nat

text \<open>\<open>fresh n\<close>: the 64 octets that \<^verbatim>\<open>sqlite3_realloc\<close> adds to a buffer of \<open>n\<close> octets, \<open>None\<close> when it fails.\<close>

definition grow_buffer :: "(nat \<Rightarrow> bytes option) \<Rightarrow> out_buffer \<Rightarrow> out_buffer option" where
  "grow_buffer fresh ob =
     (if int (ob_out ob) \<ge> int (ob_alloc ob) - 4
      then case fresh (ob_alloc ob) of None \<Rightarrow> None
           | Some ext \<Rightarrow> Some (ob\<lparr>ob_octets := ob_octets ob @ ext, ob_alloc := ob_alloc ob + 64\<rparr>)
      else Some ob)"

definition put_code :: "int \<Rightarrow> out_buffer \<Rightarrow> out_buffer option" where
  "put_code iOut ob =
     (if iOut = 0 then Some ob
      else let w = WRITE_UTF8 iOut
           in if ob_out ob + length w \<le> length (ob_octets ob)
              then Some (ob\<lparr>ob_octets := wr (ob_octets ob) (ob_out ob) w, ob_out := ob_out ob + length w\<rparr>) else None)"

partial_function (option) token_loop ::
  "unicode_tokenizer \<Rightarrow> (nat \<Rightarrow> bytes option) \<Rightarrow> bytes \<Rightarrow> nat \<Rightarrow> nat \<Rightarrow> int \<Rightarrow> out_buffer \<Rightarrow> (int \<times> nat \<times> nat \<times> out_buffer) option" where
  "token_loop p fresh mem zTerm z code ob =
     (case grow_buffer fresh ob of
        None \<Rightarrow> Some (NOMEM, z, z, ob)
      | Some ob1 \<Rightarrow>
          do {
            ob2 \<leftarrow> put_code (sqlite3FtsUnicodeFold code (bRemoveDiacritic p)) ob1;
            if z \<ge> zTerm then Some (OK, z, z, ob2)
            else do {
              z1 \<leftarrow> inner_tags mem zTerm z;
              b \<leftarrow> at mem z1;
              if b = 0x3c then Some (OK, z1, z, ob2)
              else do {
                r \<leftarrow> READ_UTF8 mem zTerm z1;
                if unicodeIsAlnum p (snd r) \<or> sqlite3FtsUnicodeIsdiacritic (snd r) \<noteq> 0
                then token_loop p fresh mem zTerm (fst r) (snd r) ob2
                else Some (OK, fst r, z, ob2)
              }
            }
          })"

record html_token =
  ht_text :: bytes
  ht_start :: nat
  ht_end :: nat
  ht_pos :: nat

definition terminate_token :: "out_buffer \<Rightarrow> bytes option" where
  "terminate_token ob =
     do {
       overflow \<leftarrow> c_strlen_at (ob_octets ob) (ob_out ob);
       if overflow > 0
       then do { n \<leftarrow> c_strlen_at (ob_octets ob) 0; Some ((ob_octets ob)[n - overflow := 0]) }
       else Some (ob_octets ob)
     }"

definition unicodeNext ::
  "unicode_tokenizer \<Rightarrow> (nat \<Rightarrow> bytes option) \<Rightarrow> unicode_cursor \<Rightarrow> (int \<times> html_token option \<times> unicode_cursor) option" where
  "unicodeNext p fresh cur =
     do {
       (z, zStart, code) \<leftarrow> scan p (aInput cur) (nInput cur) (iOff cur) (iOff cur) 0;
       if zStart \<ge> nInput cur then Some (DONE, None, cur)
       else do {
         (rc, z', zEnd, ob) \<leftarrow> token_loop p fresh (aInput cur) (nInput cur) z code
                                \<lparr>ob_octets = zToken cur, ob_alloc = nAlloc cur, ob_out = 0\<rparr>;
         if rc \<noteq> OK then Some (rc, None, cur\<lparr>zToken := ob_octets ob, nAlloc := ob_alloc ob\<rparr>)
         else do {
           buf \<leftarrow> terminate_token ob;
           let stemmed = (case cur_stemmer cur of None \<Rightarrow> None | Some stem \<Rightarrow> stem (take (ob_out ob) buf));
           let text = (case stemmed of None \<Rightarrow> take (ob_out ob) buf | Some s \<Rightarrow> takeWhile (\<lambda>b. b \<noteq> 0) s);
           Some (OK, Some \<lparr>ht_text = text, ht_start = zStart, ht_end = zEnd, ht_pos = iTok cur\<rparr>,
                 cur\<lparr>zToken := buf, nAlloc := ob_alloc ob, iOff := z', iTok := iTok cur + 1\<rparr>)
         }
       }
     }"

end
