(* ===== verification/Html_Tags.thy ===== *)
theory Html_Tags
  imports Html_Next
begin

text \<open>
  What the tag loops of \<open>unicodeNext\<close> do on the octets of a document: the string functions, the items of a document
  (code points and tags) and how far \<open>scan_tag\<close> and \<open>inner_tags\<close> go on each kind of tag.
\<close>

section \<open>Reading strings\<close>

text \<open>The lemmas speak about the octets from a position on.\<close>

lemma ascii_lower_zero: "ascii_lower t = 0 \<longleftrightarrow> t = 0"
  by (auto simp: ascii_lower_def word_le_def word_uint_eq_iff uint_word_ariths)

fun ciprefix :: "bytes \<Rightarrow> bytes \<Rightarrow> bool" where
  "ciprefix [] xs = True"
| "ciprefix (t # ts) [] = False"
| "ciprefix (t # ts) (x # xs) = (ascii_lower x = ascii_lower t \<and> ciprefix ts xs)"

lemma strncasecmp_drop:
  "drop z mem = xs \<Longrightarrow> 0 \<in> set xs \<Longrightarrow> 0 \<notin> set t \<Longrightarrow> strncasecmp_eq mem z t = Some (ciprefix t xs)"
proof (induction t arbitrary: z xs)
  case (Cons t ts)
  then obtain x ys where xs: "xs = x # ys" by (cases xs) auto
  note d = at_drop [OF Cons.prems(1) [unfolded xs]] drop_Suc_eq [OF Cons.prems(1) [unfolded xs]]
  show ?case
  proof (cases "ascii_lower x = ascii_lower t")
    case True
    moreover have "x \<noteq> 0" using True Cons.prems(3) ascii_lower_zero [of x] ascii_lower_zero [of t] by auto
    then have "0 \<in> set ys" using Cons.prems(2) xs by auto
    ultimately show ?thesis using Cons.IH [OF d(2)] Cons.prems(3) d(1) xs by simp
  next
    case False
    then show ?thesis using d(1) xs by simp
  qed
qed simp

lemma occurs_at_drop:
  "drop z mem = xs \<Longrightarrow> 0 \<in> set xs \<Longrightarrow> 0 \<notin> set t \<Longrightarrow> occurs_at mem z t = Some (take (length t) xs = t)"
proof (induction t arbitrary: z xs)
  case (Cons t ts)
  then obtain x ys where xs: "xs = x # ys" by (cases xs) auto
  note d = at_drop [OF Cons.prems(1) [unfolded xs]] drop_Suc_eq [OF Cons.prems(1) [unfolded xs]]
  show ?case
  proof (cases "x = t")
    case True
    then have "0 \<in> set ys" using Cons.prems(2,3) xs by auto
    then show ?thesis using Cons.IH [OF d(2)] Cons.prems(3) True d(1) xs by simp
  next
    case False
    then show ?thesis using d(1) xs by simp
  qed
qed simp

text \<open>\<open>first_at pat b\<close>: in \<open>b\<close> followed by the pattern, the pattern does not occur earlier.\<close>

fun first_at :: "bytes \<Rightarrow> bytes \<Rightarrow> bool" where
  "first_at pat [] = True"
| "first_at pat (x # b) = (take (length pat) (x # b @ pat) \<noteq> pat \<and> first_at pat b)"

lemma strstr_drop:
  "drop z mem = b @ pat @ post \<Longrightarrow> 0 \<in> set post \<Longrightarrow> 0 \<notin> set pat \<Longrightarrow> 0 \<notin> set b \<Longrightarrow> first_at pat b \<Longrightarrow>
   strstr mem z pat = Some (Some (z + length b))"
proof (induction b arbitrary: z)
  case Nil
  then have "occurs_at mem z pat = Some True" using occurs_at_drop [OF Nil(1)] by simp
  then show ?case by (subst strstr.simps) simp
next
  case (Cons x b)
  have "(x # b) @ pat @ post = (x # b @ pat) @ post" by simp
  then have "take (length pat) ((x # b) @ pat @ post) = take (length pat) (x # b @ pat)" by (simp only: take_append) simp
  then have "occurs_at mem z pat = Some False"
    using occurs_at_drop [OF Cons.prems(1)] Cons.prems(2,3,5) by simp
  moreover have "at mem z = Some x" "x \<noteq> 0" using at_drop [of z mem x] Cons.prems(1,4) by auto
  moreover have "strstr mem (Suc z) pat = Some (Some (Suc z + length b))"
    using Cons.prems drop_Suc_eq [of z mem x] by (intro Cons.IH) auto
  ultimately show ?case by (subst strstr.simps) simp
qed

lemma skip_gt_drop:
  "drop z mem = b @ 0x3e # post \<Longrightarrow> 0x3e \<notin> set b \<Longrightarrow> z + length b < zTerm \<Longrightarrow> skip_gt mem zTerm z = Some (z + length b)"
proof (induction b arbitrary: z)
  case Nil
  then show ?case using at_drop [of z mem "0x3e"] by (subst skip_gt.simps) auto
next
  case (Cons x b)
  have "at mem z = Some x" "x \<noteq> 0x3e" "z \<noteq> zTerm" using at_drop [of z mem x] Cons.prems by auto
  moreover have "skip_gt mem zTerm (Suc z) = Some (Suc z + length b)"
    using Cons.prems drop_Suc_eq [of z mem x] by (intro Cons.IH) auto
  ultimately show ?case by (subst skip_gt.simps) simp
qed

lemma ciprefix_append: "0x3e \<notin> set t \<Longrightarrow> ciprefix t (b @ 0x3e # post) = ciprefix t b"
proof (induction t b rule: ciprefix.induct)
  case (2 t ts)
  have "ascii_lower 0x3e \<noteq> ascii_lower t" if "t \<noteq> 0x3e"
    using that by (auto simp: ascii_lower_def word_le_def word_uint_eq_iff uint_word_ariths)
  with 2 show ?case by auto
qed auto

lemma skip_gt_end: "drop z mem = b @ post \<Longrightarrow> 0x3e \<notin> set b \<Longrightarrow> zTerm = z + length b \<Longrightarrow> skip_gt mem zTerm z = Some zTerm"
proof (induction b arbitrary: z)
  case Nil
  then show ?case by (subst skip_gt.simps) simp
next
  case (Cons x b)
  have "at mem z = Some x" "x \<noteq> 0x3e" "z \<noteq> zTerm" using at_drop [of z mem x] Cons.prems by auto
  moreover have "skip_gt mem zTerm (Suc z) = Some zTerm"
    using Cons.prems drop_Suc_eq [of z mem x] by (intro Cons.IH) auto
  ultimately show ?case by (subst skip_gt.simps) simp
qed

section \<open>Documents\<close>

text \<open>
  A document: code points and tags. \<open>Tag\<close> is a tag that ends a token, \<open>Ruby\<close> an opening or closing
  \<^verbatim>\<open>ruby\<close> tag, \<open>Annot\<close> an \<^verbatim>\<open>rp\<close> or \<^verbatim>\<open>rt\<close> element with its content, \<open>Ignored i\<close> an element that is left out, from its
  opening to its closing tag. \<open>Annot\<close> and \<open>Ignored\<close> carry the octets between the two names.
\<close>

datatype item = Chr int | Tag bytes | Ruby bool bytes | Annot bytes bytes | Ignored nat bytes

fun render :: "item \<Rightarrow> bytes" where
  "render (Chr c) = WRITE_UTF8 c"
| "render (Tag b) = 0x3c # b @ [0x3e]"
| "render (Ruby closing b) = 0x3c # (if closing then [0x2f] else []) @ ascii ''ruby'' @ b @ [0x3e]"
| "render (Annot t b) = 0x3c # t @ b @ t @ [0x3e]"
| "render (Ignored i b) = 0x3c # fst (ignore_tags ! i) @ b @ snd (ignore_tags ! i) @ [0x3e]"

text \<open>An ordinary tag begins, upper and lower case aside, with none of the names that are treated specially.\<close>

fun ordinary :: "bytes \<Rightarrow> bool" where
  "ordinary [] = True"
| "ordinary (x # b) =
     (if x = 0x2f then \<not> ciprefix (ascii ''ruby'') b
      else \<not> list_ex (\<lambda>t. ciprefix t (x # b)) (map fst ignore_tags @ nonbreaking_ignore_tags @ nonbreaking_tags))"

fun item_ok :: "item \<Rightarrow> bool" where
  "item_ok (Chr c) = (scalar c \<and> 0 < c \<and> c \<noteq> 60)"
| "item_ok (Tag b) = (0 \<notin> set b \<and> 0x3e \<notin> set b \<and> ordinary b)"
| "item_ok (Ruby closing b) = (0 \<notin> set b \<and> 0x3e \<notin> set b)"
| "item_ok (Annot t b) = (t \<in> set nonbreaking_ignore_tags \<and> 0 \<notin> set b \<and> first_at (t @ [0x3e]) b)"
| "item_ok (Ignored i b) = (i < length ignore_tags \<and> 0 \<notin> set b \<and> first_at (snd (ignore_tags ! i) @ [0x3e]) b)"

fun transparent :: "item \<Rightarrow> bool" where
  "transparent (Ruby closing b) = True"
| "transparent (Annot t b) = True"
| "transparent it = False"

definition is_chr :: "item \<Rightarrow> bool" where
  "is_chr it = (case it of Chr c \<Rightarrow> True | _ \<Rightarrow> False)"

lemmas tag_names = ignore_tags_def nonbreaking_ignore_tags_def nonbreaking_tags_def

lemma ciprefix_self [simp]: "ciprefix t (t @ xs)"
  by (induction t) simp_all

lemma ignore_loop_skip:
  "\<not> ciprefix op xs \<Longrightarrow> drop z mem = xs \<Longrightarrow> 0 \<in> set xs \<Longrightarrow> 0 \<notin> set op \<Longrightarrow>
   ignore_loop mem ((op, cl) # tags) z ig = ignore_loop mem tags z ig"
  by (simp add: strncasecmp_drop)

lemma ignore_loop_none:
  "list_all (\<lambda>(op, cl). \<not> ciprefix op xs \<and> 0 \<notin> set op) tags \<Longrightarrow> drop z mem = xs \<Longrightarrow> 0 \<in> set xs \<Longrightarrow>
   ignore_loop mem tags z ig = Some (z, ig)"
  by (induction tags) (auto simp: ignore_loop_skip simp del: ignore_loop.simps(2))

lemma ignore_loop_match:
  assumes "drop z mem = op @ b @ cl @ 0x3e # post" and "0 \<in> set post" and "0 \<notin> set op" "0 \<notin> set cl" "0 \<notin> set b"
    and "first_at (cl @ [0x3e]) b"
  shows "ignore_loop mem ((op, cl) # tags) z ig = Some (z + length op + length b + length cl, True)"
proof -
  have d1: "drop (z + length op) mem = b @ (cl @ [0x3e]) @ post" using drop_add_eq [OF assms(1)] by simp
  then have d2: "drop (z + length op + length b + length cl) mem = 0x3e # post"
    using drop_add_eq [of "z + length op" mem b] drop_add_eq [of "z + length op + length b" mem cl] by simp
  have "strstr mem (z + length op) (cl @ [0x3e]) = Some (Some (z + length op + length b))"
    using strstr_drop [OF d1] assms by simp
  moreover have "\<exists>x. at mem (z + length op) = Some x"
    using d1 at_drop [of "z + length op" mem] by (cases "b @ (cl @ [0x3e]) @ post") auto
  moreover have "strncasecmp_eq mem z op = Some True" using strncasecmp_drop [OF assms(1)] assms(2,3) by simp
  ultimately show ?thesis using at_drop [OF d2] by auto
qed

text \<open>The names have no zero octet and no \<^verbatim>\<open>>\<close>, and do not begin with a slash.\<close>

lemma tag_octets:
  "list_all (\<lambda>op. 0 \<notin> set op \<and> 0x3e \<notin> set op) (map fst ignore_tags @ nonbreaking_ignore_tags @ nonbreaking_tags)"
  "list_all (\<lambda>(op, cl). op \<noteq> [] \<and> hd op \<noteq> 0x2f \<and> 0 \<notin> set cl) ignore_tags"
  by (simp_all add: tag_names)

lemma ignore_tag_octets:
  assumes "(op, cl) \<in> set ignore_tags"
  shows "0 \<notin> set op" "0 \<notin> set cl" "op \<noteq> []" "hd op \<noteq> 0x2f"
proof -
  have "op \<in> set (map fst ignore_tags)" using assms by force
  with assms show "0 \<notin> set op" "0 \<notin> set cl" "op \<noteq> []" "hd op \<noteq> 0x2f" using tag_octets by (auto simp: list_all_iff)
qed

lemma pair_tags: "list_all (\<lambda>(op, cl). P op) (map (\<lambda>t. (t, t)) ts) = list_all P ts" "list_all (\<lambda>(op, cl). P op) ps = list_all P (map fst ps)"
  by (auto simp: list_all_iff)

text \<open>Before a token: a tag with none of the names is passed up to the next \<^verbatim>\<open>>\<close>.\<close>

lemma scan_tag_plain:
  assumes d: "drop (Suc z) mem = x # xs" and "0 \<in> set (x # xs)"
    and n: "x \<noteq> 0x2f \<Longrightarrow> list_all (\<lambda>op. \<not> ciprefix op (x # xs)) (map fst ignore_tags @ nonbreaking_ignore_tags)"
  shows "scan_tag mem zTerm z = skip_gt mem zTerm (Suc z)"
proof (cases "x = 0x2f")
  case True
  then show ?thesis using at_drop [OF d] by (simp add: scan_tag_def)
next
  case False
  have "list_all (\<lambda>(op, cl). \<not> ciprefix op (x # xs) \<and> 0 \<notin> set op) ignore_tags"
    "list_all (\<lambda>(op, cl). \<not> ciprefix op (x # xs) \<and> 0 \<notin> set op) (map (\<lambda>t. (t, t)) nonbreaking_ignore_tags)"
    using n [OF False] tag_octets(1) unfolding pair_tags by (auto simp: list_all_iff)
  then have "ignore_loop mem ignore_tags (Suc z) False = Some (Suc z, False)"
    "ignore_loop mem (map (\<lambda>t. (t, t)) nonbreaking_ignore_tags) (Suc z) False = Some (Suc z, False)"
    using ignore_loop_none [OF _ d assms(2)] by simp_all
  then show ?thesis using at_drop [OF d] False by (simp add: scan_tag_def)
qed

lemma scan_tag_Tag:
  assumes ok: "item_ok (Tag b)" and d: "drop z mem = render (Tag b) @ post" and post: "0 \<in> set post" and t: "z + length (render (Tag b)) \<le> zTerm"
  shows "scan_tag mem zTerm z = Some (z + length (render (Tag b)) - 1)"
proof -
  have d1: "drop (Suc z) mem = b @ 0x3e # post" using d drop_Suc_eq [of z mem] by simp
  have no: "list_all (\<lambda>op. \<not> ciprefix op (b @ 0x3e # post)) (map fst ignore_tags @ nonbreaking_ignore_tags)" if "b = [] \<or> hd b \<noteq> 0x2f"
  proof (cases b)
    case Nil
    then show ?thesis by (simp add: tag_names ascii_lower_def)
  next
    case (Cons x b')
    have "\<not> ciprefix op (b @ 0x3e # post)" if op: "op \<in> set (map fst ignore_tags @ nonbreaking_ignore_tags)" for op
    proof -
      have "\<not> ciprefix op b" using ok Cons \<open>b = [] \<or> hd b \<noteq> 0x2f\<close> op by (auto simp: list_ex_iff)
      moreover have "0x3e \<notin> set op" using tag_octets(1) op by (auto simp: list_all_iff)
      ultimately show ?thesis using ciprefix_append [of op b post] by simp
    qed
    then show ?thesis unfolding list_all_iff by blast
  qed
  obtain x xs where x: "b @ 0x3e # post = x # xs" "x = 0x2f \<or> b = [] \<or> hd b \<noteq> 0x2f" by (cases b) auto
  have "scan_tag mem zTerm z = skip_gt mem zTerm (Suc z)"
  proof (rule scan_tag_plain)
    show "drop (Suc z) mem = x # xs" using d1 x(1) by simp
    show "0 \<in> set (x # xs)" unfolding x(1) [symmetric] using post by simp
    show "list_all (\<lambda>op. \<not> ciprefix op (x # xs)) (map fst ignore_tags @ nonbreaking_ignore_tags)" if "x \<noteq> 0x2f"
      unfolding x(1) [symmetric] using that x(2) no by blast
  qed
  also have "\<dots> = Some (Suc z + length b)" using skip_gt_drop [OF d1] ok t by simp
  finally show ?thesis by simp
qed

lemma scan_tag_Ruby:
  assumes ok: "item_ok (Ruby cl b)" and d: "drop z mem = render (Ruby cl b) @ post" and post: "0 \<in> set post"
    and t: "z + length (render (Ruby cl b)) \<le> zTerm"
  shows "scan_tag mem zTerm z = Some (z + length (render (Ruby cl b)) - 1)"
proof -
  let ?c = "if cl then [0x2f] else []"
  have d1: "drop (Suc z) mem = (?c @ ascii ''ruby'' @ b) @ 0x3e # post" using d drop_Suc_eq [of z mem] by simp
  obtain x xs where x: "(?c @ ascii ''ruby'' @ b) @ 0x3e # post = x # xs" by (cases cl) auto
  have "list_all (\<lambda>op. \<not> ciprefix op (x # xs)) (map fst ignore_tags @ nonbreaking_ignore_tags)" if "x \<noteq> 0x2f"
    using that x by (cases cl) (auto simp: tag_names ascii_lower_def)
  moreover have "drop (Suc z) mem = x # xs" using d1 x by simp
  moreover have "0 \<in> set (x # xs)" unfolding x [symmetric] using post by simp
  ultimately have "scan_tag mem zTerm z = skip_gt mem zTerm (Suc z)" by (intro scan_tag_plain)
  also have "\<dots> = Some (Suc z + length (?c @ ascii ''ruby'' @ b))" using skip_gt_drop [OF d1] ok t by simp
  finally show ?thesis by simp
qed

text \<open>A name whose content is left out: the tag is passed up to the end of the closing name.\<close>

lemma scan_tag_match:
  assumes d1: "drop (Suc z) mem = op @ b @ cl @ 0x3e # post" and op: "op \<noteq> []" "hd op \<noteq> 0x2f" and z: "z + length op + length b + length cl + 1 < zTerm"
    and l: "ignore_loop mem ignore_tags (Suc z) False = Some (Suc z + length op + length b + length cl, True) \<or>
      ignore_loop mem ignore_tags (Suc z) False = Some (Suc z, False) \<and>
      ignore_loop mem (map (\<lambda>t. (t, t)) nonbreaking_ignore_tags) (Suc z) False = Some (Suc z + length op + length b + length cl, True)"
  shows "scan_tag mem zTerm z = Some (Suc z + length op + length b + length cl)"
proof -
  have "\<exists>x. at mem (Suc z) = Some x \<and> x \<noteq> 0x2f" using at_drop [of "Suc z" mem] d1 op by (cases op) auto
  moreover have "drop (Suc z + length op + length b + length cl) mem = 0x3e # post"
    using drop_add_eq [OF d1] drop_add_eq [of "Suc z + length op" mem b] drop_add_eq [of "Suc z + length op + length b" mem cl] by simp
  then have "skip_gt mem zTerm (Suc z + length op + length b + length cl) = Some (Suc z + length op + length b + length cl)"
    using skip_gt_drop [of "Suc z + length op + length b + length cl" mem "[]" post zTerm] z by simp
  ultimately show ?thesis using l by (auto simp: scan_tag_def)
qed

lemma scan_tag_Annot:
  assumes ok: "item_ok (Annot u b)" and d: "drop z mem = render (Annot u b) @ post" and post: "0 \<in> set post"
    and t: "z + length (render (Annot u b)) \<le> zTerm"
  shows "scan_tag mem zTerm z = Some (z + length (render (Annot u b)) - 1)"
proof -
  have u: "u = ascii ''rp'' \<or> u = ascii ''rt''" and b: "0 \<notin> set b" "first_at (u @ [0x3e]) b" using ok by (auto simp: nonbreaking_ignore_tags_def)
  have d1: "drop (Suc z) mem = u @ b @ u @ 0x3e # post" using d drop_Suc_eq [of z mem] by simp
  have "list_all (\<lambda>(op, cl). \<not> ciprefix op (u @ b @ u @ 0x3e # post) \<and> 0 \<notin> set op) ignore_tags"
    using u by (auto simp: tag_names ascii_lower_def)
  then have l1: "ignore_loop mem ignore_tags (Suc z) False = Some (Suc z, False)"
    using ignore_loop_none [of "u @ b @ u @ 0x3e # post" _ "Suc z"] d1 post by simp
  have m: "ignore_loop mem ((u, u) # tags) (Suc z) False = Some (Suc z + length u + length b + length u, True)" for tags
    using ignore_loop_match [OF d1 post] u b by auto
  have l2: "ignore_loop mem (map (\<lambda>t. (t, t)) nonbreaking_ignore_tags) (Suc z) False = Some (Suc z + length u + length b + length u, True)"
  proof (cases "u = ascii ''rp''")
    case True
    then show ?thesis using m unfolding nonbreaking_ignore_tags_def list.map by simp
  next
    case False
    then have ur: "u = ascii ''rt''" using u by simp
    have "ignore_loop mem ((ascii ''rp'', ascii ''rp'') # [(u, u)]) (Suc z) False = ignore_loop mem [(u, u)] (Suc z) False"
      using d1 post ur by (intro ignore_loop_skip [of _ "u @ b @ u @ 0x3e # post"]) (simp_all add: ascii_lower_def)
    then show ?thesis using m ur unfolding nonbreaking_ignore_tags_def list.map by simp
  qed
  show ?thesis using scan_tag_match [OF d1, of zTerm] l1 l2 u t by auto
qed

lemma scan_tag_Ignored:
  assumes ok: "item_ok (Ignored i b)" and d: "drop z mem = render (Ignored i b) @ post" and post: "0 \<in> set post"
    and t: "z + length (render (Ignored i b)) \<le> zTerm"
  shows "scan_tag mem zTerm z = Some (z + length (render (Ignored i b)) - 1)"
proof -
  obtain op cl where oc: "ignore_tags ! i = (op, cl)" by fastforce
  have i: "i < length ignore_tags" and b: "0 \<notin> set b" "first_at (cl @ [0x3e]) b" using ok oc by simp_all
  have d1: "drop (Suc z) mem = op @ b @ cl @ 0x3e # post" using d drop_Suc_eq [of z mem] oc by simp
  have "(op, cl) \<in> set ignore_tags" using i oc by (metis nth_mem)
  note nz = ignore_tag_octets [OF this]
  have m: "ignore_loop mem ((op, cl) # tags) (Suc z) False = Some (Suc z + length op + length b + length cl, True)" for tags
    using ignore_loop_match [OF d1 post] nz b by simp
  have sk: "ignore_loop mem ((o1, c1) # tags) (Suc z) False = ignore_loop mem tags (Suc z) False"
    if "\<not> ciprefix o1 (op @ b @ cl @ 0x3e # post)" "0 \<notin> set o1" for o1 c1 tags
    using that d1 post by (intro ignore_loop_skip [of _ "op @ b @ cl @ 0x3e # post"]) simp_all
  have "i < 4" using i by (simp add: ignore_tags_def)
  then consider "i = 0" | "i = 1" | "i = 2" | "i = 3" by linarith
  then have "ignore_loop mem ignore_tags (Suc z) False = Some (Suc z + length op + length b + length cl, True)"
    by cases (use m oc [symmetric] sk in \<open>simp_all add: ignore_tags_def ascii_lower_def del: ignore_loop.simps\<close>)
  then show ?thesis using scan_tag_match [OF d1 nz(3,4), of zTerm] t oc by simp
qed

lemma scan_tag_item:
  "item_ok it \<Longrightarrow> \<not> is_chr it \<Longrightarrow> drop z mem = render it @ post \<Longrightarrow> 0 \<in> set post \<Longrightarrow> z + length (render it) \<le> zTerm \<Longrightarrow>
   scan_tag mem zTerm z = Some (z + length (render it) - 1)"
  by (cases it) (use scan_tag_Tag scan_tag_Ruby scan_tag_Annot scan_tag_Ignored in \<open>auto simp: is_chr_def simp del: item_ok.simps render.simps\<close>)

section \<open>Tags within a token\<close>

lemma inner_stop: "drop z mem = x # xs \<Longrightarrow> x \<noteq> 0x3c \<Longrightarrow> inner_tags mem zTerm z = Some z"
  by (subst inner_tags.simps) (simp add: at_drop)

lemma annot_loop_skip:
  "\<not> ciprefix t xs \<Longrightarrow> drop (Suc z) mem = xs \<Longrightarrow> 0 \<in> set xs \<Longrightarrow> 0 \<notin> set t \<Longrightarrow>
   annot_loop mem zTerm (t # tags) z ig = annot_loop mem zTerm tags z ig"
  by (simp add: strncasecmp_drop)

lemma annot_loop_none:
  "list_all (\<lambda>t. \<not> ciprefix t xs \<and> 0 \<notin> set t) tags \<Longrightarrow> drop (Suc z) mem = xs \<Longrightarrow> 0 \<in> set xs \<Longrightarrow>
   annot_loop mem zTerm tags z ig = Some (z, ig)"
  by (induction tags) (auto simp: annot_loop_skip simp del: annot_loop.simps(2))

lemma annot_loop_match:
  assumes "drop (Suc z) mem = t @ b @ t @ 0x3e # post" and "0 \<in> set post" and "0 \<notin> set t" "0 \<notin> set b" and "first_at (t @ [0x3e]) b"
    and "Suc z + length t + length b + length t < zTerm"
  shows "annot_loop mem zTerm (t # tags) z ig = Some (Suc z + length t + length b + length t + 1, True)"
proof -
  have d1: "drop (Suc z + length t) mem = b @ (t @ [0x3e]) @ post" using drop_add_eq [OF assms(1)] by simp
  then have d2: "drop (Suc z + length t + length b + length t) mem = [] @ 0x3e # post"
    using drop_add_eq [of "Suc z + length t" mem b] drop_add_eq [of "Suc z + length t + length b" mem t] by simp
  have "strstr mem (Suc z + length t) (t @ [0x3e]) = Some (Some (Suc z + length t + length b))"
    using strstr_drop [OF d1] assms by simp
  moreover have "\<exists>x. at mem (Suc z + length t) = Some x"
    using d1 at_drop [of "Suc z + length t" mem] by (cases "b @ (t @ [0x3e]) @ post") auto
  moreover have "strncasecmp_eq mem (Suc z) t = Some True" using strncasecmp_drop [OF assms(1)] assms(2,3) by simp
  moreover have "skip_gt mem zTerm (Suc z + length t + length b + length t) = Some (Suc z + length t + length b + length t)"
    using skip_gt_drop [OF d2] assms(6) by simp
  ultimately show ?thesis using at_drop [of _ mem "0x3e" post] d2 by auto
qed

lemma nonbreak_ruby:
  assumes "drop (z + k) mem = xs" and "0 \<in> set xs"
  shows "\<not> ciprefix (ascii ''ruby'') xs \<Longrightarrow> nonbreak_loop mem zTerm k nonbreaking_tags z False = Some (z, False)"
    and "xs = ascii ''ruby'' @ b @ 0x3e # post \<Longrightarrow> 0x3e \<notin> set b \<Longrightarrow> z + k + 4 + length b < zTerm \<Longrightarrow>
      nonbreak_loop mem zTerm k nonbreaking_tags z False = Some (z + k + 4 + length b + 1, True)"
proof -
  have s: "strncasecmp_eq mem (z + k) (ascii ''ruby'') = Some (ciprefix (ascii ''ruby'') xs)"
    by (rule strncasecmp_drop [OF assms]) simp
  show "\<not> ciprefix (ascii ''ruby'') xs \<Longrightarrow> nonbreak_loop mem zTerm k nonbreaking_tags z False = Some (z, False)"
    using s by (simp add: nonbreaking_tags_def del: ascii_Cons)
  assume x: "xs = ascii ''ruby'' @ b @ 0x3e # post" and b: "0x3e \<notin> set b" and t: "z + k + 4 + length b < zTerm"
  have d1: "drop (z + k + 4) mem = b @ 0x3e # post" using drop_add_eq [of "z + k" mem "ascii ''ruby''"] assms(1) x by (simp add: eval_nat_numeral)
  have d2: "drop (z + k + 4 + length b) mem = 0x3e # post" using drop_add_eq [OF d1] .
  obtain y where "at mem (z + k + 4) = Some y" using d1 at_drop [of "z + k + 4" mem] by (cases b) auto
  moreover have "skip_gt mem zTerm (z + k + 4) = Some (z + k + 4 + length b)" using skip_gt_drop [OF d1 b t] .
  moreover have "ciprefix (ascii ''ruby'') xs" unfolding x by (rule ciprefix_self)
  ultimately show "nonbreak_loop mem zTerm k nonbreaking_tags z False = Some (z + k + 4 + length b + 1, True)"
    using s at_drop [OF d2] by (simp add: nonbreaking_tags_def eval_nat_numeral del: ascii_Cons)
qed

text \<open>What stops at a tag: its name is not special.\<close>

lemma inner_tags_plain:
  assumes d: "drop z mem = 0x3c # x # xs" and z: "0 \<in> set xs"
    and n: "if x = 0x2f then \<not> ciprefix (ascii ''ruby'') xs
      else list_all (\<lambda>t. \<not> ciprefix t (x # xs)) (nonbreaking_ignore_tags @ nonbreaking_tags)"
  shows "inner_tags mem zTerm z = Some z"
proof -
  have d1: "drop (Suc z) mem = x # xs" and d2: "drop (Suc (Suc z)) mem = xs"
    using drop_Suc_eq [OF d] drop_Suc_eq [of "Suc z" mem] by simp_all
  note at = at_drop [OF d] at_drop [OF d1]
  show ?thesis
  proof (cases "x = 0x2f")
    case True
    then have "nonbreak_loop mem zTerm 2 nonbreaking_tags z False = Some (z, False)"
      using nonbreak_ruby(1) [of z 2 mem xs] d2 z n by simp
    with True at show ?thesis by (subst inner_tags.simps) simp
  next
    case False
    then have "list_all (\<lambda>t. \<not> ciprefix t (x # xs) \<and> 0 \<notin> set t) nonbreaking_ignore_tags" "\<not> ciprefix (ascii ''ruby'') (x # xs)"
      using n tag_octets(1) by (auto simp: list_all_iff nonbreaking_tags_def simp del: ascii_Cons)
    then have "annot_loop mem zTerm nonbreaking_ignore_tags z False = Some (z, False)"
      "nonbreak_loop mem zTerm 1 nonbreaking_tags z False = Some (z, False)"
      using annot_loop_none [OF _ d1] nonbreak_ruby(1) [of z 1 mem "x # xs"] d1 z by simp_all
    with False at show ?thesis by (subst inner_tags.simps) simp
  qed
qed

lemma inner_Tag:
  assumes ok: "item_ok (Tag b)" and d: "drop z mem = render (Tag b) @ post" and post: "0 \<in> set post"
  shows "inner_tags mem zTerm z = Some z"
proof (cases b)
  case Nil
  then show ?thesis using d post by (intro inner_tags_plain [of _ _ "0x3e" post]) (simp_all add: tag_names ascii_lower_def)
next
  case (Cons x b')
  have r: "\<not> ciprefix t (c @ 0x3e # post)" if "\<not> ciprefix t c" "t \<in> set (nonbreaking_ignore_tags @ nonbreaking_tags)" for t c
    using that tag_octets(1) ciprefix_append [of t c post] by (auto simp: list_all_iff)
  have "if x = 0x2f then \<not> ciprefix (ascii ''ruby'') (b' @ 0x3e # post)
      else list_all (\<lambda>t. \<not> ciprefix t (x # b' @ 0x3e # post)) (nonbreaking_ignore_tags @ nonbreaking_tags)"
  proof (cases "x = 0x2f")
    case True
    then show ?thesis using ok Cons r [of "ascii ''ruby''" b'] by (simp add: nonbreaking_tags_def del: ascii_Cons)
  next
    case False
    then show ?thesis using ok Cons r [of _ "x # b'"] by (auto simp: list_all_iff list_ex_iff)
  qed
  then show ?thesis using d Cons post by (intro inner_tags_plain [of _ _ x "b' @ 0x3e # post"]) simp_all
qed

lemma inner_Ignored:
  assumes ok: "item_ok (Ignored i b)" and d: "drop z mem = render (Ignored i b) @ post" and post: "0 \<in> set post"
  shows "inner_tags mem zTerm z = Some z"
proof -
  obtain op cl where oc: "ignore_tags ! i = (op, cl)" by fastforce
  have "i < 4" using ok by (simp add: ignore_tags_def)
  then consider "i = 0" | "i = 1" | "i = 2" | "i = 3" by linarith
  then have "\<exists>x xs. op = x # xs \<and> x \<noteq> 0x2f \<and> list_all (\<lambda>t. \<not> ciprefix t (x # ys)) (nonbreaking_ignore_tags @ nonbreaking_tags)" for ys
    by cases (use oc [symmetric] in \<open>simp_all add: tag_names ascii_lower_def\<close>)
  then obtain x xs where x: "op = x # xs" "x \<noteq> 0x2f" "\<And>ys. list_all (\<lambda>t. \<not> ciprefix t (x # ys)) (nonbreaking_ignore_tags @ nonbreaking_tags)"
    by (metis list.inject)
  have "drop z mem = 0x3c # x # xs @ b @ cl @ 0x3e # post" using d oc x(1) by simp
  then show ?thesis by (rule inner_tags_plain) (use x post in simp_all)
qed

text \<open>What does not end a token.\<close>

lemma inner_Ruby:
  assumes ok: "item_ok (Ruby cl b)" and d: "drop z mem = render (Ruby cl b) @ post" and post: "0 \<in> set post"
    and t: "z + length (render (Ruby cl b)) \<le> zTerm"
  shows "inner_tags mem zTerm z = inner_tags mem zTerm (z + length (render (Ruby cl b)))"
proof (cases cl)
  case True
  have d0: "drop z mem = 0x3c # 0x2f # ascii ''ruby'' @ b @ 0x3e # post" using d True by simp
  have d1: "drop (Suc z) mem = 0x2f # ascii ''ruby'' @ b @ 0x3e # post" using drop_Suc_eq [OF d0] .
  have d2: "drop (z + 2) mem = ascii ''ruby'' @ b @ 0x3e # post" using drop_Suc_eq [OF d1] by simp
  have "nonbreak_loop mem zTerm 2 nonbreaking_tags z False = Some (z + 2 + 4 + length b + 1, True)"
    using nonbreak_ruby(2) [OF d2 _ refl] ok t True post by simp
  moreover have "length (render (Ruby cl b)) = 7 + length b" using True by simp
  ultimately show ?thesis using at_drop [OF d0] at_drop [OF d1] by (subst inner_tags.simps) (simp add: algebra_simps del: render.simps)
next
  case False
  have d0: "drop z mem = 0x3c # ascii ''ruby'' @ b @ 0x3e # post" using d False by simp
  have d1: "drop (Suc z) mem = ascii ''ruby'' @ b @ 0x3e # post" using drop_Suc_eq [OF d0] .
  have "annot_loop mem zTerm nonbreaking_ignore_tags z False = Some (z, False)"
    using post by (intro annot_loop_none [OF _ d1]) (simp_all add: tag_names ascii_lower_def)
  moreover have "nonbreak_loop mem zTerm 1 nonbreaking_tags z False = Some (z + 1 + 4 + length b + 1, True)"
    using nonbreak_ruby(2) [of z 1 mem _ b post] d1 ok t False post by simp
  moreover obtain x where "at mem (Suc z) = Some x" "x \<noteq> 0x2f" using at_drop [of "Suc z" mem] d1 by simp
  moreover have "length (render (Ruby cl b)) = 6 + length b" using False by simp
  ultimately show ?thesis using at_drop [OF d0] by (subst inner_tags.simps) (simp add: algebra_simps del: render.simps)
qed

lemma inner_Annot:
  assumes ok: "item_ok (Annot u b)" and d: "drop z mem = render (Annot u b) @ post" and post: "0 \<in> set post"
    and t: "z + length (render (Annot u b)) \<le> zTerm"
  shows "inner_tags mem zTerm z = inner_tags mem zTerm (z + length (render (Annot u b)))"
proof -
  have u: "u = ascii ''rp'' \<or> u = ascii ''rt''" and b: "0 \<notin> set b" "first_at (u @ [0x3e]) b" using ok by (auto simp: nonbreaking_ignore_tags_def)
  have d0: "drop z mem = 0x3c # u @ b @ u @ 0x3e # post" using d by simp
  have d1: "drop (Suc z) mem = u @ b @ u @ 0x3e # post" using drop_Suc_eq [OF d0] .
  have m: "annot_loop mem zTerm (u # tags) z False = Some (Suc z + length u + length b + length u + 1, True)" for tags
    using annot_loop_match [OF d1 post] u b t by auto
  have "annot_loop mem zTerm nonbreaking_ignore_tags z False = Some (Suc z + length u + length b + length u + 1, True)"
  proof (cases "u = ascii ''rp''")
    case True
    then show ?thesis using m unfolding nonbreaking_ignore_tags_def by simp
  next
    case False
    then have ur: "u = ascii ''rt''" using u by simp
    have "annot_loop mem zTerm (ascii ''rp'' # [u]) z False = annot_loop mem zTerm [u] z False"
      using d1 post ur by (intro annot_loop_skip [of _ "u @ b @ u @ 0x3e # post"]) (simp_all add: ascii_lower_def)
    then show ?thesis using m ur unfolding nonbreaking_ignore_tags_def by simp
  qed
  moreover obtain x where "at mem (Suc z) = Some x" "x \<noteq> 0x2f" using at_drop [of "Suc z" mem] d1 u by auto
  ultimately show ?thesis using at_drop [OF d0] by (subst inner_tags.simps) (simp add: add.assoc)
qed

end
