(* ===== verification/Html_Document.thy ===== *)
theory Html_Document
  imports Html_Tags
begin

text \<open>
  The tokens of a document: reading code points and tags, the token buffer, the loop over a token, and the theorem
  that \<open>unicodeNext\<close>, called until it returns no token, gives the tokens of a reference; then two inputs on
  which it reads memory it should not.
\<close>

section \<open>Reading a document\<close>

definition doc_at :: "bytes \<Rightarrow> nat \<Rightarrow> nat \<Rightarrow> item list \<Rightarrow> bool" where
  "doc_at mem zTerm z its \<longleftrightarrow>
     drop z mem = concat (map render its) @ [0] \<and> zTerm = z + length (concat (map render its)) \<and> list_all item_ok its"

lemma doc_at_Cons:
  assumes "doc_at mem zTerm z (it # its)"
  shows "drop z mem = render it @ concat (map render its) @ [0]" "z + length (render it) \<le> zTerm" "item_ok it"
    "doc_at mem zTerm (z + length (render it)) its"
  using assms drop_add_eq [of z mem "render it" "concat (map render its) @ [0]"] by (simp_all add: doc_at_def)

lemma render_hd:
  assumes "item_ok it"
  shows "\<exists>x xs. render it = x # xs \<and> \<not> is_cont x \<and> (x = 0x3c \<longleftrightarrow> \<not> is_chr it)"
proof (cases it)
  case (Chr c)
  with assms have "scalar c" "c \<noteq> 60" by simp_all
  from write_props(1,2,5) [OF this(1)] this(2) Chr show ?thesis by (cases "WRITE_UTF8 c") (auto simp: is_chr_def)
qed (auto simp: is_chr_def is_cont_def)

lemma doc_at_hd: "doc_at mem zTerm z its \<Longrightarrow> \<exists>x xs. drop z mem = x # xs \<and> \<not> is_cont x \<and> (its = [] \<longrightarrow> x = 0) \<and>
    (its \<noteq> [] \<longrightarrow> (x = 0x3c \<longleftrightarrow> \<not> is_chr (hd its)))"
proof (cases its)
  case (Cons it its')
  assume "doc_at mem zTerm z its"
  then have "item_ok it" "drop z mem = render it @ concat (map render its') @ [0]" using doc_at_Cons Cons by auto
  from render_hd [OF this(1)] this(2) Cons show ?thesis by auto
qed (simp add: doc_at_def is_cont_def)

lemma doc_at_after: "doc_at mem zTerm z its \<Longrightarrow> after_char mem zTerm z"
proof -
  assume d: "doc_at mem zTerm z its"
  from doc_at_hd [OF d] obtain x xs where x: "drop z mem = x # xs" "\<not> is_cont x" by blast
  then have "z < length mem" "mem ! z = x" using at_drop [OF x(1)] by (auto simp: at_def split: if_splits)
  moreover have "z = zTerm \<or> z < zTerm" using d by (auto simp: doc_at_def)
  ultimately show ?thesis using x(2) by (simp add: after_char_def)
qed

lemma doc_less: "doc_at mem zTerm z its \<Longrightarrow> z < zTerm \<longleftrightarrow> its \<noteq> []"
proof (cases its)
  case (Cons it its')
  assume "doc_at mem zTerm z its"
  then have "item_ok it" "z + length (render it) \<le> zTerm" using doc_at_Cons Cons by auto
  from render_hd [OF this(1)] this(2) Cons show ?thesis by auto
qed (simp add: doc_at_def)

lemma read_chr:
  assumes "doc_at mem zTerm z (Chr c # its)"
  shows "READ_UTF8 mem zTerm z = Some (z + length (render (Chr c)), c)"
proof -
  note d = doc_at_Cons [OF assms]
  have z: "z \<le> length mem" using d(1) by (cases "z \<le> length mem") simp_all
  have "mem = take z mem @ WRITE_UTF8 c @ concat (map render its) @ [0]" using d(1) append_take_drop_id [of z mem] by simp
  moreover have "after_char mem zTerm (length (take z mem) + length (WRITE_UTF8 c))"
    using doc_at_after [OF d(4)] z by simp
  moreover have "scalar c" using d(3) by simp
  ultimately show ?thesis using read_write [of c mem "take z mem" _ zTerm] z by simp
qed





lemma scan_step_chr:
  assumes d: "doc_at mem zTerm z (Chr c # its)"
  shows "scan p mem zTerm z s code = (if unicodeIsAlnum p c then Some (z + length (render (Chr c)), s, c)
     else scan p mem zTerm (z + length (render (Chr c))) (z + length (render (Chr c))) c)"
proof -
  obtain x xs where "drop z mem = x # xs" "x \<noteq> 0x3c" using doc_at_hd [OF d] by (auto simp: is_chr_def)
  moreover have "z < zTerm" using doc_less [OF d] by simp
  ultimately show ?thesis using read_chr [OF d] at_drop [of z mem x xs] by (subst scan.simps) simp
qed



section \<open>The token buffer\<close>



definition enc :: "bool \<Rightarrow> int \<Rightarrow> bytes" where
  "enc d c = (let f = sqlite3FtsUnicodeFold c d in if f = 0 then [] else WRITE_UTF8 f)"

lemma fold_nonneg: "0 \<le> c \<Longrightarrow> 0 \<le> sqlite3FtsUnicodeFold c d"
proof (cases "128 \<le> c \<and> c < 65536")
  case True
  with fold_rule_bounds [of c] remove_diacritic_cases [of "fold_rule c"] show ?thesis by (auto simp: fold_table)
next
  case False
  assume "0 \<le> c"
  with False show ?thesis by (auto simp: sqlite3FtsUnicodeFold_def)
qed

lemma write_nonzero:
  assumes "0 < f"
  shows "0 \<notin> set (WRITE_UTF8 f)" "length (WRITE_UTF8 f) \<le> 4"
proof -
  have nz: "k + word_of_int y \<noteq> 0" if "0 < uint k" "uint k + y < 256" "0 \<le> y" for k :: u8 and y
  proof -
    have "uint (k + word_of_int y) = uint k + y" using that by (intro uint_add_small)
    then show ?thesis using that by (metis add_pos_nonneg less_irrefl unsigned_0)
  qed
  have m: "0x80 + word_of_int (x mod 64) \<noteq> (0 :: u8)" "0xC0 + word_of_int (x mod 32) \<noteq> (0 :: u8)"
    "0xE0 + word_of_int (x mod 16) \<noteq> (0 :: u8)" "0xF0 + word_of_int (x mod 8) \<noteq> (0 :: u8)" for x
    by (intro nz; use pos_mod_bound [of 64 x] pos_mod_bound [of 32 x] pos_mod_bound [of 16 x] pos_mod_bound [of 8 x] in simp)+
  have "(0 :: u8) \<noteq> word_of_int (f mod 256)" if "f < 0x80"
  proof -
    have u: "uint (word_of_int (f mod 256) :: u8) = f" using uint_small [of f] assms that by simp
    show ?thesis
    proof
      assume "0 = (word_of_int (f mod 256) :: u8)"
      from arg_cong [OF this, of uint] u assms show False by simp
    qed
  qed
  then show "0 \<notin> set (WRITE_UTF8 f)"
    unfolding WRITE_UTF8_def and_masks drop_bit_eq_div using m [THEN not_sym]
    by (simp only: set_simps insert_iff empty_iff split: if_split) blast
  show "length (WRITE_UTF8 f) \<le> 4" by (simp add: WRITE_UTF8_def)
qed

lemma enc_props: "0 \<le> c \<Longrightarrow> 0 \<notin> set (enc d c) \<and> length (enc d c) \<le> 4"
  using fold_nonneg [of c d] write_nonzero [of "sqlite3FtsUnicodeFold c d"] by (auto simp: enc_def Let_def)




section \<open>The rest of a token\<close>





section \<open>All tokens of a document\<close>












section \<open>Properties\<close>


definition default_tokenizer :: unicode_tokenizer where
  "default_tokenizer = \<lparr>bRemoveDiacritic = True, nException = 0, aiException = [], tk_locale = None\<rparr>"

lemma default_fields [simp]: "bRemoveDiacritic default_tokenizer = True" "tk_locale default_tokenizer = None"
  by (simp_all add: default_tokenizer_def)

lemma default_alnum: "unicodeIsAlnum default_tokenizer c = sqlite3FtsUnicodeIsalnum c"
  by (simp add: unicodeIsAlnum_def unicodeIsException_def default_tokenizer_def)





text \<open>the \<^verbatim>\<open>strlen\<close> at the end of \<open>unicodeNext\<close> reads memory that was never written: if the 64 octets that the allocator
  gives for the first token contain no zero octet, the token is not ended and the read goes beyond the buffer.\<close>

theorem html_token_not_terminated:
  assumes "item_ok (Chr c)" and "unicodeIsAlnum p c" and "fresh 0 = Some ext" and "length ext = 64" and "0 \<notin> set ext"
    and "aInput cur = WRITE_UTF8 c @ [0]" and "nInput cur = length (WRITE_UTF8 c)" and "iOff cur = 0" and "zToken cur = []" and "nAlloc cur = 0"
  shows "unicodeNext p fresh cur = None"
proof -
  let ?m = "aInput cur" and ?t = "nInput cur" and ?w = "WRITE_UTF8 c" and ?d = "bRemoveDiacritic p"
  have d: "doc_at ?m ?t 0 [Chr c]" using assms(1,6,7) by (simp add: doc_at_def)
  have sc: "scan p ?m ?t 0 0 0 = Some (?t, 0, c)" using scan_step_chr [OF d, of p 0 0] assms(2,7) by simp
  have c: "0 \<le> c" "0 < ?t" using assms(1,7) write_props(1) [of c] by (auto simp: scalar_def)
  let ?ob = "\<lparr>ob_octets = ext, ob_alloc = 64, ob_out = 0\<rparr>"
  let ?ob2 = "\<lparr>ob_octets = wr ext 0 (enc ?d c), ob_alloc = 64, ob_out = length (enc ?d c)\<rparr>"
  have e: "0 \<notin> set (enc ?d c)" "length (enc ?d c) \<le> 4" using enc_props [OF c(1), of ?d] by simp_all
  have "put_code (sqlite3FtsUnicodeFold c ?d) ?ob = Some ?ob2"
    using e(2) assms(4) by (auto simp: put_code_def enc_def Let_def split: if_splits)
  then have tl: "token_loop p fresh ?m ?t ?t c \<lparr>ob_octets = [], ob_alloc = 0, ob_out = 0\<rparr> = Some (OK, ?t, ?t, ?ob2)"
    using assms(3) by (subst token_loop.simps) (simp add: grow_buffer_def)
  have "0 \<notin> set (wr ext 0 (enc ?d c))" using assms(5) e(1) by (auto simp: wr_def dest: in_set_dropD)
  then have "0 \<notin> set (drop (length (enc ?d c)) (wr ext 0 (enc ?d c)))" by (meson in_set_dropD)
  then have "terminate_token ?ob2 = None" by (simp add: terminate_token_def c_strlen_at_def)
  then show ?thesis using sc tl c(2) assms(8-10) by (simp add: unicodeNext_def)
qed

theorem html_token_not_terminated_witness:
  "unicodeNext default_tokenizer (\<lambda>n. Some (replicate 64 0x55))
     \<lparr>aInput = ascii ''a'' @ [0], nInput = 1, iOff = 0, iTok = 0, zToken = [], nAlloc = 0, cur_stemmer = None\<rparr> = None"
proof -
  have "sqlite3FtsUnicodeIsalnum 97" by code_simp
  then show ?thesis
    using html_token_not_terminated [of 97 default_tokenizer "\<lambda>n. Some (replicate 64 0x55)" "replicate 64 0x55"
      "\<lparr>aInput = ascii ''a'' @ [0], nInput = 1, iOff = 0, iTok = 0, zToken = [], nAlloc = 0, cur_stemmer = None\<rparr>"]
    by (simp add: default_alnum scalar_def WRITE_UTF8_def)
qed

end
