(* ===== verification/Ext_Utf8.thy ===== *)
theory Ext_Utf8
  imports Utf8_Codec
begin

text \<open>
  The UTF-8 reader of \<^verbatim>\<open>extensionfunctions.c\<close> and the C string operations its SQL functions use, on memories that
  are lists of octets. \<open>None\<close> is the result of a read or a write outside the memory. Shown: on well-formed
  text the reader gives the code points in turn, in agreement with \<open>WRITE_UTF8\<close> of the tokenizer.
\<close>

section \<open>The reader\<close>

definition xtra_utf8_bytes :: "nat list" where
  "xtra_utf8_bytes = replicate 128 0 @ replicate 64 4 @ replicate 32 1 @ replicate 16 2 @ replicate 8 3 @ replicate 8 4"

definition xtra_utf8_bits :: "int list" where
  "xtra_utf8_bits = [0, 12416, 925824, 63447168]"

text \<open>The masks are constants of type \<^verbatim>\<open>int\<close>: the last three are negative.\<close>

definition utf_mask :: "int list" where
  "utf_mask = [0x00000000, 0xffffff80 - 2 ^ 32, 0xfffff800 - 2 ^ 32, 0xffff0000 - 2 ^ 32]"

text \<open>The cases 3, 2 and 1 of the \<^verbatim>\<open>switch\<close> fall through: \<open>xtra\<close> further octets are read.\<close>

fun read_xtra :: "bytes \<Rightarrow> nat \<Rightarrow> nat \<Rightarrow> int \<Rightarrow> (nat \<times> int) option" where
  "read_xtra mem 0 z c = Some (z, c)"
| "read_xtra mem (Suc xtra) z c = do { b \<leftarrow> at mem z; read_xtra mem xtra (z + 1) (push_bit 6 c + uint b) }"

definition EXTFUNC_READ_UTF8 :: "bytes \<Rightarrow> nat \<Rightarrow> (nat \<times> int) option" where
  "EXTFUNC_READ_UTF8 mem zIn =
     do {
       b \<leftarrow> at mem zIn;
       let xtra = xtra_utf8_bytes ! unat b;
       if xtra = 4 then Some (zIn + 1, 0xFFFD)
       else if xtra = 0 then Some (zIn + 1, uint b)
       else do {
         (z, c0) \<leftarrow> read_xtra mem xtra (zIn + 1) (uint b);
         let c = c0 - xtra_utf8_bits ! xtra;
         Some (z, if utf_mask ! xtra AND c = 0 \<or> take_bit 32 c AND 0xFFFFF800 = 0xD800 \<or> take_bit 32 c AND 0xFFFFFFFE = 0xFFFE
                  then 0xFFFD else c)
       }
     }"

definition sqlite3ReadUtf8 :: "bytes \<Rightarrow> nat \<Rightarrow> int option" where
  "sqlite3ReadUtf8 mem z = map_option snd (EXTFUNC_READ_UTF8 mem z)"

text \<open>\<^verbatim>\<open>sqliteCharVal\<close> is another name of \<open>sqlite3ReadUtf8\<close>. \<open>sqliteNextChar\<close>: the first octet after \<open>z\<close> that does not continue a
  character.\<close>

function sqliteNextChar :: "bytes \<Rightarrow> nat \<Rightarrow> nat option" where
  "sqliteNextChar mem z =
     (case at mem (z + 1) of None \<Rightarrow> None
      | Some b \<Rightarrow> if 0xc0 AND b = 0x80 then sqliteNextChar mem (z + 1) else Some (z + 1))"
  by pat_completeness auto
termination by (relation "measure (\<lambda>(mem, z). length mem - z)") (auto dest: at_less)

declare sqliteNextChar.simps [simp del]

lemma next_char_less: "sqliteNextChar mem z = Some z' \<Longrightarrow> z < z' \<and> z' < length mem"
  by (induction mem z rule: sqliteNextChar.induct)
     (subst (asm) (2) sqliteNextChar.simps, auto split: option.splits if_splits dest: at_less Suc_lessD)

text \<open>The number of characters of a text, which the build takes from \<^verbatim>\<open>sqlite3.c\<close>, with \<^verbatim>\<open>nByte\<close> -1.\<close>

function skip_conts :: "bytes \<Rightarrow> nat \<Rightarrow> nat option" where
  "skip_conts mem z =
     (case at mem z of None \<Rightarrow> None | Some b \<Rightarrow> if b AND 0xc0 = 0x80 then skip_conts mem (z + 1) else Some z)"
  by pat_completeness auto
termination by (relation "measure (\<lambda>(mem, z). length mem - z)") (auto dest: at_less)

declare skip_conts.simps [simp del]

lemma skip_conts_le: "skip_conts mem z = Some z' \<Longrightarrow> z \<le> z'"
  by (induction mem z rule: skip_conts.induct)
     (subst (asm) (2) skip_conts.simps, auto split: option.splits if_splits dest: Suc_leD)

definition SQLITE_SKIP_UTF8 :: "bytes \<Rightarrow> nat \<Rightarrow> nat option" where
  "SQLITE_SKIP_UTF8 mem z =
     do { b \<leftarrow> at mem z; if b \<ge> 0xc0 then skip_conts mem (z + 1) else Some (z + 1) }"

lemma skip_utf8_less: "SQLITE_SKIP_UTF8 mem z = Some z' \<Longrightarrow> z < z'"
  by (auto simp: SQLITE_SKIP_UTF8_def bind_eq_Some_conv split: if_splits dest: skip_conts_le)

function sqlite3Utf8CharLen :: "bytes \<Rightarrow> nat \<Rightarrow> int \<Rightarrow> int option" where
  "sqlite3Utf8CharLen mem z r =
     (case at mem z of None \<Rightarrow> None
      | Some b \<Rightarrow> if b \<noteq> 0
                 then case SQLITE_SKIP_UTF8 mem z of None \<Rightarrow> None | Some z' \<Rightarrow> sqlite3Utf8CharLen mem z' (r + 1)
                 else Some r)"
  by pat_completeness auto
termination by (relation "measure (\<lambda>(mem, z, r). length mem - z)") (auto intro!: diff_less_mono2 dest: at_less skip_utf8_less)

declare sqlite3Utf8CharLen.simps [simp del]

section \<open>C strings\<close>

definition c_string :: "bytes \<Rightarrow> nat \<Rightarrow> bytes option" where
  "c_string mem z = (if 0 \<in> set (drop z mem) then Some (takeWhile (\<lambda>b. b \<noteq> 0) (drop z mem)) else None)"

definition put_octets :: "bytes \<Rightarrow> nat \<Rightarrow> bytes \<Rightarrow> bytes option" where
  "put_octets mem z bs = (if z + length bs \<le> length mem then Some (wr mem z bs) else None)"

definition c_length :: "bytes \<Rightarrow> nat \<Rightarrow> int option" where
  "c_length mem z = map_option (\<lambda>s. int (length s)) (c_string mem z)"

definition c_strcpy :: "bytes \<Rightarrow> nat \<Rightarrow> bytes \<Rightarrow> nat \<Rightarrow> bytes option" where
  "c_strcpy dst z src s = do { t \<leftarrow> c_string src s; put_octets dst z (t @ [0]) }"

text \<open>\<^verbatim>\<open>strncpy\<close> copies at most \<open>n\<close> octets and fills with zeros after the end of the source.\<close>

definition c_strncpy :: "bytes \<Rightarrow> nat \<Rightarrow> bytes \<Rightarrow> nat \<Rightarrow> nat \<Rightarrow> bytes option" where
  "c_strncpy dst z src s n =
     (let t = takeWhile (\<lambda>b. b \<noteq> 0) (take n (drop s src))
      in if n \<le> length (drop s src) \<or> 0 \<in> set (drop s src)
         then put_octets dst z (t @ replicate (n - length t) 0) else None)"

section \<open>Well-formed text\<close>

definition utf8 :: "int list \<Rightarrow> bytes" where
  "utf8 cs = concat (map WRITE_UTF8 cs)"

definition text_char :: "int \<Rightarrow> bool" where
  "text_char c \<longleftrightarrow> scalar c \<and> 0 < c"

text \<open>The code points \<open>cs\<close> are stored at \<open>z\<close>, with a zero octet and then \<open>junk\<close> behind them.\<close>

definition text_at :: "bytes \<Rightarrow> nat \<Rightarrow> int list \<Rightarrow> bytes \<Rightarrow> bool" where
  "text_at mem z cs junk \<longleftrightarrow> list_all text_char cs \<and> z \<le> length mem \<and> drop z mem = utf8 cs @ 0 # junk"

lemma utf8_simps [simp]: "utf8 [] = []" "utf8 (c # cs) = WRITE_UTF8 c @ utf8 cs" "utf8 (cs @ ds) = utf8 cs @ utf8 ds"
  by (simp_all add: utf8_def)

lemma text_char_scalar: "text_char c \<Longrightarrow> scalar c" "text_char c \<Longrightarrow> 0 < c"
  by (simp_all add: text_char_def)

lemma at_app: "at mem z = (case drop z mem of [] \<Rightarrow> None | b # _ \<Rightarrow> Some b)"
  by (auto simp: at_def Cons_nth_drop_Suc [symmetric])

lemma text_at_Nil: "text_at mem z [] junk \<Longrightarrow> at mem z = Some 0"
  by (simp add: text_at_def at_app)

lemma xtra_table:
  "unat b < 128 \<Longrightarrow> xtra_utf8_bytes ! unat b = 0"
  "192 \<le> unat b \<Longrightarrow> unat b < 224 \<Longrightarrow> xtra_utf8_bytes ! unat b = 1"
  "224 \<le> unat b \<Longrightarrow> unat b < 240 \<Longrightarrow> xtra_utf8_bytes ! unat b = 2"
  "240 \<le> unat b \<Longrightarrow> unat b < 248 \<Longrightarrow> xtra_utf8_bytes ! unat b = 3"
  for b :: u8
  by (auto simp: xtra_utf8_bytes_def nth_append)

text \<open>The reader on a code point: the lead octet selects the number of further octets, and the constant undoes their marks.\<close>

lemma read_xtra_run:
  "drop z mem = bs @ tail \<Longrightarrow> read_xtra mem (length bs) z c = Some (z + length bs, foldl (\<lambda>c b. c * 64 + uint b) c bs)"
proof (induction bs arbitrary: z c)
  case (Cons b bs)
  then have "at mem z = Some b" "drop (Suc z) mem = bs @ tail" using at_drop drop_Suc_eq by simp_all
  with Cons.IH show ?case by (simp add: push_bit_eq_mult)
qed simp

lemma mask_and: "(- (2 ^ n)) AND c = c div 2 ^ n * 2 ^ n" for c :: int
proof -
  have "c AND NOT (mask n) = push_bit n (drop_bit n c)" by (rule bit_eqI) (auto simp: bit_simps)
  moreover have "NOT (mask n) = - (2 ^ n :: int)" by (simp add: mask_eq_exp_minus_1 not_int_def)
  ultimately show ?thesis by (simp add: and.commute push_bit_eq_mult drop_bit_eq_div)
qed

lemma utf_mask_and:
  "utf_mask ! 1 AND c = c div 128 * 128" "utf_mask ! 2 AND c = c div 2048 * 2048" "utf_mask ! 3 AND c = c div 65536 * 65536"
  using mask_and [of 7 c] mask_and [of 11 c] mask_and [of 16 c] by (simp_all add: utf_mask_def)

text \<open>The cases of \<open>lead\<close> and \<open>conts\<close>, with what the reader makes of them.\<close>

lemma char_octets:
  assumes "scalar c" and "0x80 \<le> c"
  shows "xtra_utf8_bytes ! nat (lead c) = length (conts c)" "length (conts c) \<in> {1, 2, 3}"
    "foldl (\<lambda>c b. c * 64 + uint b) (lead c) (conts c) - xtra_utf8_bits ! length (conts c) = c"
    "utf_mask ! length (conts c) AND c \<noteq> 0"
proof -
  have c: "c < 2097152" using assms(1) by (simp add: scalar_def)
  have u: "unat (word_of_int (lead c) :: u8) = nat (lead c)"
    using lead_range [OF assms(1)] uint_small [of "lead c"] by (simp add: unat_eq_nat_uint)
  have d: "c div 64 div 64 = c div 4096" "c div 4096 div 64 = c div 262144" by simp_all
  have undo: "c' = q * 64 + r \<Longrightarrow> (0xC0 + q) * 64 + (0x80 + r) - 12416 = c'"
    "q = p * 64 + r' \<Longrightarrow> c' = q * 64 + r \<Longrightarrow> ((0xE0 + p) * 64 + (0x80 + r')) * 64 + (0x80 + r) - 925824 = c'"
    "p = l * 64 + r'' \<Longrightarrow> q = p * 64 + r' \<Longrightarrow> c' = q * 64 + r \<Longrightarrow>
      (((0xF0 + l) * 64 + (0x80 + r'')) * 64 + (0x80 + r')) * 64 + (0x80 + r) - 63447168 = c'" for c' l p q r r' r'' :: int by simp_all
  have s: "c div 64 = c div 4096 * 64 + c div 64 mod 64" "c div 4096 = c div 262144 * 64 + c div 4096 mod 64" "c = c div 64 * 64 + c mod 64"
    unfolding d [symmetric] div_mult_mod_eq by (rule refl)+
  consider (2) "c < 0x800" | (3) "0x800 \<le> c" "c < 0x10000" | (4) "0x10000 \<le> c" by linarith
  note cases = this
  show "length (conts c) \<in> {1, 2, 3}" using assms(2) by (simp add: conts_def)
  show "xtra_utf8_bytes ! nat (lead c) = length (conts c)"
  proof (cases rule: cases)
    case 2
    then have "192 \<le> nat (lead c)" "nat (lead c) < 224" using assms(2) by (auto simp: lead_def)
    with 2 assms(2) xtra_table(2) [of "word_of_int (lead c)"] u show ?thesis by (simp add: conts_def)
  next
    case 3
    then have "224 \<le> nat (lead c)" "nat (lead c) < 240" by (auto simp: lead_def)
    with 3 xtra_table(3) [of "word_of_int (lead c)"] u show ?thesis by (simp add: conts_def)
  next
    case 4
    then have "240 \<le> nat (lead c)" "nat (lead c) < 248" using c by (auto simp: lead_def)
    with 4 xtra_table(4) [of "word_of_int (lead c)"] u show ?thesis by (simp add: conts_def)
  qed
  show "foldl (\<lambda>c b. c * 64 + uint b) (lead c) (conts c) - xtra_utf8_bits ! length (conts c) = c"
  proof (cases rule: cases)
    case 2
    with assms(2) have "conts c = [0x80 + word_of_int (c mod 64)]" "lead c = 0xC0 + c div 64" by (simp_all add: conts_def lead_def)
    moreover from this have bits: "xtra_utf8_bits ! length (conts c) = 12416" by (simp add: xtra_utf8_bits_def)
    ultimately have "foldl (\<lambda>c b. c * 64 + uint b) (lead c) (conts c) - 12416 = (0xC0 + c div 64) * 64 + (0x80 + c mod 64) - 12416"
      by (simp only: foldl.simps cont_octet)
    also have "\<dots> = c" by (rule undo(1)) (rule s)
    finally show ?thesis by (simp only: bits)
  next
    case 3
    then have "conts c = [0x80 + word_of_int (c div 64 mod 64), 0x80 + word_of_int (c mod 64)]" "lead c = 0xE0 + c div 4096"
      by (simp_all add: conts_def lead_def)
    moreover from this have bits: "xtra_utf8_bits ! length (conts c) = 925824" by (simp add: xtra_utf8_bits_def)
    ultimately have "foldl (\<lambda>c b. c * 64 + uint b) (lead c) (conts c) - 925824 =
        ((0xE0 + c div 4096) * 64 + (0x80 + c div 64 mod 64)) * 64 + (0x80 + c mod 64) - 925824" by (simp only: foldl.simps cont_octet)
    also have "\<dots> = c" by (rule undo(2)) (rule s)+
    finally show ?thesis by (simp only: bits)
  next
    case 4
    then have "conts c = [0x80 + word_of_int (c div 4096 mod 64), 0x80 + word_of_int (c div 64 mod 64), 0x80 + word_of_int (c mod 64)]"
      "lead c = 0xF0 + c div 262144" by (simp_all add: conts_def lead_def)
    moreover from this have bits: "xtra_utf8_bits ! length (conts c) = 63447168" by (simp add: xtra_utf8_bits_def)
    ultimately have "foldl (\<lambda>c b. c * 64 + uint b) (lead c) (conts c) - 63447168 =
        (((0xF0 + c div 262144) * 64 + (0x80 + c div 4096 mod 64)) * 64 + (0x80 + c div 64 mod 64)) * 64 + (0x80 + c mod 64) - 63447168"
      by (simp only: foldl.simps cont_octet)
    also have "\<dots> = c" by (rule undo(3)) (rule s)+
    finally show ?thesis by (simp only: bits)
  qed
  show "utf_mask ! length (conts c) AND c \<noteq> 0"
  proof (cases rule: cases)
    case 2
    with assms(2) have "length (conts c) = 1" "0 < c div 128" by (auto simp: conts_def pos_imp_zdiv_pos_iff)
    then show ?thesis by (simp add: utf_mask_and [unfolded One_nat_def])
  next
    case 3
    then have "length (conts c) = 2" "0 < c div 2048" by (auto simp: conts_def pos_imp_zdiv_pos_iff)
    then show ?thesis by (simp add: utf_mask_and [unfolded One_nat_def])
  next
    case 4
    then have "length (conts c) = 3" "0 < c div 65536" by (auto simp: conts_def pos_imp_zdiv_pos_iff)
    then show ?thesis by (simp add: utf_mask_and [unfolded One_nat_def])
  qed
qed

lemma read_char:
  assumes c: "text_char c" and mem: "drop z mem = WRITE_UTF8 c @ tail"
  shows "sqlite3ReadUtf8 mem z = Some c"
proof -
  have s: "scalar c" and pos: "0 < c" using c by (simp_all add: text_char_def)
  have w: "WRITE_UTF8 c = word_of_int (lead c) # conts c" by (rule write_lead_conts [OF s])
  have at0: "at mem z = Some (word_of_int (lead c))" using mem w at_drop by simp
  have u: "uint (word_of_int (lead c) :: u8) = lead c" using lead_range [OF s] by (intro uint_small) simp_all
  then have n: "unat (word_of_int (lead c) :: u8) = nat (lead c)" by (simp add: unat_eq_nat_uint)
  show ?thesis
  proof (cases "c < 0x80")
    case True
    then have "lead c = c" by (simp add: lead_def)
    then show ?thesis using at0 u n True pos xtra_table(1) [of "word_of_int (lead c)"]
      by (simp add: sqlite3ReadUtf8_def EXTFUNC_READ_UTF8_def)
  next
    case False
    then have ge: "0x80 \<le> c" by simp
    have "take_bit 32 c = c" using s by (simp add: scalar_def take_bit_int_eq_self)
    moreover have "drop (Suc z) mem = conts c @ tail" using mem w drop_Suc_eq by simp
    ultimately show ?thesis
      using at0 u n char_octets [OF s ge] scalar_kept [OF s ge] read_xtra_run [of "Suc z" mem "conts c" tail]
      by (auto simp: sqlite3ReadUtf8_def EXTFUNC_READ_UTF8_def)
  qed
qed

lemma run_conts:
  "list_all is_cont bs \<Longrightarrow> drop (Suc z) mem = bs @ b # tail \<Longrightarrow> \<not> is_cont b \<Longrightarrow> sqliteNextChar mem z = Some (z + 1 + length bs)"
  "list_all is_cont bs \<Longrightarrow> drop z mem = bs @ b # tail \<Longrightarrow> \<not> is_cont b \<Longrightarrow> skip_conts mem z = Some (z + length bs)"
proof (induction bs arbitrary: z)
  case Nil
  { case 1
    then have "at mem (z + 1) = Some b" using at_drop by simp
    with 1 show ?case by (subst sqliteNextChar.simps) (simp add: is_cont_def and.commute)
  next
    case 2
    then have "at mem z = Some b" using at_drop by simp
    with 2 show ?case by (subst skip_conts.simps) (simp add: is_cont_def)
  }
next
  case (Cons d bs)
  { case 1
    then have "at mem (z + 1) = Some d" "drop (Suc (z + 1)) mem = bs @ b # tail" using at_drop drop_Suc_eq by simp_all
    with 1 Cons.IH(1) [of "z + 1"] show ?case by (subst sqliteNextChar.simps) (simp add: is_cont_def and.commute)
  next
    case 2
    then have "at mem z = Some d" "drop (Suc z) mem = bs @ b # tail" using at_drop drop_Suc_eq by simp_all
    with 2 Cons.IH(2) [of "Suc z"] show ?case by (subst skip_conts.simps) (simp add: is_cont_def)
  }
qed

text \<open>A text at a position: reading its first code point and going to the next one.\<close>

lemma text_at_first: "text_at mem z cs junk \<Longrightarrow> \<exists>b tail. drop z mem = b # tail \<and> \<not> is_cont b"
proof (cases cs)
  case Nil
  moreover assume "text_at mem z cs junk"
  moreover have "\<not> is_cont 0" by (simp add: is_cont_def)
  ultimately show ?thesis by (auto simp: text_at_def)
next
  case (Cons c ds)
  moreover assume "text_at mem z cs junk"
  ultimately have "text_char c" "drop z mem = WRITE_UTF8 c @ utf8 ds @ 0 # junk" by (simp_all add: text_at_def)
  moreover have "WRITE_UTF8 c \<noteq> []" "\<not> is_cont (hd (WRITE_UTF8 c))" using write_props [OF text_char_scalar(1)] \<open>text_char c\<close> by auto
  ultimately show ?thesis by (metis append_Cons list.collapse)
qed

lemma text_at_Cons:
  assumes t: "text_at mem z (c # cs) junk"
  shows "text_char c" "text_at mem (z + length (WRITE_UTF8 c)) cs junk"
    "sqlite3ReadUtf8 mem z = Some c" "sqliteNextChar mem z = Some (z + length (WRITE_UTF8 c))"
    "SQLITE_SKIP_UTF8 mem z = Some (z + length (WRITE_UTF8 c))"
proof -
  show c: "text_char c" using t by (simp add: text_at_def)
  have d: "drop z mem = WRITE_UTF8 c @ utf8 cs @ 0 # junk" using t by (simp add: text_at_def)
  then have len: "z + length (WRITE_UTF8 c) \<le> length mem"
    using t by (metis length_drop length_append le_add1 le_diff_conv2 add.commute text_at_def)
  then show next': "text_at mem (z + length (WRITE_UTF8 c)) cs junk" using t drop_add_eq [OF d] by (simp add: text_at_def)
  show "sqlite3ReadUtf8 mem z = Some c" using c d by (rule read_char)
  have w: "WRITE_UTF8 c = word_of_int (lead c) # conts c" using c by (simp add: write_lead_conts text_char_def)
  obtain b tail where b: "drop (z + length (WRITE_UTF8 c)) mem = b # tail" "\<not> is_cont b" using text_at_first [OF next'] by blast
  then have r: "drop (Suc z) mem = conts c @ b # tail" using d w drop_Suc_eq drop_add_eq [OF d] by simp
  show "sqliteNextChar mem z = Some (z + length (WRITE_UTF8 c))" using run_conts(1) [OF conts_cont r b(2)] w by simp
  have u: "uint (word_of_int (lead c) :: u8) = lead c" using lead_range c by (intro uint_small) (simp_all add: text_char_def)
  have "word_of_int (lead c) \<ge> (0xc0 :: u8) \<longleftrightarrow> 0x80 \<le> c"
    unfolding word_le_def u using c by (auto simp: lead_def text_char_def)
  moreover have "at mem z = Some (word_of_int (lead c))" using d w at_drop by simp
  ultimately show "SQLITE_SKIP_UTF8 mem z = Some (z + length (WRITE_UTF8 c))"
    using run_conts(2) [OF conts_cont r b(2)] w by (auto simp: SQLITE_SKIP_UTF8_def conts_def)
qed

end
