(* ===== verification/Ext_Strings.thy ===== *)
theory Ext_Strings
  imports Ext_Utf8
begin

text \<open>
  The string functions of \<^verbatim>\<open>extensionfunctions.c\<close>: \<open>replicate\<close>, \<open>proper\<close>, the three paddings, \<open>strfilter\<close>, \<open>charindex\<close>, \<open>leftstr\<close>,
  \<open>rightstr\<close>, \<open>reverse\<close> and \<open>difference\<close>. A function returns the call to \<^verbatim>\<open>sqlite3_result_...\<close> that it makes last, and \<open>None\<close>
  for an access outside of a memory or through a null pointer. \<open>R_error_n\<close> is an error with a number of octets of its message.
\<close>

section \<open>Values, results and memory\<close>

text \<open>An argument is what the accessors of SQLite return for it; a text includes the zero octet at its end.\<close>

record 'd sqlite3_value =
  value_type :: int
  value_numeric_type :: int
  value_text :: "bytes option"
  value_bytes :: int
  value_int :: int
  value_int64 :: int
  value_double :: 'd

datatype 'd sql_result =
  R_none | R_null | R_int int | R_int64 int | R_double 'd | R_text bytes | R_error string | R_error_n string int | R_nomem

definition SQLITE_INTEGER :: int where "SQLITE_INTEGER = 1"
definition SQLITE_NULL :: int where "SQLITE_NULL = 5"

text \<open>\<open>fresh n\<close>: the octets of a new object of \<open>n\<close> octets, \<open>None\<close> when there is no memory. The parameter of \<^verbatim>\<open>sqlite3_malloc\<close> is a
  32-bit \<^verbatim>\<open>int\<close>.\<close>

definition sqlite3_malloc :: "(nat \<Rightarrow> bytes option) \<Rightarrow> int \<Rightarrow> bytes option" where
  "sqlite3_malloc fresh n = (let k = signed_take_bit 31 n in if k \<le> 0 then None else fresh (nat k))"

definition sqlite3StrDup :: "(nat \<Rightarrow> bytes option) \<Rightarrow> bytes \<Rightarrow> bytes option" where
  "sqlite3StrDup fresh z = do { n \<leftarrow> c_length z 0; res \<leftarrow> sqlite3_malloc fresh (n + 1); c_strcpy res 0 z 0 }"

definition result_text :: "bytes \<Rightarrow> 'd sql_result option" where
  "result_text z = map_option R_text (c_string z 0)"

definition poke :: "bytes \<Rightarrow> int \<Rightarrow> u8 \<Rightarrow> bytes option" where
  "poke mem z b = (if 0 \<le> z \<and> z < int (length mem) then Some (mem[nat z := b]) else None)"

section \<open>replicate\<close>

fun replicate_loop :: "bytes \<Rightarrow> bytes \<Rightarrow> nat \<Rightarrow> nat \<Rightarrow> nat \<Rightarrow> bytes option" where
  "replicate_loop z zo nLen i 0 = Some z"
| "replicate_loop z zo nLen i (Suc n) = do { z' \<leftarrow> c_strcpy z (i * nLen) zo 0; replicate_loop z' zo nLen (i + 1) n }"

definition replicateFunc ::
  "(nat \<Rightarrow> bytes option) \<Rightarrow> (nat \<Rightarrow> bytes option) \<Rightarrow> 'd sqlite3_value \<Rightarrow> 'd sqlite3_value \<Rightarrow> 'd sql_result option" where
  "replicateFunc fresh fresh' v0 v1 =
     (if value_type v0 = SQLITE_NULL then Some R_none
      else let iCount = value_int64 v1
           in if iCount < 0 then Some (R_error ''domain error'')
              else let nLen = value_bytes v0; nTLen = signed_take_bit 63 (nLen * iCount)
                   in case (sqlite3_malloc fresh (nTLen + 1), sqlite3_malloc fresh' (nLen + 1)) of
                        (Some z, Some zo) \<Rightarrow>
                          do {
                            t \<leftarrow> value_text v0;
                            zo' \<leftarrow> c_strcpy zo 0 t 0;
                            z' \<leftarrow> replicate_loop z zo' (nat nLen) 0 (nat iCount);
                            result_text z'
                          }
                      | _ \<Rightarrow> Some R_nomem)"

section \<open>proper\<close>

definition c_isblank :: "u8 \<Rightarrow> bool" where "c_isblank r \<longleftrightarrow> r = 0x20 \<or> r = 0x09"
definition c_toupper :: "u8 \<Rightarrow> u8" where "c_toupper r = (if 0x61 \<le> r \<and> r \<le> 0x7a then r - 0x20 else r)"
definition c_tolower :: "u8 \<Rightarrow> u8" where "c_tolower r = (if 0x41 \<le> r \<and> r \<le> 0x5a then r + 0x20 else r)"

function proper_loop :: "bytes \<Rightarrow> nat \<Rightarrow> bytes \<Rightarrow> nat \<Rightarrow> bool \<Rightarrow> bytes option" where
  "proper_loop mem z zo zt c =
     (case at mem z of None \<Rightarrow> None
      | Some r \<Rightarrow>
          if r \<noteq> 0
          then let (r', c') = (if c_isblank r then (r, True) else if c then (c_toupper r, False) else (c_tolower r, False))
               in case poke zo (int zt) r' of None \<Rightarrow> None | Some zo' \<Rightarrow> proper_loop mem (z + 1) zo' (zt + 1) c'
          else poke zo (int zt) 0)"
  by pat_completeness auto
termination by (relation "measure (\<lambda>(mem, z, _). length mem - z)") (auto dest: at_less)

declare proper_loop.simps [simp del]

definition properFunc :: "(nat \<Rightarrow> bytes option) \<Rightarrow> 'd sqlite3_value \<Rightarrow> 'd sql_result option" where
  "properFunc fresh v0 =
     (if value_type v0 = SQLITE_NULL then Some R_null
      else do {
        z \<leftarrow> value_text v0;
        zo \<leftarrow> sqlite3StrDup fresh z;
        zo' \<leftarrow> proper_loop z 0 zo 0 True;
        result_text zo'
      })"

section \<open>Padding\<close>

text \<open>The loops that write spaces: \<open>k\<close> is the factor of \<^verbatim>\<open>i\<close> in the condition; \<^verbatim>\<open>i\<close> is a 32-bit \<^verbatim>\<open>int\<close>, taken to wrap around.\<close>

function spaces_loop :: "int \<Rightarrow> bytes \<Rightarrow> nat \<Rightarrow> int \<Rightarrow> int \<Rightarrow> int \<Rightarrow> (bytes \<times> nat \<times> int) option" where
  "spaces_loop k zo zt i zl ilen =
     (if signed_take_bit 31 (k * i) + zl \<le> ilen
      then if zt < length zo then spaces_loop k (zo[zt := 0x20]) (zt + 1) (signed_take_bit 31 (i + 1)) zl ilen else None
      else Some (zo, zt, i))"
  by pat_completeness auto
termination by (relation "measure (\<lambda>(k, zo, zt, i, zl, ilen). length zo - zt)") auto

declare spaces_loop.simps [simp del]

text \<open>The common part of the three functions: \<open>fill zo zi zl ilen\<close> writes the padded text into the new memory. \<^verbatim>\<open>sqlite3StrDup\<close> never returns a null
  pointer.\<close>

definition pad_with ::
  "(bytes \<Rightarrow> bytes \<Rightarrow> int \<Rightarrow> int \<Rightarrow> bytes option) \<Rightarrow> (nat \<Rightarrow> bytes option) \<Rightarrow> 'd sqlite3_value \<Rightarrow> 'd sqlite3_value \<Rightarrow> 'd sql_result option" where
  "pad_with fill fresh v0 v1 =
     (if value_type v0 = SQLITE_NULL then Some R_null
      else do {
        zi \<leftarrow> value_text v0;
        let ilen = value_int64 v1;
        if ilen < 0 then Some (R_error ''domain error'')
        else do {
          zl \<leftarrow> sqlite3Utf8CharLen zi 0 0;
          if zl \<ge> ilen then do { zo \<leftarrow> sqlite3StrDup fresh zi; result_text zo }
          else do {
            zll \<leftarrow> c_length zi 0;
            case sqlite3_malloc fresh (zll + ilen - zl + 1) of None \<Rightarrow> Some R_nomem
            | Some zo \<Rightarrow> do { zo' \<leftarrow> fill zo zi zl ilen; result_text zo' }
          }
        }
      })"

definition padl_fill :: "bytes \<Rightarrow> bytes \<Rightarrow> int \<Rightarrow> int \<Rightarrow> bytes option" where
  "padl_fill zo zi zl ilen = do { (zo1, zt, i) \<leftarrow> spaces_loop 1 zo 0 1 zl ilen; c_strcpy zo1 zt zi 0 }"

definition padr_fill :: "bytes \<Rightarrow> bytes \<Rightarrow> int \<Rightarrow> int \<Rightarrow> bytes option" where
  "padr_fill zo zi zl ilen =
     do {
       zll \<leftarrow> c_length zi 0;
       zo1 \<leftarrow> c_strcpy zo 0 zi 0;
       (zo2, zt, i) \<leftarrow> spaces_loop 1 zo1 (nat zll) 1 zl ilen;
       poke zo2 (int zt) 0
     }"

definition padc_fill :: "bytes \<Rightarrow> bytes \<Rightarrow> int \<Rightarrow> int \<Rightarrow> bytes option" where
  "padc_fill zo zi zl ilen =
     do {
       zll \<leftarrow> c_length zi 0;
       (zo1, zt, i) \<leftarrow> spaces_loop 2 zo 0 1 zl ilen;
       zo2 \<leftarrow> c_strcpy zo1 zt zi 0;
       (zo3, zt', i') \<leftarrow> spaces_loop 1 zo2 (zt + nat zll) i zl ilen;
       poke zo3 (int zt') 0
     }"

definition padlFunc :: "(nat \<Rightarrow> bytes option) \<Rightarrow> 'd sqlite3_value \<Rightarrow> 'd sqlite3_value \<Rightarrow> 'd sql_result option" where
  "padlFunc = pad_with padl_fill"

definition padrFunc :: "(nat \<Rightarrow> bytes option) \<Rightarrow> 'd sqlite3_value \<Rightarrow> 'd sqlite3_value \<Rightarrow> 'd sql_result option" where
  "padrFunc = pad_with padr_fill"

definition padcFunc :: "(nat \<Rightarrow> bytes option) \<Rightarrow> 'd sqlite3_value \<Rightarrow> 'd sqlite3_value \<Rightarrow> 'd sql_result option" where
  "padcFunc = pad_with padc_fill"

section \<open>strfilter\<close>

function find_char :: "bytes \<Rightarrow> nat \<Rightarrow> int \<Rightarrow> (nat \<times> int) option" where
  "find_char zi2 z21 c1 =
     (case sqlite3ReadUtf8 zi2 z21 of None \<Rightarrow> None
      | Some c2 \<Rightarrow>
          if c2 \<noteq> 0 \<and> c2 \<noteq> c1
          then case sqliteNextChar zi2 z21 of None \<Rightarrow> None | Some z \<Rightarrow> find_char zi2 z c1
          else Some (z21, c2))"
  by pat_completeness auto
termination by (relation "measure (\<lambda>(mem, z, _). length mem - z)") (auto dest: next_char_less)

declare find_char.simps [simp del]

function strfilter_loop :: "bytes \<Rightarrow> bytes \<Rightarrow> nat \<Rightarrow> bytes \<Rightarrow> nat \<Rightarrow> bytes option" where
  "strfilter_loop zi1 zi2 z1 zo zot =
     (case sqlite3ReadUtf8 zi1 z1 of None \<Rightarrow> None
      | Some c1 \<Rightarrow>
          if c1 \<noteq> 0
          then case do {
                 (z21, c2) \<leftarrow> find_char zi2 0 c1;
                 if c2 \<noteq> 0
                 then do { z22 \<leftarrow> sqliteNextChar zi2 z21; zo' \<leftarrow> c_strncpy zo zot zi2 z21 (z22 - z21); Some (zo', zot + (z22 - z21)) }
                 else Some (zo, zot)
               } of None \<Rightarrow> None
               | Some (zo', zot') \<Rightarrow>
                   (case sqliteNextChar zi1 z1 of None \<Rightarrow> None | Some z \<Rightarrow> strfilter_loop zi1 zi2 z zo' zot')
          else poke zo (int zot) 0)"
  by pat_completeness auto
termination by (relation "measure (\<lambda>(mem, _, z, _). length mem - z)") (auto dest: next_char_less)

declare strfilter_loop.simps [simp del]

definition strfilterFunc :: "(nat \<Rightarrow> bytes option) \<Rightarrow> 'd sqlite3_value \<Rightarrow> 'd sqlite3_value \<Rightarrow> 'd sql_result option" where
  "strfilterFunc fresh v0 v1 =
     (if value_type v0 = SQLITE_NULL \<or> value_type v1 = SQLITE_NULL then Some R_null
      else do {
        zi1 \<leftarrow> value_text v0;
        zi2 \<leftarrow> value_text v1;
        n \<leftarrow> c_length zi1 0;
        case sqlite3_malloc fresh (n + 1) of None \<Rightarrow> Some R_nomem
        | Some zo \<Rightarrow> do { zo' \<leftarrow> strfilter_loop zi1 zi2 0 zo 0; result_text zo' }
      })"

section \<open>charindex\<close>

function skip_chars :: "bytes \<Rightarrow> nat \<Rightarrow> int \<Rightarrow> int \<Rightarrow> nat option" where
  "skip_chars z2 z c s =
     (case sqlite3ReadUtf8 z2 z of None \<Rightarrow> None
      | Some v \<Rightarrow>
          if v \<noteq> 0 \<and> c < s
          then case sqliteNextChar z2 z of None \<Rightarrow> None | Some z' \<Rightarrow> skip_chars z2 z' (c + 1) s
          else Some z)"
  by pat_completeness auto
termination by (relation "measure (\<lambda>(mem, z, _). length mem - z)") (auto dest: next_char_less)

declare skip_chars.simps [simp del]

text \<open>The inner loop steps to the next character in both texts before it tests what it read; the value is the last \<^verbatim>\<open>c1\<close>.\<close>

function compare_chars :: "bytes \<Rightarrow> nat \<Rightarrow> bytes \<Rightarrow> nat \<Rightarrow> int option" where
  "compare_chars z1 zt1 z2 zt2 =
     (case (sqlite3ReadUtf8 z1 zt1, sqlite3ReadUtf8 z2 zt2, sqliteNextChar z1 zt1, sqliteNextChar z2 zt2) of
        (Some c1, Some c2, Some zt1', Some zt2') \<Rightarrow>
          if c1 = c2 \<and> c1 \<noteq> 0 \<and> c2 \<noteq> 0 then compare_chars z1 zt1' z2 zt2' else Some c1
      | _ \<Rightarrow> None)"
  by pat_completeness auto
termination by (relation "measure (\<lambda>(mem, z, _). length mem - z)") (auto dest: next_char_less [OF sym])

declare compare_chars.simps [simp del]

function substr_loop :: "bytes \<Rightarrow> bytes \<Rightarrow> nat \<Rightarrow> int \<Rightarrow> int option" where
  "substr_loop z1 z2 z c =
     (case sqlite3ReadUtf8 z2 z of None \<Rightarrow> None
      | Some v \<Rightarrow>
          if v \<noteq> 0
          then case compare_chars z1 0 z2 z of None \<Rightarrow> None
               | Some c1 \<Rightarrow>
                   if c1 = 0 then Some c
                   else case sqliteNextChar z2 z of None \<Rightarrow> None | Some z' \<Rightarrow> substr_loop z1 z2 z' (c + 1)
          else Some (- 1))"
  by pat_completeness auto
termination by (relation "measure (\<lambda>(_, mem, z, _). length mem - z)") (auto dest: next_char_less)

declare substr_loop.simps [simp del]

definition substr :: "bytes \<Rightarrow> bytes \<Rightarrow> int \<Rightarrow> int option" where
  "substr z1 z2 s =
     do {
       b \<leftarrow> at z1 0;
       if b = 0 then Some (- 1)
       else do {
         z \<leftarrow> skip_chars z2 0 0 s;
         rVal \<leftarrow> substr_loop z1 z2 z 0;
         Some (if rVal \<ge> 0 then rVal + s else rVal)
       }
     }"

text \<open>The third argument is missing in a call with two.\<close>

definition charindexFunc :: "'d sqlite3_value \<Rightarrow> 'd sqlite3_value \<Rightarrow> 'd sqlite3_value option \<Rightarrow> 'd sql_result option" where
  "charindexFunc v0 v1 v2 =
     (if value_type v0 = SQLITE_NULL \<or> value_type v1 = SQLITE_NULL then Some R_null
      else case value_text v0 of None \<Rightarrow> Some R_none
           | Some z1 \<Rightarrow>
               do {
                 z2 \<leftarrow> value_text v1;
                 let s = (case v2 of None \<Rightarrow> 0 | Some v \<Rightarrow> (let n = signed_take_bit 31 (value_int v - 1) in if n < 0 then 0 else n));
                 rVal \<leftarrow> substr z1 z2 s;
                 Some (R_int (rVal + 1))
               })"

section \<open>leftstr, rightstr and reverse\<close>

definition leftFunc :: "(nat \<Rightarrow> bytes option) \<Rightarrow> 'd sqlite3_value \<Rightarrow> 'd sqlite3_value \<Rightarrow> 'd sql_result option" where
  "leftFunc fresh v0 v1 =
     (if value_type v0 = SQLITE_NULL \<or> value_type v1 = SQLITE_NULL then Some R_null
      else do {
        z \<leftarrow> value_text v0;
        cc \<leftarrow> skip_chars z 0 0 (value_int v1);
        case sqlite3_malloc fresh (int cc + 1) of None \<Rightarrow> Some R_nomem
        | Some rz \<Rightarrow> do { rz1 \<leftarrow> c_strncpy rz 0 z 0 cc; rz2 \<leftarrow> poke rz1 (int cc) 0; result_text rz2 }
      })"

function count_chars :: "bytes \<Rightarrow> nat \<Rightarrow> int \<Rightarrow> (nat \<times> int) option" where
  "count_chars mem z c =
     (case sqlite3ReadUtf8 mem z of None \<Rightarrow> None
      | Some v \<Rightarrow> if v \<noteq> 0 then case sqliteNextChar mem z of None \<Rightarrow> None | Some z' \<Rightarrow> count_chars mem z' (c + 1)
                 else Some (z, c))"
  by pat_completeness auto
termination by (relation "measure (\<lambda>(mem, z, _). length mem - z)") (auto dest: next_char_less)

declare count_chars.simps [simp del]

fun next_chars :: "bytes \<Rightarrow> nat \<Rightarrow> nat \<Rightarrow> nat option" where
  "next_chars mem z 0 = Some z"
| "next_chars mem z (Suc cc) = do { z' \<leftarrow> sqliteNextChar mem z; next_chars mem z' cc }"

definition rightFunc :: "(nat \<Rightarrow> bytes option) \<Rightarrow> 'd sqlite3_value \<Rightarrow> 'd sqlite3_value \<Rightarrow> 'd sql_result option" where
  "rightFunc fresh v0 v1 =
     (if value_type v0 = SQLITE_NULL \<or> value_type v1 = SQLITE_NULL then Some R_null
      else do {
        z \<leftarrow> value_text v0;
        (ze, c) \<leftarrow> count_chars z 0 0;
        let cc = (let n = signed_take_bit 31 (c - value_int v1) in if n < 0 then 0 else n);
        zt \<leftarrow> next_chars z 0 (nat cc);
        case sqlite3_malloc fresh (int ze - int zt + 1) of None \<Rightarrow> Some R_nomem
        | Some rz \<Rightarrow> do { rz' \<leftarrow> c_strcpy rz 0 z zt; result_text rz' }
      })"

text \<open>The octets of a character are copied from its last one to its first one.\<close>

fun copy_back :: "bytes \<Rightarrow> nat \<Rightarrow> nat \<Rightarrow> bytes \<Rightarrow> int \<Rightarrow> (bytes \<times> int) option" where
  "copy_back mem z 0 rz rzt = Some (rz, rzt)"
| "copy_back mem z (Suc n) rz rzt = do { b \<leftarrow> at mem (z + n); rz' \<leftarrow> poke rz rzt b; copy_back mem z n rz' (rzt - 1) }"

function reverse_loop :: "bytes \<Rightarrow> nat \<Rightarrow> bytes \<Rightarrow> int \<Rightarrow> bytes option" where
  "reverse_loop mem zt rz rzt =
     (case sqlite3ReadUtf8 mem zt of None \<Rightarrow> None
      | Some v \<Rightarrow>
          if v \<noteq> 0
          then case sqliteNextChar mem zt of None \<Rightarrow> None
               | Some zt' \<Rightarrow>
                   (case copy_back mem zt (zt' - zt) rz rzt of None \<Rightarrow> None
                    | Some (rz', rzt') \<Rightarrow> reverse_loop mem zt' rz' rzt')
          else Some rz)"
  by pat_completeness auto
termination by (relation "measure (\<lambda>(mem, z, _). length mem - z)") (auto dest: next_char_less)

declare reverse_loop.simps [simp del]

definition reverseFunc :: "(nat \<Rightarrow> bytes option) \<Rightarrow> 'd sqlite3_value \<Rightarrow> 'd sql_result option" where
  "reverseFunc fresh v0 =
     (if value_type v0 = SQLITE_NULL then Some R_null
      else do {
        z \<leftarrow> value_text v0;
        l \<leftarrow> c_length z 0;
        case sqlite3_malloc fresh (l + 1) of None \<Rightarrow> Some R_nomem
        | Some rz \<Rightarrow> do { rz1 \<leftarrow> poke rz l 0; rz2 \<leftarrow> reverse_loop z 0 rz1 (l - 1); result_text rz2 }
      })"

section \<open>difference\<close>

definition soundex_iCode :: "nat list" where
  "soundex_iCode = replicate 64 0 @
     [0, 0, 1, 2, 3, 0, 1, 2, 0, 0, 2, 2, 4, 5, 5, 0,
      1, 2, 6, 2, 3, 0, 1, 0, 2, 0, 2, 0, 0, 0, 0, 0,
      0, 0, 1, 2, 3, 0, 1, 2, 0, 0, 2, 2, 4, 5, 5, 0,
      1, 2, 6, 2, 3, 0, 1, 0, 2, 0, 2, 0, 0, 0, 0, 0]"

definition c_isalpha :: "u8 \<Rightarrow> bool" where
  "c_isalpha b \<longleftrightarrow> 0x41 \<le> b \<and> b \<le> 0x5a \<or> 0x61 \<le> b \<and> b \<le> 0x7a"

function soundex_first :: "bytes \<Rightarrow> nat \<Rightarrow> (nat \<times> u8) option" where
  "soundex_first zIn i =
     (case at zIn i of None \<Rightarrow> None | Some b \<Rightarrow> if b \<noteq> 0 \<and> \<not> c_isalpha b then soundex_first zIn (i + 1) else Some (i, b))"
  by pat_completeness auto
termination by (relation "measure (\<lambda>(mem, z). length mem - z)") (auto dest: at_less)

declare soundex_first.simps [simp del]

text \<open>\<open>zR\<close>: the octets of \<^verbatim>\<open>zResult\<close> written so far; \<^verbatim>\<open>j\<close> is their number.\<close>

function soundex_codes :: "bytes \<Rightarrow> nat \<Rightarrow> bytes \<Rightarrow> bytes option" where
  "soundex_codes zIn i zR =
     (if length zR < 4
      then case at zIn i of None \<Rightarrow> None
           | Some b \<Rightarrow> if b \<noteq> 0
                      then let code = soundex_iCode ! unat (b AND 0x7f)
                           in soundex_codes zIn (i + 1) (if code > 0 then zR @ [of_nat code + 0x30] else zR)
                      else Some zR
      else Some zR)"
  by pat_completeness auto
termination by (relation "measure (\<lambda>(mem, z, _). length mem - z)") (auto dest: at_less)

declare soundex_codes.simps [simp del]

definition soundex :: "bytes \<Rightarrow> bytes option" where
  "soundex zIn =
     do {
       (i, b) \<leftarrow> soundex_first zIn 0;
       if b \<noteq> 0 then do { zR \<leftarrow> soundex_codes zIn i [c_toupper b]; Some (zR @ replicate (4 - length zR) 0x30 @ [0]) }
       else Some [0x3f, 0x30, 0x30, 0x30, 0]
     }"

fun difference_loop :: "bytes \<Rightarrow> nat \<Rightarrow> bytes \<Rightarrow> nat \<Rightarrow> nat \<Rightarrow> int \<Rightarrow> int option" where
  "difference_loop zR1 p1 zR2 p2 0 rVal = Some rVal"
| "difference_loop zR1 p1 zR2 p2 (Suc n) rVal =
     do {
       c1 \<leftarrow> sqlite3ReadUtf8 zR1 p1;
       c2 \<leftarrow> sqlite3ReadUtf8 zR2 p2;
       p1' \<leftarrow> sqliteNextChar zR1 p1;
       p2' \<leftarrow> sqliteNextChar zR2 p2;
       difference_loop zR1 p1' zR2 p2' n (if c1 = c2 then rVal + 1 else rVal)
     }"

definition differenceFunc :: "'d sqlite3_value \<Rightarrow> 'd sqlite3_value \<Rightarrow> 'd sql_result option" where
  "differenceFunc v0 v1 =
     (if value_type v0 = SQLITE_NULL \<or> value_type v1 = SQLITE_NULL then Some R_null
      else do {
        zIn1 \<leftarrow> value_text v0;
        zIn2 \<leftarrow> value_text v1;
        zR1 \<leftarrow> soundex zIn1;
        zR2 \<leftarrow> soundex zIn2;
        rVal \<leftarrow> difference_loop zR1 0 zR2 0 4 0;
        Some (R_int rVal)
      })"

end
