(* ===== verification/Ext_Text_Loops.thy ===== *)
theory Ext_Text_Loops
  imports Ext_Strings "HOL-Library.Sublist"
begin

text \<open>
  What the loops of the string functions of \<^verbatim>\<open>extensionfunctions.c\<close> do on well-formed text: counting and skipping characters, copying,
  padding, filtering, comparing and repeating.
\<close>

section \<open>The loops on well-formed text\<close>

lemma zero_not_utf8: "list_all text_char cs \<Longrightarrow> 0 \<notin> set (utf8 cs)"
  by (induction cs) (auto simp: text_char_def dest: write_props(4))

lemma c_string_text:
  assumes "text_at mem z cs junk"
  shows "c_string mem z = Some (utf8 cs)"
proof -
  have "drop z mem = utf8 cs @ 0 # junk" "0 \<notin> set (utf8 cs)" using assms zero_not_utf8 by (auto simp: text_at_def)
  then show ?thesis by (simp add: c_string_def takeWhile_append takeWhile_eq_all_conv)
qed

lemma c_length_text: "text_at mem z cs junk \<Longrightarrow> c_length mem z = Some (int (length (utf8 cs)))"
  by (simp add: c_length_def c_string_text)

lemma read_text_Nil: "text_at mem z [] junk \<Longrightarrow> sqlite3ReadUtf8 mem z = Some 0"
  using text_at_Nil xtra_table(1) [of 0] by (simp add: sqlite3ReadUtf8_def EXTFUNC_READ_UTF8_def)

lemma skip_chars_text:
  "text_at mem z cs junk \<Longrightarrow> skip_chars mem z c s = Some (z + length (utf8 (take (nat (s - c)) cs)))"
proof (induction cs arbitrary: z c)
  case Nil
  then show ?case by (subst skip_chars.simps) (simp add: read_text_Nil)
next
  case (Cons d cs)
  note t = text_at_Cons [OF Cons.prems]
  show ?case
  proof (cases "c < s")
    case True
    then have "nat (s - c) = Suc (nat (s - (c + 1)))" by simp
    with True t Cons.IH [OF t(2), of "c + 1"] show ?thesis by (subst skip_chars.simps) (simp add: text_char_def)
  next
    case False
    with t show ?thesis by (subst skip_chars.simps) simp
  qed
qed

lemma count_chars_text: "text_at mem z cs junk \<Longrightarrow> count_chars mem z c = Some (z + length (utf8 cs), c + int (length cs))"
proof (induction cs arbitrary: z c)
  case Nil
  then show ?case by (subst count_chars.simps) (simp add: read_text_Nil)
next
  case (Cons d cs)
  note t = text_at_Cons [OF Cons.prems]
  from t Cons.IH [OF t(2)] show ?case by (subst count_chars.simps) (simp add: text_char_def)
qed

lemma first_octet:
  assumes "text_at mem z cs junk" and "cs \<noteq> []"
  shows "\<exists>b. at mem z = Some b \<and> b \<noteq> 0"
proof -
  obtain c ds where cs: "cs = c # ds" using assms(2) by (cases cs) auto
  then have "text_char c" "drop z mem = WRITE_UTF8 c @ utf8 ds @ 0 # junk" using assms(1) by (simp_all add: text_at_def)
  moreover have "0 \<notin> set (WRITE_UTF8 c)" "WRITE_UTF8 c \<noteq> []" using write_props \<open>text_char c\<close> by (simp_all add: text_char_def)
  ultimately show ?thesis using at_drop by (cases "WRITE_UTF8 c") auto
qed

lemma CharLen_text: "text_at mem z cs junk \<Longrightarrow> sqlite3Utf8CharLen mem z r = Some (r + int (length cs))"
proof (induction cs arbitrary: z r)
  case Nil
  then show ?case by (subst sqlite3Utf8CharLen.simps) (simp add: text_at_Nil)
next
  case (Cons d cs)
  note t = text_at_Cons [OF Cons.prems]
  obtain b where "at mem z = Some b" "b \<noteq> 0" using first_octet [OF Cons.prems] by blast
  with t Cons.IH [OF t(2)] show ?case by (subst sqlite3Utf8CharLen.simps) simp
qed

lemma text_at_drop:
  "text_at mem z cs junk \<Longrightarrow> text_at mem (z + length (utf8 (take n cs))) (drop n cs) junk"
proof (induction cs arbitrary: z n)
  case (Cons c cs)
  then show ?case using text_at_Cons(2) [OF Cons.prems] by (cases n) (auto simp flip: add.assoc)
qed simp

lemma next_chars_text: "text_at mem z cs junk \<Longrightarrow> n \<le> length cs \<Longrightarrow> next_chars mem z n = Some (z + length (utf8 (take n cs)))"
proof (induction cs arbitrary: z n)
  case (Cons c cs)
  then show ?case using text_at_Cons [OF Cons.prems(1)] by (cases n) simp_all
qed simp

section \<open>Writing text\<close>

text \<open>Memory for the results: every allocation succeeds.\<close>

definition allocates :: "(nat \<Rightarrow> bytes option) \<Rightarrow> bool" where
  "allocates fresh \<longleftrightarrow> (\<forall>n. \<exists>bs. fresh n = Some bs \<and> length bs = n)"

lemma malloc_ok:
  assumes "allocates fresh" and "0 < n" and "n < 2 ^ 31"
  obtains bs where "sqlite3_malloc fresh n = Some bs" and "int (length bs) = n"
proof -
  have "signed_take_bit 31 n = n" using assms by (simp add: signed_wrap)
  moreover obtain bs where "fresh (nat n) = Some bs" "length bs = nat n" using assms(1) by (auto simp: allocates_def)
  ultimately show thesis using assms(2) by (intro that [of bs]) (simp_all add: sqlite3_malloc_def)
qed

lemma c_string_zero: "0 \<notin> set s \<Longrightarrow> c_string (s @ 0 # r) 0 = Some s"
  by (simp add: c_string_def takeWhile_append takeWhile_eq_all_conv)

lemma result_text_at: "0 \<notin> set s \<Longrightarrow> result_text (s @ 0 # junk) = Some (R_text s)"
  by (simp add: result_text_def c_string_zero)

lemma put_split: "length a = z \<Longrightarrow> length b = length bs \<Longrightarrow> put_octets (a @ b @ c) z bs = Some (a @ bs @ c)"
  by (simp add: put_octets_def wr_def)

lemma c_strcpy_text:
  assumes "text_at src s cs junk" and "z + length (utf8 cs) + 1 \<le> length dst"
  shows "c_strcpy dst z src s = Some (take z dst @ utf8 cs @ 0 # drop (z + length (utf8 cs) + 1) dst)"
  using assms by (simp add: c_strcpy_def c_string_text put_octets_def wr_def add.assoc)

lemma c_strncpy_text:
  assumes "drop s src = t @ tail" and "0 \<notin> set t"
  shows "c_strncpy dst z src s (length t) = put_octets dst z t"
proof -
  have tw: "takeWhile (\<lambda>b. b \<noteq> 0) t = t" using assms(2) by (auto simp: takeWhile_eq_all_conv)
  show ?thesis using assms(1) by (simp add: c_strncpy_def tw)
qed

lemma poke_split: "int (length a) = z \<Longrightarrow> poke (a @ x # c) z b = Some (a @ b # c)"
  by (auto simp: poke_def)

lemma copy_back_text:
  "drop z mem = bs @ tail \<Longrightarrow> length q = length bs \<Longrightarrow>
   copy_back mem z (length bs) (p @ q @ r) (int (length p + length bs) - 1) = Some (p @ bs @ r, int (length p) - 1)"
proof (induction bs arbitrary: q r tail rule: rev_induct)
  case (snoc b bs)
  then obtain q' x where q: "q = q' @ [x]" "length q' = length bs" by (cases q rule: rev_cases) auto
  have "at mem (z + length bs) = Some b" using snoc.prems(1) drop_add_eq [of z mem bs "b # tail"] at_drop by simp
  moreover have "poke (p @ q' @ x # r) (int (length p + length bs)) b = Some (p @ q' @ b # r)"
    using poke_split [of "p @ q'" _ x r b] q(2) by simp
  moreover have "copy_back mem z (length bs) (p @ q' @ b # r) (int (length p + length bs) - 1) = Some (p @ bs @ b # r, int (length p) - 1)"
    using snoc.prems(1) q(2) snoc.IH [of "b # tail"] by simp
  ultimately show ?case using q by (simp add: algebra_simps)
qed simp

lemma reverse_loop_text:
  "text_at mem z cs junk \<Longrightarrow> length p = length (utf8 cs) \<Longrightarrow> rzt = int (length p) - 1 \<Longrightarrow>
   reverse_loop mem z (p @ r) rzt = Some (utf8 (rev cs) @ r)"
proof (induction cs arbitrary: z p r rzt)
  case Nil
  then show ?case by (subst reverse_loop.simps) (simp add: read_text_Nil)
next
  case (Cons c cs)
  note t = text_at_Cons [OF Cons.prems(1)]
  obtain p' q where p: "p = p' @ q" "length p' = length (utf8 cs)" "length q = length (WRITE_UTF8 c)"
    using Cons.prems(2) by (intro that [of "take (length (utf8 cs)) p" "drop (length (utf8 cs)) p"]) simp_all
  have "drop z mem = WRITE_UTF8 c @ utf8 cs @ 0 # junk" using Cons.prems(1) by (simp add: text_at_def)
  from copy_back_text [OF this p(3), of p' r] have "copy_back mem z (length (WRITE_UTF8 c)) (p @ r) rzt = Some (p' @ WRITE_UTF8 c @ r, int (length p') - 1)"
    using Cons.prems(3) p by simp
  with t Cons.IH [OF t(2) p(2) refl, of "WRITE_UTF8 c @ r"] show ?case
    by (subst reverse_loop.simps) (simp add: text_char_def)
qed

lemma find_char_text:
  "text_at mem z ds junk \<Longrightarrow>
   (if c \<in> set ds then \<exists>z' tail. find_char mem z c = Some (z', c) \<and> sqliteNextChar mem z' = Some (z' + length (WRITE_UTF8 c)) \<and> drop z' mem = WRITE_UTF8 c @ tail
    else \<exists>z'. find_char mem z c = Some (z', 0))"
proof (induction ds arbitrary: z)
  case Nil
  then show ?case by (subst find_char.simps) (simp add: read_text_Nil)
next
  case (Cons d ds)
  note t = text_at_Cons [OF Cons.prems]
  show ?case
  proof (cases "d = c")
    case True
    then have "find_char mem z c = Some (z, c)" using t by (subst find_char.simps) simp
    with True t Cons.prems show ?thesis by (auto simp: text_at_def)
  next
    case False
    then have "find_char mem z c = find_char mem (z + length (WRITE_UTF8 d)) c" using t by (subst find_char.simps) (simp add: text_char_def)
    with False Cons.IH [OF t(2)] show ?thesis by (auto split: if_splits)
  qed
qed

lemma strfilter_loop_text:
  assumes "text_at zi2 0 ds junk2"
  shows "text_at zi1 z cs junk \<Longrightarrow> length (utf8 cs) + 1 \<le> length r \<Longrightarrow>
    \<exists>r'. strfilter_loop zi1 zi2 z (p @ r) (length p) = Some (p @ utf8 (filter (\<lambda>c. c \<in> set ds) cs) @ 0 # r')"
proof (induction cs arbitrary: z p r)
  case Nil
  then obtain x r' where "r = x # r'" by (cases r) auto
  with Nil show ?case by (subst strfilter_loop.simps) (simp add: read_text_Nil poke_split)
next
  case (Cons c cs)
  note t = text_at_Cons [OF Cons.prems(1)]
  have nz: "c \<noteq> 0" "0 \<notin> set (WRITE_UTF8 c)" using t(1) write_props(4) by (auto simp: text_char_def)
  show ?case
  proof (cases "c \<in> set ds")
    case True
    then obtain z' tail where f: "find_char zi2 0 c = Some (z', c)" "sqliteNextChar zi2 z' = Some (z' + length (WRITE_UTF8 c))" "drop z' zi2 = WRITE_UTF8 c @ tail"
      using find_char_text [OF assms, of c] by auto
    let ?a = "take (length (WRITE_UTF8 c)) r" and ?b = "drop (length (WRITE_UTF8 c)) r"
    have "put_octets (p @ ?a @ ?b) (length p) (WRITE_UTF8 c) = Some (p @ WRITE_UTF8 c @ ?b)"
      using Cons.prems(2) by (intro put_split) simp_all
    then have "c_strncpy (p @ r) (length p) zi2 z' (length (WRITE_UTF8 c)) = Some ((p @ WRITE_UTF8 c) @ ?b)"
      using c_strncpy_text [OF f(3) nz(2)] by simp
    then have "strfilter_loop zi1 zi2 z (p @ r) (length p) = strfilter_loop zi1 zi2 (z + length (WRITE_UTF8 c)) ((p @ WRITE_UTF8 c) @ ?b) (length (p @ WRITE_UTF8 c))"
      using t f nz(1) by (subst strfilter_loop.simps) simp
    moreover have "length (utf8 cs) + 1 \<le> length ?b" using Cons.prems(2) by simp
    ultimately show ?thesis using Cons.IH [OF t(2), of ?b "p @ WRITE_UTF8 c"] True by auto
  next
    case False
    then obtain z' where f: "find_char zi2 0 c = Some (z', 0)" using find_char_text [OF assms, of c] by auto
    then have "strfilter_loop zi1 zi2 z (p @ r) (length p) = strfilter_loop zi1 zi2 (z + length (WRITE_UTF8 c)) (p @ r) (length p)"
      using t f nz(1) by (subst strfilter_loop.simps) simp
    then show ?thesis using Cons.IH [OF t(2), of r p] Cons.prems(2) False by simp
  qed
qed

text \<open>The loops of the padding functions: \<open>n\<close> is the number of spaces that the condition asks for.\<close>

lemma spaces_loop_run:
  "length b = n \<Longrightarrow> zt = length a \<Longrightarrow> 0 \<le> i \<Longrightarrow> 1 \<le> k \<Longrightarrow> k * (i + int n) < 2 ^ 31 \<Longrightarrow> (\<And>j. j < n \<Longrightarrow> k * (i + int j) + zl \<le> ilen) \<Longrightarrow>
   ilen < k * (i + int n) + zl \<Longrightarrow> spaces_loop k (a @ b @ c) zt i zl ilen = Some (a @ replicate n 0x20 @ c, zt + n, i + int n)"
proof (induction n arbitrary: a b zt i)
  case 0
  then show ?case by (subst spaces_loop.simps) (simp add: signed_wrap)
next
  case (Suc n)
  obtain x b' where b: "b = x # b'" "length b' = n" using Suc.prems(1) by (cases b) auto
  have ki: "k * i + zl \<le> ilen" using Suc.prems(6) [of 0] by simp
  have "0 \<le> k * i" using Suc.prems(3,4) by simp
  have e: "k * (i + int (Suc n)) = k * (i + 1 + int n)" by simp
  have "k * (i + 1) \<le> k * (i + int (Suc n))" "i + 1 \<le> k * (i + 1)" "k * i \<le> k * (i + 1)"
    using Suc.prems(3,4) by (auto intro!: mult_left_mono simp: mult_le_cancel_right1)
  with Suc.prems(3,5) have "k * i < 2 ^ 31" "0 \<le> i + 1" "i + 1 < 2 ^ 31" by linarith+
  with \<open>0 \<le> k * i\<close> have w: "signed_take_bit 31 (k * i) = k * i" "signed_take_bit 31 (i + 1) = i + 1" by (simp_all only: signed_wrap)
  have "spaces_loop k ((a @ [0x20]) @ b' @ c) (zt + 1) (i + 1) zl ilen = Some ((a @ [0x20]) @ replicate n 0x20 @ c, zt + 1 + n, i + 1 + int n)"
  proof (rule Suc.IH)
    show "k * (i + 1 + int j) + zl \<le> ilen" if "j < n" for j using Suc.prems(6) [of "Suc j"] that by (simp add: algebra_simps)
  qed (use Suc.prems b(2) e in \<open>simp_all add: algebra_simps\<close>)
  then show ?case using Suc.prems(2) ki w b(1) by (subst spaces_loop.simps) (simp add: list_update_append algebra_simps replicate_append_same flip: replicate_Suc)
qed

lemma last_octet:
  assumes "length xs = n + 1"
  obtains b x where "xs = b @ [x]" and "length b = n"
  using assms by (cases xs rule: rev_cases) auto

lemma pad_fill_text:
  assumes t: "text_at zi 0 cs junk" and n: "ilen = int (length cs + n)" and size: "length (utf8 cs) + n < 2 ^ 31 - 3"
    and zo: "length zo = length (utf8 cs) + n + 1"
  shows "padl_fill zo zi (int (length cs)) ilen = Some (replicate n 0x20 @ utf8 cs @ [0])"
    "padr_fill zo zi (int (length cs)) ilen = Some (utf8 cs @ replicate n 0x20 @ [0])"
    "padc_fill zo zi (int (length cs)) ilen = Some (replicate (n div 2) 0x20 @ utf8 cs @ replicate (n - n div 2) 0x20 @ [0])"
proof -
  let ?L = "length (utf8 cs)"
  have "spaces_loop 1 ([] @ take n zo @ drop n zo) 0 1 (int (length cs)) ilen = Some ([] @ replicate n 0x20 @ drop n zo, 0 + n, 1 + int n)"
    by (rule spaces_loop_run) (use n size zo in auto)
  moreover have "c_strcpy (replicate n 0x20 @ drop n zo) n zi 0 = Some (replicate n 0x20 @ utf8 cs @ [0])"
    using c_strcpy_text [OF t, of n "replicate n 0x20 @ drop n zo"] zo by simp
  ultimately show "padl_fill zo zi (int (length cs)) ilen = Some (replicate n 0x20 @ utf8 cs @ [0])"
    by (simp add: padl_fill_def)
  have right: "do { (zo2, zt, i) \<leftarrow> spaces_loop 1 (p @ 0 # d) z (1 + int (n - m)) (int (length cs)) ilen; poke zo2 (int zt) 0 } = Some (p @ replicate m 0x20 @ [0])"
    if d: "length d = m" and p: "length p = z" and m: "m \<le> n" for p d z m
  proof -
    obtain b x where b: "0 # d = b @ [x]" "length b = m" using last_octet [of "0 # d" m] d by auto
    have "spaces_loop 1 (p @ b @ [x]) z (1 + int (n - m)) (int (length cs)) ilen = Some (p @ replicate m 0x20 @ [x], z + m, 1 + int (n - m) + int m)"
      by (rule spaces_loop_run) (use b n size m p in auto)
    then show ?thesis using b(1) p poke_split [of "p @ replicate m 0x20" _ x "[]" 0] by simp
  qed
  have "c_strcpy zo 0 zi 0 = Some (utf8 cs @ 0 # drop (?L + 1) zo)" using c_strcpy_text [OF t, of 0 zo] zo by simp
  then show "padr_fill zo zi (int (length cs)) ilen = Some (utf8 cs @ replicate n 0x20 @ [0])"
    using right [of "drop (?L + 1) zo" n "utf8 cs" ?L] zo by (simp add: padr_fill_def c_length_text [OF t])
  let ?h = "n div 2"
  have "spaces_loop 2 ([] @ take ?h zo @ drop ?h zo) 0 1 (int (length cs)) ilen = Some ([] @ replicate ?h 0x20 @ drop ?h zo, 0 + ?h, 1 + int ?h)"
    by (rule spaces_loop_run) (use n size zo in auto)
  moreover have "c_strcpy (replicate ?h 0x20 @ drop ?h zo) ?h zi 0 = Some ((replicate ?h 0x20 @ utf8 cs) @ 0 # drop (?h + ?L + 1) zo)"
    using c_strcpy_text [OF t, of ?h "replicate ?h 0x20 @ drop ?h zo"] zo by (simp add: add.commute)
  moreover have "n - (n - ?h) = ?h" by simp
  ultimately show "padc_fill zo zi (int (length cs)) ilen = Some (replicate ?h 0x20 @ utf8 cs @ replicate (n - ?h) 0x20 @ [0])"
    using right [of "drop (?h + ?L + 1) zo" "n - ?h" "replicate ?h 0x20 @ utf8 cs" "?h + ?L"] zo
    by (simp add: padc_fill_def c_length_text [OF t])
qed

text \<open>Searching: the comparison of \<^verbatim>\<open>charindex\<close> reads the octet behind each text, which must not continue a character.\<close>

definition slack :: "bytes \<Rightarrow> bool" where
  "slack junk \<longleftrightarrow> junk \<noteq> [] \<and> \<not> is_cont (hd junk)"

lemma next_char_Nil: "text_at mem z [] junk \<Longrightarrow> slack junk \<Longrightarrow> sqliteNextChar mem z = Some (z + 1)"
proof -
  assume "text_at mem z [] junk" "slack junk"
  then have "drop (Suc z) mem = [] @ hd junk # tl junk" "\<not> is_cont (hd junk)" using drop_Suc_eq by (auto simp: text_at_def slack_def)
  then show ?thesis using run_conts(1) [of "[]"] by simp
qed

lemma compare_chars_text:
  assumes "slack j1" and "slack j2"
  shows "text_at z1 zt1 cs j1 \<Longrightarrow> text_at z2 zt2 ds j2 \<Longrightarrow> \<exists>v. compare_chars z1 zt1 z2 zt2 = Some v \<and> (v = 0 \<longleftrightarrow> prefix cs ds)"
proof (induction cs arbitrary: zt1 zt2 ds)
  case Nil
  have "\<exists>c z'. sqlite3ReadUtf8 z2 zt2 = Some c \<and> sqliteNextChar z2 zt2 = Some z'"
    using Nil.prems(2) assms(2) by (cases ds) (auto simp: read_text_Nil next_char_Nil dest: text_at_Cons)
  then show ?case using Nil.prems(1) assms(1) by (subst compare_chars.simps) (auto simp: read_text_Nil next_char_Nil)
next
  case (Cons c cs)
  note t = text_at_Cons [OF Cons.prems(1)]
  show ?case
  proof (cases ds)
    case Nil
    then show ?thesis using t Cons.prems(2) assms(2) by (subst compare_chars.simps) (simp add: read_text_Nil next_char_Nil text_char_def)
  next
    case (Cons d es)
    note u = text_at_Cons [OF Cons.prems(2) [unfolded Cons]]
    show ?thesis using t u Cons.IH [OF t(2) u(2)] Cons by (subst compare_chars.simps) (auto simp: text_char_def)
  qed
qed

lemma find_upt_Suc: "find P [0..<Suc n] = (if P 0 then Some 0 else map_option Suc (find (\<lambda>i. P (Suc i)) [0..<n]))"
proof -
  have "find Q (map Suc xs) = map_option Suc (find (\<lambda>i. Q (Suc i)) xs)" for Q xs by (induction xs) auto
  moreover have "[0..<Suc n] = 0 # map Suc [0..<n]" by (simp add: upt_conv_Cons map_Suc_upt del: upt_Suc)
  ultimately show ?thesis by (simp del: upt_Suc)
qed

lemma substr_loop_text:
  assumes "slack j1" and "slack j2" and "text_at z1 0 cs j1"
  shows "text_at z2 z ds j2 \<Longrightarrow>
    substr_loop z1 z2 z c = Some (case find (\<lambda>i. prefix cs (drop i ds)) [0..<length ds] of None \<Rightarrow> - 1 | Some i \<Rightarrow> c + int i)"
proof (induction ds arbitrary: z c)
  case Nil
  then show ?case by (subst substr_loop.simps) (simp add: read_text_Nil)
next
  case (Cons d ds)
  note t = text_at_Cons [OF Cons.prems]
  obtain v where v: "compare_chars z1 0 z2 z = Some v" "v = 0 \<longleftrightarrow> prefix cs (d # ds)" using compare_chars_text [OF assms Cons.prems] by blast
  have "find (\<lambda>i. prefix cs (drop i (d # ds))) [0..<length (d # ds)] =
      (if prefix cs (d # ds) then Some 0 else map_option Suc (find (\<lambda>i. prefix cs (drop i ds)) [0..<length ds]))"
    using find_upt_Suc [of "\<lambda>i. prefix cs (drop i (d # ds))"] by simp
  then show ?case using t v Cons.IH [OF t(2), of "c + 1"] by (subst substr_loop.simps) (auto simp: text_char_def split: option.splits)
qed

text \<open>Repeating: the copies of a string without a zero octet, each with a zero octet that the next one overwrites.\<close>

lemma strcpy_zero: "0 \<notin> set s \<Longrightarrow> z + length s + 1 \<le> length dst \<Longrightarrow> c_strcpy dst z (s @ 0 # r) 0 = Some (take z dst @ s @ 0 # drop (z + length s + 1) dst)"
  by (simp add: c_strcpy_def c_string_zero put_octets_def wr_def add.assoc)

lemma replicate_loop_run:
  assumes "0 \<notin> set s"
  shows "length p = i * length s \<Longrightarrow> length q = n * length s + 1 \<Longrightarrow>
    replicate_loop (p @ q) (s @ 0 # r) (length s) i n = Some (p @ concat (replicate n s) @ [if n = 0 then hd q else 0])"
proof (induction n arbitrary: p q i)
  case 0
  then show ?case by (cases q) auto
next
  case (Suc n)
  have "c_strcpy (p @ q) (i * length s) (s @ 0 # r) 0 = Some ((p @ s) @ 0 # drop (length s + 1) q)"
    using strcpy_zero [OF assms, of "i * length s" "p @ q" r] Suc.prems by simp
  then show ?case using Suc.IH [of "p @ s" "i + 1" "0 # drop (length s + 1) q"] Suc.prems by simp
qed

lemma replicate_loop_fault:
  assumes "0 \<notin> set s"
  shows "length z < (i + n) * length s + 1 \<Longrightarrow> 0 < n \<Longrightarrow> replicate_loop z (s @ 0 # r) (length s) i n = None"
proof (induction n arbitrary: z i)
  case (Suc n)
  show ?case
  proof (cases "c_strcpy z (i * length s) (s @ 0 # r) 0")
    case (Some z')
    then have z': "i * length s + length s + 1 \<le> length z" "length z' = length z"
      using assms by (auto simp: c_strcpy_def c_string_zero put_octets_def dim_simps split: if_splits)
    have "n \<noteq> 0"
    proof
      assume "n = 0"
      then show False using Suc.prems(1) z'(1) by (simp add: algebra_simps)
    qed
    then show ?thesis using Some z'(2) Suc.prems Suc.IH [of z' "i + 1"] by (simp add: algebra_simps)
  qed simp
qed simp

end
