(* ===== verification/Ext_Text.thy ===== *)
theory Ext_Text
  imports Ext_Text_Loops
begin

text \<open>
  The string functions of \<^verbatim>\<open>extensionfunctions.c\<close> as a whole: their results on well-formed text, and the inputs on which they leave their
  memories.
\<close>

section \<open>The functions\<close>

text \<open>An argument that is the text \<open>cs\<close>, with the octets \<open>junk\<close> behind its zero octet.\<close>

definition is_text :: "'d sqlite3_value \<Rightarrow> int list \<Rightarrow> bytes \<Rightarrow> bool" where
  "is_text v cs junk \<longleftrightarrow> value_type v \<noteq> SQLITE_NULL \<and> list_all text_char cs \<and> value_text v = Some (utf8 cs @ 0 # junk)"

lemma is_textD: "is_text v cs junk \<Longrightarrow> value_type v \<noteq> SQLITE_NULL \<and> (\<exists>mem. value_text v = Some mem \<and> text_at mem 0 cs junk)"
  by (simp add: is_text_def text_at_def)

lemma text_char_sub: "list_all text_char cs \<Longrightarrow> set ds \<subseteq> set cs \<Longrightarrow> 0 \<notin> set (utf8 ds)"
  by (rule zero_not_utf8) (auto simp: list_all_iff)

lemma result_utf8: "list_all text_char cs \<Longrightarrow> set ds \<subseteq> set cs \<Longrightarrow> result_text (utf8 ds @ 0 # r) = Some (R_text (utf8 ds))"
  by (rule result_text_at) (rule text_char_sub)

lemma length_utf8: "list_all text_char cs \<Longrightarrow> length cs \<le> length (utf8 cs)"
proof (induction cs)
  case (Cons c cs)
  then have "WRITE_UTF8 c \<noteq> []" using write_props(1) by (simp add: text_char_def)
  then have "1 \<le> length (WRITE_UTF8 c)" by (simp add: Suc_leI)
  with Cons show ?case by simp
qed simp

lemma length_utf8_take: "length (utf8 (take n cs)) + length (utf8 (drop n cs)) = length (utf8 cs)"
  using utf8_simps(3) [of "take n cs" "drop n cs"] by simp

lemma reverse_text:
  assumes a: "allocates fresh" and v: "is_text v cs junk" and size: "length (utf8 cs) < 2 ^ 31 - 1"
  shows "reverseFunc fresh v = Some (R_text (utf8 (rev cs)))"
proof -
  obtain mem where t: "value_text v = Some mem" "text_at mem 0 cs junk" "value_type v \<noteq> SQLITE_NULL" using is_textD [OF v] by blast
  let ?n = "length (utf8 cs)"
  obtain rz where rz: "sqlite3_malloc fresh (int ?n + 1) = Some rz" "int (length rz) = int ?n + 1"
    using malloc_ok [OF a, of "int ?n + 1"] size by auto
  obtain p x where p: "rz = p @ [x]" "length p = ?n" using last_octet [of rz ?n] rz(2) by auto
  have "poke rz (int ?n) 0 = Some (p @ [0])" using p poke_split [of p _ x "[]" 0] by simp
  moreover have "reverse_loop mem 0 (p @ [0]) (int ?n - 1) = Some (utf8 (rev cs) @ [0])" using reverse_loop_text [OF t(2)] p(2) by simp
  moreover have "result_text (utf8 (rev cs) @ [0]) = Some (R_text (utf8 (rev cs)))" using v by (intro result_utf8 [of cs]) (auto simp: is_text_def)
  ultimately show ?thesis using t rz(1) by (simp add: reverseFunc_def c_length_text)
qed

lemma left_text:
  assumes a: "allocates fresh" and v: "is_text v cs junk" and n: "value_type n \<noteq> SQLITE_NULL" and size: "length (utf8 cs) < 2 ^ 31 - 1"
  shows "leftFunc fresh v n = Some (R_text (utf8 (take (nat (value_int n)) cs)))"
proof -
  obtain mem where t: "value_text v = Some mem" "text_at mem 0 cs junk" "value_type v \<noteq> SQLITE_NULL" using is_textD [OF v] by blast
  let ?s = "utf8 (take (nat (value_int n)) cs)"
  have len: "length ?s \<le> length (utf8 cs)" using length_utf8_take [of "nat (value_int n)" cs] by simp
  obtain rz where rz: "sqlite3_malloc fresh (int (length ?s) + 1) = Some rz" "int (length rz) = int (length ?s) + 1"
    using malloc_ok [OF a, of "int (length ?s) + 1"] size len by auto
  obtain p x where p: "rz = p @ [x]" "length p = length ?s" using last_octet [of rz "length ?s"] rz(2) by auto
  have "mem = ?s @ utf8 (drop (nat (value_int n)) cs) @ 0 # junk"
    using t(2) utf8_simps(3) [of "take (nat (value_int n)) cs" "drop (nat (value_int n)) cs"] by (simp add: text_at_def)
  moreover have z: "0 \<notin> set ?s" using v by (intro text_char_sub [of cs]) (auto simp: is_text_def dest: in_set_takeD)
  ultimately have "c_strncpy rz 0 mem 0 (length ?s) = put_octets rz 0 ?s" using c_strncpy_text [of 0 mem ?s] by simp
  also have "\<dots> = Some (?s @ [x])" using put_split [of "[]" 0 p ?s "[x]"] p by simp
  finally have "c_strncpy rz 0 mem 0 (length ?s) = Some (?s @ [x])" .
  moreover have "poke (?s @ [x]) (int (length ?s)) 0 = Some (?s @ [0])" using poke_split [of ?s _ x "[]" 0] by simp
  moreover have "skip_chars mem 0 0 (value_int n) = Some (length ?s)" using skip_chars_text [OF t(2), of 0] by simp
  ultimately show ?thesis using t n rz(1) result_text_at [OF z, of "[]"] by (simp add: leftFunc_def)
qed

lemma right_text:
  assumes a: "allocates fresh" and v: "is_text v cs junk" and n: "value_type n \<noteq> SQLITE_NULL" "0 \<le> value_int n" "value_int n < 2 ^ 31"
    and size: "length (utf8 cs) < 2 ^ 31 - 1"
  shows "rightFunc fresh v n = Some (R_text (utf8 (drop (length cs - nat (value_int n)) cs)))"
proof -
  obtain mem where t: "value_text v = Some mem" "text_at mem 0 cs junk" "value_type v \<noteq> SQLITE_NULL" using is_textD [OF v] by blast
  let ?k = "length cs - nat (value_int n)"
  let ?s = "utf8 (drop ?k cs)"
  have len: "length cs \<le> length (utf8 cs)" using v by (intro length_utf8) (simp add: is_text_def)
  have w: "signed_take_bit 31 (int (length cs) - value_int n) = int (length cs) - value_int n"
    using n len size by (intro signed_take_bit_int_eq_self) simp_all
  have k: "nat (if int (length cs) - value_int n < 0 then 0 else int (length cs) - value_int n) = ?k" using n(2) by auto
  have e: "length (utf8 cs) = length (utf8 (take ?k cs)) + length ?s" by (simp only: length_utf8_take)
  obtain rz where rz: "sqlite3_malloc fresh (int (length ?s) + 1) = Some rz" "int (length rz) = int (length ?s) + 1"
    using malloc_ok [OF a, of "int (length ?s) + 1"] size e by auto
  have d: "text_at mem (length (utf8 (take ?k cs))) (drop ?k cs) junk" using text_at_drop [OF t(2), of ?k] by simp
  have "c_strcpy rz 0 mem (length (utf8 (take ?k cs))) = Some (?s @ [0])" using c_strcpy_text [OF d, of 0 rz] rz(2) by simp
  moreover have "next_chars mem 0 ?k = Some (length (utf8 (take ?k cs)))" using next_chars_text [OF t(2), of ?k] by simp
  moreover have "count_chars mem 0 0 = Some (length (utf8 cs), int (length cs))" using count_chars_text [OF t(2), of 0] by simp
  moreover have "result_text (?s @ [0]) = Some (R_text ?s)" using v by (intro result_utf8 [of cs]) (auto simp: is_text_def dest: in_set_dropD)
  moreover have "int (length (utf8 cs)) - int (length (utf8 (take ?k cs))) + 1 = int (length ?s) + 1" by (simp add: e)
  moreover have "nat (let n' = signed_take_bit 31 (int (length cs) - value_int n) in if n' < 0 then 0 else n') = ?k"
    by (simp only: w Let_def k)
  ultimately show ?thesis using t n(1) rz(1) unfolding rightFunc_def by (simp only: if_False option.case option.simps bind.simps prod.case Let_def simp_thms)
qed

lemma strfilter_text:
  assumes a: "allocates fresh" and v: "is_text v cs junk" and w: "is_text w ds junk'" and size: "length (utf8 cs) < 2 ^ 31 - 1"
  shows "strfilterFunc fresh v w = Some (R_text (utf8 (filter (\<lambda>c. c \<in> set ds) cs)))"
proof -
  obtain mem where t: "value_text v = Some mem" "text_at mem 0 cs junk" "value_type v \<noteq> SQLITE_NULL" using is_textD [OF v] by blast
  obtain mem' where t': "value_text w = Some mem'" "text_at mem' 0 ds junk'" "value_type w \<noteq> SQLITE_NULL" using is_textD [OF w] by blast
  obtain zo where zo: "sqlite3_malloc fresh (int (length (utf8 cs)) + 1) = Some zo" "int (length zo) = int (length (utf8 cs)) + 1"
    using malloc_ok [OF a, of "int (length (utf8 cs)) + 1"] size by auto
  obtain r' where "strfilter_loop mem mem' 0 zo 0 = Some (utf8 (filter (\<lambda>c. c \<in> set ds) cs) @ 0 # r')"
    using strfilter_loop_text [OF t'(2) t(2), of zo "[]"] zo(2) by auto
  moreover have "result_text (utf8 (filter (\<lambda>c. c \<in> set ds) cs) @ 0 # r') = Some (R_text (utf8 (filter (\<lambda>c. c \<in> set ds) cs)))"
    using v by (intro result_utf8 [of cs]) (auto simp: is_text_def)
  ultimately show ?thesis using t t' zo(1) by (simp add: strfilterFunc_def c_length_text)
qed

lemma pad_text:
  assumes a: "allocates fresh" and v: "is_text v cs junk" and n: "0 \<le> value_int64 n" and size: "length (utf8 cs) + nat (value_int64 n) < 2 ^ 31 - 3"
    and fill: "\<And>mem zo k. text_at mem 0 cs junk \<Longrightarrow> value_int64 n = int (length cs + k) \<Longrightarrow> length (utf8 cs) + k < 2 ^ 31 - 3 \<Longrightarrow> length zo = length (utf8 cs) + k + 1 \<Longrightarrow>
        fill zo mem (int (length cs)) (value_int64 n) = Some (replicate (l k) 0x20 @ utf8 cs @ replicate (r k) 0x20 @ [0])"
    and zero: "l 0 = 0" "r 0 = 0"
  shows "pad_with fill fresh v n =
    Some (R_text (let k = nat (value_int64 n) - length cs in replicate (l k) 0x20 @ utf8 cs @ replicate (r k) 0x20))"
proof -
  obtain mem where t: "value_text v = Some mem" "text_at mem 0 cs junk" "value_type v \<noteq> SQLITE_NULL" using is_textD [OF v] by blast
  have z: "0 \<notin> set (utf8 cs)" using v by (intro zero_not_utf8) (simp add: is_text_def)
  let ?n = "length (utf8 cs)" and ?k = "nat (value_int64 n) - length cs"
  have cl: "sqlite3Utf8CharLen mem 0 0 = Some (int (length cs))" using CharLen_text [OF t(2), of 0] by simp
  show ?thesis
  proof (cases "value_int64 n \<le> int (length cs)")
    case True
    obtain zo where zo: "sqlite3_malloc fresh (int ?n + 1) = Some zo" "int (length zo) = int ?n + 1"
      using malloc_ok [OF a, of "int ?n + 1"] size by auto
    have "c_strcpy zo 0 mem 0 = Some (utf8 cs @ [0])" using c_strcpy_text [OF t(2), of 0 zo] zo(2) by simp
    then have "sqlite3StrDup fresh mem = Some (utf8 cs @ [0])" using zo(1) by (simp add: sqlite3StrDup_def c_length_text [OF t(2)])
    moreover have "?k = 0" using True by simp
    ultimately show ?thesis using t cl n True zero result_text_at [OF z, of "[]"] by (simp add: pad_with_def)
  next
    case False
    then have k: "value_int64 n = int (length cs + ?k)" "?n + ?k < 2 ^ 31 - 3" using n size by auto
    have arg: "int ?n + value_int64 n - int (length cs) + 1 = int (?n + ?k + 1)" using k(1) by simp
    obtain zo where zo: "sqlite3_malloc fresh (int (?n + ?k + 1)) = Some zo" "int (length zo) = int (?n + ?k + 1)"
      using malloc_ok [OF a, of "int (?n + ?k + 1)"] k(2) by auto
    have "fill zo mem (int (length cs)) (value_int64 n) = Some (replicate (l ?k) 0x20 @ utf8 cs @ replicate (r ?k) 0x20 @ [0])"
      using fill [OF t(2) k] zo(2) by simp
    moreover have "0 \<notin> set (replicate (l ?k) 0x20 @ utf8 cs @ replicate (r ?k) (0x20 :: u8))" using z by auto
    ultimately show ?thesis using t cl n False zo(1) result_text_at [of "replicate (l ?k) 0x20 @ utf8 cs @ replicate (r ?k) 0x20" "[]"]
      by (simp add: pad_with_def c_length_text [OF t(2)] arg Let_def)
  qed
qed



lemma case_nonzero: "r \<noteq> 0 \<Longrightarrow> c_toupper r \<noteq> 0 \<and> c_tolower r \<noteq> 0"
  by (auto simp: c_toupper_def c_tolower_def word_le_def word_uint_eq_iff uint_word_ariths)

lemma proper_loop_run:
  assumes "0 \<notin> set s"
  shows "drop z mem = s @ 0 # tail \<Longrightarrow> length q = length s + 1 \<Longrightarrow>
    \<exists>s'. proper_loop mem z (p @ q) (length p) c = Some (p @ s' @ [0]) \<and> length s' = length s \<and>
      (\<forall>i < length s. s' ! i = (if (if i = 0 then c else c_isblank (s ! (i - 1))) then c_toupper (s ! i) else c_tolower (s ! i)))"
  using assms
proof (induction s arbitrary: z p q c)
  case Nil
  then obtain x where "q = [x]" by (cases q) auto
  moreover have "at mem z = Some 0" using Nil.prems(1) at_drop by simp
  ultimately show ?case by (subst proper_loop.simps) (simp add: poke_split)
next
  case (Cons r s)
  obtain x q' where q: "q = x # q'" "length q' = length s + 1" using Cons.prems(2) by (cases q) auto
  have m: "at mem z = Some r" "r \<noteq> 0" "drop (Suc z) mem = s @ 0 # tail" using Cons.prems at_drop drop_Suc_eq by auto
  define r' where "r' = (if c_isblank r then r else if c then c_toupper r else c_tolower r)"
  have "c_isblank r \<Longrightarrow> c_toupper r = r \<and> c_tolower r = r" by (auto simp: c_isblank_def c_toupper_def c_tolower_def)
  then have r': "r' = (if c then c_toupper r else c_tolower r)" by (auto simp: r'_def)
  have step: "proper_loop mem z (p @ q) (length p) c = proper_loop mem (Suc z) ((p @ [r']) @ q') (length (p @ [r'])) (c_isblank r)"
    using m q poke_split [of p _ x q'] by (subst proper_loop.simps) (auto simp: r'_def)
  have "0 \<notin> set s" using Cons.prems(3) by simp
  from Cons.IH [OF m(3) q(2) this, of "p @ [r']" "c_isblank r"]
  obtain s' where s': "proper_loop mem (Suc z) ((p @ [r']) @ q') (length (p @ [r'])) (c_isblank r) = Some ((p @ [r']) @ s' @ [0])" "length s' = length s"
      "\<forall>i < length s. s' ! i = (if (if i = 0 then c_isblank r else c_isblank (s ! (i - 1))) then c_toupper (s ! i) else c_tolower (s ! i))"
    by blast
  have "(r' # s') ! i = (if (if i = 0 then c else c_isblank ((r # s) ! (i - 1))) then c_toupper ((r # s) ! i) else c_tolower ((r # s) ! i))" if "i < length (r # s)" for i
    using s'(3) that r' by (cases i) (auto simp: nth_Cons')
  then show ?case using step s'(1,2) by (intro exI [of _ "r' # s'"]) simp
qed

text \<open>A soundex value: an upper-case letter or a question mark, and three digits.\<close>

definition soundex_value :: "bytes \<Rightarrow> bool" where
  "soundex_value zR \<longleftrightarrow> (\<exists>a d. zR = a # d @ [0] \<and> length d = 3 \<and> (a = 0x3f \<or> 0x41 \<le> a \<and> a \<le> 0x5a) \<and> (\<forall>x \<in> set d. 0x30 \<le> x \<and> x \<le> 0x36))"

lemma soundex_first_ok: "0 \<in> set (drop i zIn) \<Longrightarrow> \<exists>j b. soundex_first zIn i = Some (j, b) \<and> 0 \<in> set (drop j zIn) \<and> (b = 0 \<or> c_isalpha b)"
proof (induction zIn i rule: soundex_first.induct)
  case (1 zIn i)
  then obtain b tail where d: "drop i zIn = b # tail" by (cases "drop i zIn") auto
  then have b: "at zIn i = Some b" "drop (i + 1) zIn = tail" using at_drop drop_Suc_eq by simp_all
  show ?case
  proof (cases "b \<noteq> 0 \<and> \<not> c_isalpha b")
    case True
    then show ?thesis using 1 b d by (subst soundex_first.simps) auto
  next
    case False
    then show ?thesis using 1 b by (subst soundex_first.simps) auto
  qed
qed

lemma iCode_digit: "soundex_iCode ! unat (b AND 0x7f) \<le> 6" for b :: u8
proof -
  have "unat (b AND 0x7f) < 128" using word_and_le1 [of b "0x7f"] by (simp add: word_le_nat_alt)
  moreover have "list_all (\<lambda>x. x \<le> 6) soundex_iCode" "length soundex_iCode = 128" by code_simp+
  ultimately show ?thesis by (simp add: list_all_length)
qed

lemma soundex_codes_ok:
  assumes "length a = 1"
  shows "0 \<in> set (drop i zIn) \<Longrightarrow> \<forall>x \<in> set d. 0x30 \<le> x \<and> x \<le> 0x36 \<Longrightarrow> length d \<le> 3 \<Longrightarrow>
    \<exists>d'. soundex_codes zIn i (a @ d) = Some (a @ d') \<and> length d' \<le> 3 \<and> (\<forall>x \<in> set d'. 0x30 \<le> x \<and> x \<le> 0x36)"
proof (induction zIn i "a @ d" arbitrary: d rule: soundex_codes.induct)
  case (1 zIn i)
  obtain b tail where d: "drop i zIn = b # tail" using 1(2) by (cases "drop i zIn") auto
  then have b: "at zIn i = Some b" "drop (i + 1) zIn = tail" using at_drop drop_Suc_eq by simp_all
  let ?code = "soundex_iCode ! unat (b AND 0x7f)"
  show ?case
  proof (cases "length d < 3 \<and> b \<noteq> 0")
    case True
    let ?d = "if ?code > 0 then d @ [of_nat ?code + 0x30] else d"
    have "?code \<in> {0, 1, 2, 3, 4, 5, 6}" using iCode_digit [of b] by auto
    then have "0x30 \<le> (of_nat ?code + 0x30 :: u8) \<and> of_nat ?code + 0x30 \<le> (0x36 :: u8)" by auto
    then have "\<forall>x \<in> set ?d. 0x30 \<le> x \<and> x \<le> 0x36" using 1(3) by auto
    moreover have "soundex_codes zIn i (a @ d) = soundex_codes zIn (i + 1) (a @ ?d)"
      using True b assms by (subst soundex_codes.simps) (simp add: Let_def)
    moreover have "0 \<in> set (drop (i + 1) zIn)" using 1(2) d b True by auto
    ultimately show ?thesis using 1(1) [of b ?code ?d] True b assms by auto
  next
    case False
    then show ?thesis using b assms 1(3,4) by (subst soundex_codes.simps) auto
  qed
qed

lemma soundex_ok:
  assumes "0 \<in> set zIn"
  obtains zR where "soundex zIn = Some zR" and "soundex_value zR"
proof -
  obtain i b where f: "soundex_first zIn 0 = Some (i, b)" "0 \<in> set (drop i zIn)" "b = 0 \<or> c_isalpha b" using soundex_first_ok [of 0 zIn] assms by auto
  show thesis
  proof (cases "b = 0")
    case True
    then show ?thesis using f by (intro that [of "[0x3f, 0x30, 0x30, 0x30, 0]"]) (auto simp: soundex_def soundex_value_def)
  next
    case False
    have u: "0x41 \<le> c_toupper b \<and> c_toupper b \<le> 0x5a"
    proof (cases "0x61 \<le> b \<and> b \<le> 0x7a")
      case True
      then have "uint (b - 0x20) = uint b - 0x20" by (simp add: word_le_def uint_sub_if')
      with True show ?thesis by (simp add: c_toupper_def word_le_def)
    qed (use f(3) False in \<open>auto simp: c_isalpha_def c_toupper_def\<close>)
    obtain d where d: "soundex_codes zIn i [c_toupper b] = Some ([c_toupper b] @ d)" "length d \<le> 3" "\<forall>x \<in> set d. 0x30 \<le> x \<and> x \<le> 0x36"
      using soundex_codes_ok [of "[c_toupper b]" i zIn "[]"] f(2) by auto
    let ?d = "d @ replicate (3 - length d) 0x30"
    have "soundex zIn = Some (c_toupper b # ?d @ [0])" using f(1) False d(1) by (simp add: soundex_def)
    moreover have "soundex_value (c_toupper b # ?d @ [0])" unfolding soundex_value_def using u d by (intro exI [of _ "c_toupper b"] exI [of _ ?d]) auto
    ultimately show ?thesis by (rule that)
  qed
qed

lemma ascii_text: "(\<And>b. b \<in> set s \<Longrightarrow> 0 < b \<and> b < 0x80) \<Longrightarrow> list_all text_char (map uint s) \<and> utf8 (map uint s) = s"
proof (induction s)
  case (Cons b s)
  then have "0 < uint b" "uint b < 0x80" using Cons.prems [of b] by (simp_all add: word_less_def)
  moreover have "uint b AND 0xFF = uint b" using uint_lt2p [of b] by (simp add: and_masks)
  ultimately show ?case using Cons by (simp add: text_char_def scalar_def WRITE_UTF8_def)
qed simp

lemma soundex_text:
  assumes "soundex_value zR"
  shows "text_at zR 0 (map uint (take 4 zR)) []"
proof -
  obtain a d where zR: "zR = a # d @ [0]" "length d = 3" "a = 0x3f \<or> 0x41 \<le> a \<and> a \<le> 0x5a" "\<forall>x \<in> set d. 0x30 \<le> x \<and> x \<le> 0x36"
    using assms by (auto simp: soundex_value_def)
  then have "0 < b \<and> b < 0x80" if "b \<in> set (a # d)" for b using that by (auto simp: word_le_def word_less_def)
  moreover have "take 4 zR = a # d" using zR by simp
  ultimately show ?thesis using ascii_text [of "a # d"] zR(1) by (simp add: text_at_def)
qed

lemma difference_loop_text:
  "text_at z1 p1 cs [] \<Longrightarrow> text_at z2 p2 ds [] \<Longrightarrow> length cs = length ds \<Longrightarrow>
   difference_loop z1 p1 z2 p2 (length cs) r = Some (r + int (length (filter (\<lambda>(c, d). c = d) (zip cs ds))))"
proof (induction cs arbitrary: p1 p2 ds r)
  case (Cons c cs)
  then obtain d es where ds: "ds = d # es" by (cases ds) auto
  note t = text_at_Cons [OF Cons.prems(1)] and u = text_at_Cons [OF Cons.prems(2) [unfolded ds]]
  show ?case using t u Cons.IH [OF t(2) u(2)] Cons.prems(3) ds by simp
qed simp

definition sample_text :: "bytes \<Rightarrow> unit sqlite3_value" where
  "sample_text s = \<lparr>value_type = 3, value_numeric_type = 3, value_text = Some s, value_bytes = int (length (takeWhile (\<lambda>b. b \<noteq> 0) s)), value_int = 0, value_int64 = 0, value_double = ()\<rparr>"

definition sample_int :: "int \<Rightarrow> unit sqlite3_value" where
  "sample_int n = \<lparr>value_type = SQLITE_INTEGER, value_numeric_type = SQLITE_INTEGER, value_text = None, value_bytes = 0, value_int = n, value_int64 = n, value_double = ()\<rparr>"

definition sample_fresh :: "nat \<Rightarrow> bytes option" where
  "sample_fresh n = Some (replicate n 0x55)"

lemma sample_allocates: "allocates sample_fresh"
  by (simp add: allocates_def sample_fresh_def)

lemma sample_write: "WRITE_UTF8 0x61 = [0x61]" "WRITE_UTF8 0x62 = [0x62]" "WRITE_UTF8 0xe9 = [0xc3, 0xa9]"
  by code_simp+

lemmas sample_simps = sample_write is_text_def sample_text_def sample_int_def SQLITE_NULL_def SQLITE_INTEGER_def text_char_def scalar_def

section \<open>Properties\<close>

text \<open>C20: On a well-formed UTF-8 text the functions \<^verbatim>\<open>reverse\<close>, \<^verbatim>\<open>leftstr\<close>, \<^verbatim>\<open>rightstr\<close> (with a count that is not negative) and \<^verbatim>\<open>strfilter\<close>
  give, when memory is available and the text has less than 2 GB, the text of the code points in reverse order, the first code points,
  the last code points, and the code points that occur in the second text, without an access outside of their memories.\<close>

theorem ext_text_functions:
  assumes "allocates fresh" and "is_text v cs junk" and "is_text w ds junk'" and "value_type n \<noteq> SQLITE_NULL" and "0 \<le> value_int n" and "value_int n < 2 ^ 31"
    and "length (utf8 cs) < 2 ^ 31 - 1"
  shows "reverseFunc fresh v = Some (R_text (utf8 (rev cs))) \<and>
    leftFunc fresh v n = Some (R_text (utf8 (take (nat (value_int n)) cs))) \<and>
    rightFunc fresh v n = Some (R_text (utf8 (drop (length cs - nat (value_int n)) cs))) \<and>
    strfilterFunc fresh v w = Some (R_text (utf8 (filter (\<lambda>c. c \<in> set ds) cs)))"
  using reverse_text [OF assms(1,2,7)] left_text [OF assms(1,2,4,7)] right_text [OF assms(1,2,4,5,6,7)] strfilter_text [OF assms(1,2,3,7)] by simp

theorem ext_text_functions_witness:
  "reverseFunc sample_fresh (sample_text [0x61, 0xc3, 0xa9, 0x62, 0]) = Some (R_text [0x62, 0xc3, 0xa9, 0x61]) \<and>
   rightFunc sample_fresh (sample_text [0x61, 0xc3, 0xa9, 0x62, 0]) (sample_int 2) = Some (R_text [0xc3, 0xa9, 0x62]) \<and>
   strfilterFunc sample_fresh (sample_text [0x61, 0xc3, 0xa9, 0x62, 0]) (sample_text [0xc3, 0xa9, 0]) = Some (R_text [0xc3, 0xa9])"
  using ext_text_functions [OF sample_allocates, of "sample_text [0x61, 0xc3, 0xa9, 0x62, 0]" "[0x61, 0xe9, 0x62]" "[]" "sample_text [0xc3, 0xa9, 0]" "[0xe9]" "[]" "sample_int 2"]
  by (simp add: sample_simps)

text \<open>C31: \<^verbatim>\<open>padl\<close>, \<^verbatim>\<open>padr\<close> and \<^verbatim>\<open>padc\<close> add the spaces that are missing to the requested number of characters (not octets): at the left, at the
  right, or half of them, rounded down, at the left and the others at the right; a text that is long enough is returned as it is.\<close>

theorem ext_padding:
  assumes "allocates fresh" and "is_text v cs junk" and "0 \<le> value_int64 n" and "length (utf8 cs) + nat (value_int64 n) < 2 ^ 31 - 3"
  defines "k \<equiv> nat (value_int64 n) - length cs"
  shows "padlFunc fresh v n = Some (R_text (replicate k 0x20 @ utf8 cs)) \<and>
    padrFunc fresh v n = Some (R_text (utf8 cs @ replicate k 0x20)) \<and>
    padcFunc fresh v n = Some (R_text (replicate (k div 2) 0x20 @ utf8 cs @ replicate (k - k div 2) 0x20))"
proof (intro conjI)
  note p = pad_text [OF assms(1-4), unfolded Let_def, folded k_def]
  show "padlFunc fresh v n = Some (R_text (replicate k 0x20 @ utf8 cs))"
    using p [of padl_fill "\<lambda>k. k" "\<lambda>k. 0"] by (simp add: padlFunc_def pad_fill_text(1))
  show "padrFunc fresh v n = Some (R_text (utf8 cs @ replicate k 0x20))"
    using p [of padr_fill "\<lambda>k. 0" "\<lambda>k. k"] by (simp add: padrFunc_def pad_fill_text(2))
  show "padcFunc fresh v n = Some (R_text (replicate (k div 2) 0x20 @ utf8 cs @ replicate (k - k div 2) 0x20))"
    using p [of padc_fill "\<lambda>k. k div 2" "\<lambda>k. k - k div 2"] by (simp add: padcFunc_def pad_fill_text(3))
qed

theorem ext_padding_witness:
  "padcFunc sample_fresh (sample_text [0xc3, 0xa9, 0]) (sample_int 4) = Some (R_text ([0x20, 0xc3, 0xa9] @ replicate 2 0x20))"
  using ext_padding [OF sample_allocates, of "sample_text [0xc3, 0xa9, 0]" "[0xe9]" "[]" "sample_int 4"]
  by (simp add: sample_simps)



text \<open>\<^verbatim>\<open>replicate\<close> gives the text the requested number of times, when that number is positive and the result has less than 2 GB.\<close>

theorem ext_replicate:
  assumes "allocates fresh" and "allocates fresh'" and "value_type v \<noteq> SQLITE_NULL" and "value_text v = Some (s @ 0 # junk)" and "0 \<notin> set s"
    and "value_bytes v = int (length s)" and "0 < value_int64 n" and "int (length s) * value_int64 n + 1 < 2 ^ 31"
  shows "replicateFunc fresh fresh' v n = Some (R_text (concat (replicate (nat (value_int64 n)) s)))"
proof -
  let ?n = "nat (value_int64 n)" and ?L = "int (length s) * value_int64 n"
  have L: "?L = int (?n * length s)" using assms(7) by simp
  have "int (length s) \<le> ?L" using assms(7) by (simp add: mult_le_cancel_left1)
  then have bounds: "?L + 1 < 2 ^ 31" "int (length s) + 1 < 2 ^ 31" "0 \<le> ?L" using assms(8) by linarith+
  have w: "signed_take_bit 63 ?L = ?L" by (rule signed_take_bit_int_eq_self) (use bounds in simp_all)
  obtain z where z: "sqlite3_malloc fresh (?L + 1) = Some z" "int (length z) = ?L + 1" using malloc_ok [OF assms(1), of "?L + 1"] bounds by auto
  obtain zo where zo: "sqlite3_malloc fresh' (int (length s) + 1) = Some zo" "int (length zo) = int (length s) + 1"
    using malloc_ok [OF assms(2), of "int (length s) + 1"] bounds by auto
  have "c_strcpy zo 0 (s @ 0 # junk) 0 = Some (s @ [0])" using strcpy_zero [OF assms(5), of 0 zo junk] zo(2) by simp
  moreover have "length z = ?n * length s + 1" using z(2) L by linarith
  then have "replicate_loop z (s @ [0]) (length s) 0 ?n = Some (concat (replicate ?n s) @ [0])"
    using replicate_loop_run [OF assms(5), of "[]" 0 z ?n "[]"] assms(7) by simp
  moreover have "0 \<notin> set (concat (replicate ?n s))" using assms(5) by auto
  then have "result_text (concat (replicate ?n s) @ [0]) = Some (R_text (concat (replicate ?n s)))" by (rule result_text_at)
  ultimately show ?thesis using assms(3,4,6,7) z(1) zo(1) by (simp add: replicateFunc_def w Let_def)
qed

theorem ext_replicate_witness:
  "replicateFunc sample_fresh sample_fresh (sample_text [0x61, 0x62, 0]) (sample_int 2) = Some (R_text (concat (replicate 2 [0x61, 0x62])))"
  using ext_replicate [OF sample_allocates sample_allocates, of "sample_text [0x61, 0x62, 0]" "[0x61, 0x62]" "[]" "sample_int 2"]
  by (simp add: sample_simps)

lemma signed_wrap_twice: "signed_take_bit 31 (signed_take_bit 63 x + 1) = signed_take_bit 31 (x + 1)" for x :: int
proof -
  have "take_bit 32 (signed_take_bit 63 x + 1) = take_bit 32 (take_bit 32 (signed_take_bit 63 x) + take_bit 32 1)" by (simp only: take_bit_add)
  also have "\<dots> = take_bit 32 (x + 1)" by (simp only: take_bit_signed_take_bit take_bit_add)
  finally show ?thesis by (simp add: signed_take_bit_eq_iff_take_bit_eq)
qed

text \<open>C34: When the result of \<^verbatim>\<open>replicate\<close> would have 2 GB or more, the size of its buffer is cut to 32 bits: the copies are written beyond the buffer,
  unless the size that is left is not positive and the call reports that there is no memory. For the count 0 the result is read from memory that was never
  written.\<close>

theorem ext_replicate_overflow:
  assumes "allocates fresh" and "allocates fresh'" and "value_type v \<noteq> SQLITE_NULL" and "value_text v = Some (s @ 0 # junk)" and "0 \<notin> set s"
    and "value_bytes v = int (length s)" and "int (length s) + 1 < 2 ^ 31"
  shows "(2 ^ 31 \<le> int (length s) * value_int64 n + 1 \<longrightarrow>
      replicateFunc fresh fresh' v n = (if 0 < signed_take_bit 31 (int (length s) * value_int64 n + 1) then None else Some R_nomem)) \<and>
    (\<forall>b. value_int64 n = 0 \<and> fresh 1 = Some [b] \<longrightarrow> replicateFunc fresh fresh' v n = (if b = 0 then Some (R_text []) else None))"
proof (intro conjI impI allI)
  obtain zo where zo: "sqlite3_malloc fresh' (int (length s) + 1) = Some zo" "int (length zo) = int (length s) + 1"
    using malloc_ok [OF assms(2), of "int (length s) + 1"] assms(7) by auto
  have cp: "c_strcpy zo 0 (s @ 0 # junk) 0 = Some (s @ [0])" using strcpy_zero [OF assms(5), of 0 zo junk] zo(2) by simp
  show "replicateFunc fresh fresh' v n = (if 0 < signed_take_bit 31 (int (length s) * value_int64 n + 1) then None else Some R_nomem)"
    if big: "2 ^ 31 \<le> int (length s) * value_int64 n + 1"
  proof -
    let ?L = "int (length s) * value_int64 n"
    let ?k = "signed_take_bit 31 (?L + 1)"
    have pos: "0 < value_int64 n"
    proof (rule ccontr)
      assume "\<not> 0 < value_int64 n"
      then have "?L \<le> 0" by (intro mult_nonneg_nonpos) simp_all
      with big show False by simp
    qed
    have m: "sqlite3_malloc fresh (signed_take_bit 63 ?L + 1) = (if ?k \<le> 0 then None else fresh (nat ?k))"
      by (simp only: sqlite3_malloc_def Let_def signed_wrap_twice)
    show ?thesis
    proof (cases "0 < ?k")
      case True
      obtain z where z: "fresh (nat ?k) = Some z" "length z = nat ?k" using assms(1) by (auto simp: allocates_def)
      have "?k < 2 ^ 31" by (rule signed_take_bit_int_less_exp)
      then have "int (length z) < ?L + 1" using z(2) True big by linarith
      moreover have "?L = int (nat (value_int64 n) * length s)" using pos by simp
      ultimately have "int (length z) < int ((0 + nat (value_int64 n)) * length s + 1)" by (simp only: of_nat_add of_nat_1 add_0)
      then have "length z < (0 + nat (value_int64 n)) * length s + 1" by (simp only: of_nat_less_iff)
      then have "replicate_loop z (s @ [0]) (length s) 0 (nat (value_int64 n)) = None"
        using pos by (intro replicate_loop_fault [OF assms(5)]) simp_all
      moreover have "sqlite3_malloc fresh (signed_take_bit 63 ?L + 1) = Some z" using m z(1) True by simp
      ultimately show ?thesis using assms(3,4,6) zo(1) cp pos True by (simp add: replicateFunc_def Let_def)
    next
      case False
      then have "sqlite3_malloc fresh (signed_take_bit 63 ?L + 1) = None" using m by simp
      then show ?thesis using assms(3,6) pos False by (simp add: replicateFunc_def Let_def)
    qed
  qed
  show "replicateFunc fresh fresh' v n = (if b = 0 then Some (R_text []) else None)" if "value_int64 n = 0 \<and> fresh 1 = Some [b]" for b
  proof -
    have "sqlite3_malloc fresh 1 = Some [b]" using that by (simp add: sqlite3_malloc_def)
    then show ?thesis using assms(3,4,6) zo(1) cp that by (simp add: replicateFunc_def Let_def result_text_def c_string_def)
  qed
qed

theorem ext_replicate_overflow_witness:
  "replicateFunc sample_fresh sample_fresh (sample_text [0x61, 0x62, 0]) (sample_int (2 ^ 31)) = None"
  using ext_replicate_overflow [OF sample_allocates sample_allocates, of "sample_text [0x61, 0x62, 0]" "[0x61, 0x62]" "[]" "sample_int (2 ^ 31)"]
  by (simp add: sample_simps)

text \<open>The reads beyond a text that ends the memory.\<close>

lemma next_char_past: "text_at mem z [] [] \<Longrightarrow> sqliteNextChar mem z = None"
proof -
  assume "text_at mem z [] []"
  then have "at mem (z + 1) = None" using drop_Suc_eq [of z mem 0 "[]"] by (simp add: text_at_def at_app)
  then show ?thesis by (subst sqliteNextChar.simps) simp
qed

lemma next_chars_past: "text_at mem z cs [] \<Longrightarrow> length cs < n \<Longrightarrow> next_chars mem z n = None"
proof (induction cs arbitrary: z n)
  case Nil
  then show ?case by (cases n) (simp_all add: next_char_past)
next
  case (Cons c cs)
  then show ?case using text_at_Cons [OF Cons.prems(1)] by (cases n) simp_all
qed

lemma compare_chars_past: "text_at z1 zt1 cs [] \<Longrightarrow> text_at z2 zt2 ds junk \<Longrightarrow> prefix cs ds \<Longrightarrow> compare_chars z1 zt1 z2 zt2 = None"
proof (induction cs arbitrary: zt1 zt2 ds)
  case Nil
  then show ?case by (subst compare_chars.simps) (auto simp: next_char_past split: option.splits)
next
  case (Cons c cs)
  then obtain es where ds: "ds = c # es" "prefix cs es" by (cases ds) auto
  note t = text_at_Cons [OF Cons.prems(1)] and u = text_at_Cons [OF Cons.prems(2) [unfolded ds(1)]]
  show ?case using t u Cons.IH [OF t(2) u(2) ds(2)] by (subst compare_chars.simps) (simp add: text_char_def)
qed

text \<open>Where the text does not occur, its own end is not reached.\<close>

lemma compare_chars_before:
  assumes "slack j2"
  shows "text_at z1 zt1 cs j1 \<Longrightarrow> text_at z2 zt2 ds j2 \<Longrightarrow> \<not> prefix cs ds \<Longrightarrow> \<exists>v. v \<noteq> 0 \<and> compare_chars z1 zt1 z2 zt2 = Some v"
proof (induction cs arbitrary: zt1 zt2 ds)
  case (Cons c cs)
  note t = text_at_Cons [OF Cons.prems(1)]
  show ?case
  proof (cases ds)
    case Nil
    then show ?thesis using t Cons.prems(2) assms by (subst compare_chars.simps) (simp add: read_text_Nil next_char_Nil text_char_def)
  next
    case (Cons d es)
    note u = text_at_Cons [OF Cons.prems(2) [unfolded Cons]]
    show ?thesis using t u Cons.IH [OF t(2) u(2)] Cons.prems(3) Cons by (subst compare_chars.simps) (auto simp: text_char_def)
  qed
qed simp

lemma substr_loop_past:
  assumes "slack j2" and "text_at z1 0 cs []"
  shows "text_at z2 z ds j2 \<Longrightarrow> i < length ds \<Longrightarrow> prefix cs (drop i ds) \<Longrightarrow> substr_loop z1 z2 z c = None"
proof (induction ds arbitrary: z c i)
  case (Cons d ds)
  note t = text_at_Cons [OF Cons.prems(1)]
  show ?case
  proof (cases "prefix cs (d # ds)")
    case True
    then show ?thesis using t compare_chars_past [OF assms(2) Cons.prems(1)] by (subst substr_loop.simps) (simp add: text_char_def)
  next
    case False
    then obtain i' where i: "i = Suc i'" using Cons.prems(3) by (cases i) auto
    obtain v where "v \<noteq> 0" "compare_chars z1 0 z2 z = Some v" using compare_chars_before [OF assms Cons.prems(1) False] by blast
    then show ?thesis using t Cons.IH [OF t(2), of i' "c + 1"] Cons.prems(2,3) i by (subst substr_loop.simps) (simp add: text_char_def)
  qed
qed simp

text \<open>C35: When the memory of a text ends with its zero octet, \<^verbatim>\<open>rightstr\<close> with a negative count and \<^verbatim>\<open>charindex\<close> on each text that it finds read beyond that
  memory, and so does every function that reads a text which ends in the first octet of a longer character; \<^verbatim>\<open>strfilter\<close> writes beyond its buffer
  when an invalid octet of the first text meets an invalid sequence of three or more octets in the second.\<close>

theorem ext_overreads:
  assumes "is_text v cs []" and "is_text w ds junk" and "slack junk" and "cs \<noteq> []" and "value_type n \<noteq> SQLITE_NULL"
    and "value_int n < 0" and "int (length cs) - value_int n < 2 ^ 31"
  shows "rightFunc fresh v n = None \<and>
    (\<forall>i < length ds. prefix cs (drop i ds) \<longrightarrow> charindexFunc v w None = None) \<and>
    (\<forall>b. 224 \<le> unat b \<and> unat b < 248 \<longrightarrow> sqlite3ReadUtf8 [b, 0] 0 = None) \<and>
    (\<forall>k \<ge> 2. \<forall>zo. length zo = 2 \<longrightarrow> strfilter_loop [0xFF, 0] (0xFF # replicate k 0x80 @ [0]) 0 zo 0 = None)"
proof (intro conjI allI impI)
  obtain mem where t: "value_text v = Some mem" "text_at mem 0 cs []" "value_type v \<noteq> SQLITE_NULL" using is_textD [OF assms(1)] by blast
  obtain mem' where t': "value_text w = Some mem'" "text_at mem' 0 ds junk" "value_type w \<noteq> SQLITE_NULL" using is_textD [OF assms(2)] by blast
  have w: "signed_take_bit 31 (int (length cs) - value_int n) = int (length cs) - value_int n"
    by (rule signed_take_bit_int_eq_self) (use assms(6,7) in simp_all)
  have "next_chars mem 0 (nat (int (length cs) - value_int n)) = None" using assms(6) by (intro next_chars_past [OF t(2)]) simp
  moreover have "(if int (length cs) - value_int n < 0 then 0 else int (length cs) - value_int n) = int (length cs) - value_int n" using assms(6) by simp
  moreover have "count_chars mem 0 0 = Some (length (utf8 cs), int (length cs))" using count_chars_text [OF t(2), of 0] by simp
  ultimately show "rightFunc fresh v n = None"
    unfolding rightFunc_def using t assms(5) by (simp only: if_False option.case option.simps bind.simps prod.case Let_def simp_thms w)
  show "charindexFunc v w None = None" if "i < length ds" "prefix cs (drop i ds)" for i
  proof -
    have "substr_loop mem mem' 0 0 = None" by (rule substr_loop_past [OF assms(3) t(2) t'(2) that])
    moreover have "skip_chars mem' 0 0 0 = Some 0" using skip_chars_text [OF t'(2), of 0 0] by simp
    moreover obtain b where "at mem 0 = Some b" "b \<noteq> 0" using first_octet [OF t(2) assms(4)] by blast
    ultimately show ?thesis using t t' by (simp add: charindexFunc_def substr_def)
  qed
  show "sqlite3ReadUtf8 [b, 0] 0 = None" if "224 \<le> unat b \<and> unat b < 248" for b :: u8
  proof (cases "unat b < 240")
    case True
    then show ?thesis using that xtra_table(3) [of b] by (simp add: sqlite3ReadUtf8_def EXTFUNC_READ_UTF8_def at_def numeral_2_eq_2)
  next
    case False
    then show ?thesis using that xtra_table(4) [of b] by (simp add: sqlite3ReadUtf8_def EXTFUNC_READ_UTF8_def at_def numeral_3_eq_3)
  qed
  show "strfilter_loop [0xFF, 0] (0xFF # replicate k 0x80 @ [0]) 0 zo 0 = None" if k: "2 \<le> k" "length zo = 2" for k zo
  proof -
    let ?z = "0xFF # replicate k 0x80 @ [0] :: bytes"
    have x: "xtra_utf8_bytes ! 255 = 4" by code_simp
    then have r: "sqlite3ReadUtf8 (0xFF # tail) 0 = Some 0xFFFD" for tail by (simp add: sqlite3ReadUtf8_def EXTFUNC_READ_UTF8_def at_def)
    then have "find_char ?z 0 0xFFFD = Some (0, 0xFFFD)" by (subst find_char.simps) simp
    moreover have "sqliteNextChar ?z 0 = Some (0 + 1 + length (replicate k (0x80 :: u8)))"
      by (rule run_conts(1) [of _ _ _ 0 "[]"]) (simp_all add: is_cont_def list_all_iff)
    moreover have "c_strncpy zo 0 ?z 0 (Suc k) = None" using k by (simp add: c_strncpy_def put_octets_def Let_def)
    ultimately show ?thesis using r by (subst strfilter_loop.simps) simp
  qed
qed

theorem ext_overreads_witness:
  "rightFunc sample_fresh (sample_text [0x62, 0]) (sample_int (- 1)) = None \<and>
   charindexFunc (sample_text [0x62, 0]) (sample_text [0x62, 0, 0]) None = None"
  using ext_overreads [of "sample_text [0x62, 0]" "[0x62]" "sample_text [0x62, 0, 0]" "[0x62]" "[0]" "sample_int (- 1)" sample_fresh]
  by (simp add: sample_simps slack_def is_cont_def)

text \<open>\<^verbatim>\<open>proper\<close> keeps the length of a text and turns each octet to upper case that is the first one or follows a blank, and each other one to lower
  case.\<close>

theorem ext_proper:
  assumes "allocates fresh" and "value_type v \<noteq> SQLITE_NULL" and "value_text v = Some (s @ 0 # junk)" and "0 \<notin> set s" and "int (length s) + 1 < 2 ^ 31"
  shows "\<exists>s'. properFunc fresh v = Some (R_text s') \<and> length s' = length s \<and>
    (\<forall>i < length s. s' ! i = (if i = 0 \<or> c_isblank (s ! (i - 1)) then c_toupper (s ! i) else c_tolower (s ! i)))"
proof -
  obtain zo where zo: "sqlite3_malloc fresh (int (length s) + 1) = Some zo" "int (length zo) = int (length s) + 1"
    using malloc_ok [OF assms(1), of "int (length s) + 1"] assms(5) by auto
  have "c_strcpy zo 0 (s @ 0 # junk) 0 = Some (s @ [0])" using strcpy_zero [OF assms(4), of 0 zo junk] zo(2) by simp
  then have dup: "sqlite3StrDup fresh (s @ 0 # junk) = Some (s @ [0])" using zo(1) assms(4) by (simp add: sqlite3StrDup_def c_length_def c_string_zero)
  obtain s' where s': "proper_loop (s @ 0 # junk) 0 (s @ [0]) 0 True = Some (s' @ [0])" "length s' = length s"
      "\<forall>i < length s. s' ! i = (if (if i = 0 then True else c_isblank (s ! (i - 1))) then c_toupper (s ! i) else c_tolower (s ! i))"
    using proper_loop_run [OF assms(4), of 0 "s @ 0 # junk" junk "s @ [0]" "[]" True] by auto
  have "s' ! i \<noteq> 0" if "i < length s" for i
  proof -
    have "s ! i \<noteq> 0" using that assms(4) nth_mem by fastforce
    then have "c_toupper (s ! i) \<noteq> 0 \<and> c_tolower (s ! i) \<noteq> 0" by (rule case_nonzero)
    then show ?thesis using s'(3) that by auto
  qed
  then have "0 \<notin> set s'" using s'(2) by (auto simp: in_set_conv_nth)
  then have "properFunc fresh v = Some (R_text s')" using assms(2,3) dup s'(1) result_text_at [of s' "[]"] by (simp add: properFunc_def)
  then show ?thesis using s'(2,3) by (intro exI [of _ s']) auto
qed

text \<open>\<^verbatim>\<open>difference\<close> is the number of equal places in the soundex values of two texts, each a letter or question mark and three digits.\<close>

theorem ext_difference:
  assumes "value_type v \<noteq> SQLITE_NULL" and "value_text v = Some s" and "0 \<in> set s" and "value_type w \<noteq> SQLITE_NULL" and "value_text w = Some t" and "0 \<in> set t"
  shows "\<exists>a b. soundex s = Some a \<and> soundex t = Some b \<and> soundex_value a \<and> soundex_value b \<and>
    differenceFunc v w = Some (R_int (int (length (filter (\<lambda>(x, y). x = y) (zip (take 4 a) (take 4 b))))))"
proof -
  obtain a where a: "soundex s = Some a" "soundex_value a" using soundex_ok [OF assms(3)] by blast
  obtain b where b: "soundex t = Some b" "soundex_value b" using soundex_ok [OF assms(6)] by blast
  have len: "length (take 4 a) = 4" "length (take 4 b) = 4" using a(2) b(2) by (auto simp: soundex_value_def)
  have "zip (map uint xs) (map uint ys) = map (map_prod uint uint) (zip xs ys)" for xs ys :: bytes by (simp add: zip_map_map map_prod_def)
  then have e: "length (filter (\<lambda>(x, y). x = y) (zip (map uint xs) (map uint ys))) = length (filter (\<lambda>(x, y). x = y) (zip xs ys))" for xs ys :: bytes
    by (simp add: filter_map o_def case_prod_unfold flip: word_uint_eq_iff)
  from difference_loop_text [OF soundex_text [OF a(2)] soundex_text [OF b(2)], of 0] len
  have "difference_loop a 0 b 0 4 0 = Some (int (length (filter (\<lambda>(x, y). x = y) (zip (take 4 a) (take 4 b)))))" by (simp add: e)
  then show ?thesis using assms a b by (simp add: differenceFunc_def)
qed

theorem ext_difference_witness:
  "\<exists>a b. soundex [0x62, 0] = Some a \<and> soundex [0x61, 0] = Some b \<and> soundex_value a \<and> soundex_value b \<and>
    differenceFunc (sample_text [0x62, 0]) (sample_text [0x61, 0]) = Some (R_int (int (length (filter (\<lambda>(x, y). x = y) (zip (take 4 a) (take 4 b))))))"
  by (rule ext_difference) (simp_all add: sample_simps)

theorem ext_proper_witness:
  "\<exists>s'. properFunc sample_fresh (sample_text [0x62, 0x20, 0x62, 0x61, 0]) = Some (R_text s') \<and> length s' = length [0x62, 0x20, 0x62, 0x61 :: u8] \<and>
    (\<forall>i < length [0x62, 0x20, 0x62, 0x61 :: u8]. s' ! i = (if i = 0 \<or> c_isblank ([0x62, 0x20, 0x62, 0x61] ! (i - 1))
       then c_toupper ([0x62, 0x20, 0x62, 0x61] ! i) else c_tolower ([0x62, 0x20, 0x62, 0x61] ! i)))"
  by (rule ext_proper [OF sample_allocates, of _ _ "[]"]) (simp_all add: sample_simps)

end
