(* ===== verification/Ext_Aggregates.thy ===== *)
theory Ext_Aggregates
  imports Complex_Main Ext_Strings
begin

text \<open>
  The aggregate functions of \<^verbatim>\<open>extensionfunctions.c\<close>: \<open>variance\<close> and \<open>stdev\<close>, and \<open>mode\<close>, \<open>median\<close> and the quartiles over a binary tree of
  the values with their numbers of occurrences. The type \<open>'d\<close> stands for \<^verbatim>\<open>double\<close>, with its operations as an argument. \<open>None\<close> is an access through
  a null pointer after an allocation that failed. The counters of 64 bits are integers, as they count rows.
\<close>

section \<open>Double arithmetic\<close>

record 'd double_ops =
  d_of_int :: "int \<Rightarrow> 'd"
  d_add :: "'d \<Rightarrow> 'd \<Rightarrow> 'd"
  d_sub :: "'d \<Rightarrow> 'd \<Rightarrow> 'd"
  d_mul :: "'d \<Rightarrow> 'd \<Rightarrow> 'd"
  d_div :: "'d \<Rightarrow> 'd \<Rightarrow> 'd"
  d_sqrt :: "'d \<Rightarrow> 'd"
  d_eq :: "'d \<Rightarrow> 'd \<Rightarrow> bool"
  d_less :: "'d \<Rightarrow> 'd \<Rightarrow> bool"
  d_ge :: "'d \<Rightarrow> 'd \<Rightarrow> bool"

section \<open>The tree\<close>

datatype 'a node = Null_node | Node "'a node" "'a node" 'a int

record 'a hmap =
  map_base :: "'a node"
  map_cmp :: "'a \<Rightarrow> 'a \<Rightarrow> int"

definition map_make :: "('a \<Rightarrow> 'a \<Rightarrow> int) \<Rightarrow> 'a hmap" where
  "map_make f = \<lparr>map_base = Null_node, map_cmp = f\<rparr>"

text \<open>\<open>ok\<close>: whether \<^verbatim>\<open>xcalloc\<close> succeeds; its result is used without a test.\<close>

fun node_insert :: "bool \<Rightarrow> ('a \<Rightarrow> 'a \<Rightarrow> int) \<Rightarrow> 'a node \<Rightarrow> 'a \<Rightarrow> 'a node option" where
  "node_insert ok cmp Null_node e = (if ok then Some (Node Null_node Null_node e 1) else None)"
| "node_insert ok cmp (Node l r data count) e =
     (let c = cmp data e
      in if 0 = c then Some (Node l r data (count + 1))
         else if c > 0 then map_option (\<lambda>l'. Node l' r data count) (node_insert ok cmp l e)
         else map_option (\<lambda>r'. Node l r' data count) (node_insert ok cmp r e))"

definition map_insert :: "bool \<Rightarrow> 'a hmap \<Rightarrow> 'a \<Rightarrow> 'a hmap option" where
  "map_insert ok m e = map_option (\<lambda>n. m\<lparr>map_base := n\<rparr>) (node_insert ok (map_cmp m) (map_base m) e)"

fun node_iterate :: "('a \<Rightarrow> int \<Rightarrow> 'p \<Rightarrow> 'p) \<Rightarrow> 'a node \<Rightarrow> 'p \<Rightarrow> 'p" where
  "node_iterate iter Null_node p = p"
| "node_iterate iter (Node l r data count) p = node_iterate iter r (iter data count (node_iterate iter l p))"

definition map_iterate :: "('a \<Rightarrow> int \<Rightarrow> 'p \<Rightarrow> 'p) \<Rightarrow> 'a hmap \<Rightarrow> 'p \<Rightarrow> 'p" where
  "map_iterate iter m p = node_iterate iter (map_base m) p"

definition int_cmp :: "int \<Rightarrow> int \<Rightarrow> int" where
  "int_cmp aa bb = (if aa = bb then 0 else if aa < bb then - 1 else 1)"

definition double_cmp :: "'d double_ops \<Rightarrow> 'd \<Rightarrow> 'd \<Rightarrow> int" where
  "double_cmp ops aa bb = (if d_eq ops aa bb then 0 else if d_less ops aa bb then - 1 else 1)"

section \<open>variance and stdev\<close>

record 'd StdevCtx =
  rM :: 'd
  rS :: 'd
  sd_cnt :: int

definition stdev_zero :: "'d double_ops \<Rightarrow> 'd StdevCtx" where
  "stdev_zero ops = \<lparr>rM = d_of_int ops 0, rS = d_of_int ops 0, sd_cnt = 0\<rparr>"

definition varianceStep :: "'d double_ops \<Rightarrow> 'd StdevCtx option \<Rightarrow> 'd sqlite3_value \<Rightarrow> 'd StdevCtx option" where
  "varianceStep ops ctx v =
     (let p = (case ctx of None \<Rightarrow> stdev_zero ops | Some p \<Rightarrow> p)
      in if value_numeric_type v \<noteq> SQLITE_NULL
         then let cnt = sd_cnt p + 1;
                  x = value_double v;
                  delta = d_sub ops x (rM p);
                  m = d_add ops (rM p) (d_div ops delta (d_of_int ops cnt));
                  s = d_add ops (rS p) (d_mul ops delta (d_sub ops x m))
              in Some \<lparr>rM = m, rS = s, sd_cnt = cnt\<rparr>
         else Some p)"

definition varianceFinalize :: "'d double_ops \<Rightarrow> 'd StdevCtx option \<Rightarrow> 'd sql_result" where
  "varianceFinalize ops ctx =
     (case ctx of Some p \<Rightarrow> if sd_cnt p > 1 then R_double (d_div ops (rS p) (d_of_int ops (sd_cnt p - 1))) else R_double (d_of_int ops 0)
      | None \<Rightarrow> R_double (d_of_int ops 0))"

definition stdevFinalize :: "'d double_ops \<Rightarrow> 'd StdevCtx option \<Rightarrow> 'd sql_result" where
  "stdevFinalize ops ctx =
     (case ctx of Some p \<Rightarrow> if sd_cnt p > 1 then R_double (d_sqrt ops (d_div ops (rS p) (d_of_int ops (sd_cnt p - 1)))) else R_double (d_of_int ops 0)
      | None \<Rightarrow> R_double (d_of_int ops 0))"

section \<open>mode, median and quartiles\<close>

text \<open>A map of a context holds 64-bit integers, compared with \<open>int_cmp\<close>, or doubles, compared with \<open>double_cmp\<close>.\<close>

datatype 'd hist = Int_map "int hmap" | Double_map "'d hmap"

record 'd ModeCtx =
  riM :: int
  rdM :: 'd
  md_cnt :: int
  pcnt :: 'd
  mcnt :: int
  mn :: int
  is_double :: int
  md_m :: "'d hist option"
  md_done :: int

definition mode_zero :: "'d double_ops \<Rightarrow> 'd ModeCtx" where
  "mode_zero ops = \<lparr>riM = 0, rdM = d_of_int ops 0, md_cnt = 0, pcnt = d_of_int ops 0, mcnt = 0, mn = 0, is_double = 0, md_m = None, md_done = 0\<rparr>"

text \<open>\<open>ok 0\<close>, \<open>ok 1\<close> and \<open>ok 2\<close>: whether the allocations of the map, the element and its node succeed.\<close>

definition modeStep :: "'d double_ops \<Rightarrow> (nat \<Rightarrow> bool) \<Rightarrow> 'd ModeCtx option \<Rightarrow> 'd sqlite3_value \<Rightarrow> 'd ModeCtx option option" where
  "modeStep ops ok ctx v =
     (if value_numeric_type v = SQLITE_NULL then Some ctx
      else let p = (case ctx of None \<Rightarrow> mode_zero ops | Some p \<Rightarrow> p)
           in do {
                p1 \<leftarrow> (case md_m p of
                         None \<Rightarrow> if \<not> ok 0 then None
                                 else if value_numeric_type v = SQLITE_INTEGER
                                      then Some (p\<lparr>md_m := Some (Int_map (map_make int_cmp)), is_double := 0\<rparr>)
                                      else Some (p\<lparr>md_m := Some (Double_map (map_make (double_cmp ops))), is_double := 1\<rparr>)
                       | Some _ \<Rightarrow> Some p);
                let p2 = p1\<lparr>md_cnt := md_cnt p1 + 1\<rparr>;
                if \<not> ok 1 then None
                else case md_m p2 of
                       Some (Int_map h) \<Rightarrow> do { h' \<leftarrow> map_insert (ok 2) h (value_int64 v); Some (Some (p2\<lparr>md_m := Some (Int_map h')\<rparr>)) }
                     | Some (Double_map h) \<Rightarrow> do { h' \<leftarrow> map_insert (ok 2) h (value_double v); Some (Some (p2\<lparr>md_m := Some (Double_map h')\<rparr>)) }
                     | None \<Rightarrow> None
              })"

text \<open>The iterators read an integer element through a pointer to \<^verbatim>\<open>int\<close>: on a little-endian machine its low 32 bits.\<close>

definition modeIterate_int :: "int \<Rightarrow> int \<Rightarrow> 'd ModeCtx \<Rightarrow> 'd ModeCtx" where
  "modeIterate_int e c p =
     (if mcnt p = c then p\<lparr>mn := mn p + 1\<rparr>
      else if mcnt p < c then p\<lparr>riM := signed_take_bit 31 e, mcnt := c, mn := 1\<rparr> else p)"

definition modeIterate_double :: "'d \<Rightarrow> int \<Rightarrow> 'd ModeCtx \<Rightarrow> 'd ModeCtx" where
  "modeIterate_double e c p =
     (if mcnt p = c then p\<lparr>mn := mn p + 1\<rparr>
      else if mcnt p < c then p\<lparr>rdM := e, mcnt := c, mn := 1\<rparr> else p)"

definition medianIterate_with :: "'d double_ops \<Rightarrow> ('d ModeCtx \<Rightarrow> 'd ModeCtx) \<Rightarrow> int \<Rightarrow> 'd ModeCtx \<Rightarrow> 'd ModeCtx" where
  "medianIterate_with ops add c p =
     (if md_done p > 0 then p
      else let iL = pcnt p;
               iR = d_sub ops (d_of_int ops (md_cnt p)) (pcnt p);
               il = signed_take_bit 31 (mcnt p + c);
               ir = signed_take_bit 31 (md_cnt p - mcnt p);
               p1 = (if d_ge ops (d_of_int ops il) iL
                     then if d_ge ops (d_of_int ops ir) iR then add (p\<lparr>mn := mn p + 1\<rparr>) else p\<lparr>md_done := 1\<rparr>
                     else p)
           in p1\<lparr>mcnt := mcnt p1 + c\<rparr>)"

definition medianIterate_int :: "'d double_ops \<Rightarrow> int \<Rightarrow> int \<Rightarrow> 'd ModeCtx \<Rightarrow> 'd ModeCtx" where
  "medianIterate_int ops e = medianIterate_with ops (\<lambda>p. p\<lparr>riM := riM p + signed_take_bit 31 e\<rparr>)"

definition medianIterate_double :: "'d double_ops \<Rightarrow> 'd \<Rightarrow> int \<Rightarrow> 'd ModeCtx \<Rightarrow> 'd ModeCtx" where
  "medianIterate_double ops e = medianIterate_with ops (\<lambda>p. p\<lparr>rdM := d_add ops (rdM p) e\<rparr>)"

definition modeFinalize :: "'d ModeCtx option \<Rightarrow> 'd sql_result" where
  "modeFinalize ctx =
     (case ctx of None \<Rightarrow> R_none
      | Some p \<Rightarrow>
          (case md_m p of None \<Rightarrow> R_none
           | Some m \<Rightarrow>
               let p' = (case m of Int_map h \<Rightarrow> map_iterate modeIterate_int h p | Double_map h \<Rightarrow> map_iterate modeIterate_double h p)
               in if 1 = mn p' then if 0 = is_double p' then R_int64 (riM p') else R_double (rdM p')
                  else R_none))"

definition percentileFinalize :: "'d double_ops \<Rightarrow> 'd ModeCtx \<Rightarrow> 'd sql_result" where
  "percentileFinalize ops p =
     (case md_m p of None \<Rightarrow> R_none
      | Some m \<Rightarrow>
          let p0 = p\<lparr>md_done := 0\<rparr>;
              p' = (case m of Int_map h \<Rightarrow> map_iterate (medianIterate_int ops) h p0 | Double_map h \<Rightarrow> map_iterate (medianIterate_double ops) h p0)
          in if 0 = is_double p'
             then if 1 = mn p' then R_int64 (riM p')
                  else R_double (d_div ops (d_mul ops (d_of_int ops (riM p')) (d_of_int ops 1)) (d_of_int ops (mn p')))
             else R_double (d_div ops (rdM p') (d_of_int ops (mn p'))))"

definition medianFinalize :: "'d double_ops \<Rightarrow> 'd ModeCtx option \<Rightarrow> 'd sql_result" where
  "medianFinalize ops ctx =
     (case ctx of None \<Rightarrow> R_none | Some p \<Rightarrow> percentileFinalize ops (p\<lparr>pcnt := d_div ops (d_of_int ops (md_cnt p)) (d_of_int ops 2)\<rparr>))"

definition lower_quartileFinalize :: "'d double_ops \<Rightarrow> 'd ModeCtx option \<Rightarrow> 'd sql_result" where
  "lower_quartileFinalize ops ctx =
     (case ctx of None \<Rightarrow> R_none | Some p \<Rightarrow> percentileFinalize ops (p\<lparr>pcnt := d_div ops (d_of_int ops (md_cnt p)) (d_of_int ops 4)\<rparr>))"

definition upper_quartileFinalize :: "'d double_ops \<Rightarrow> 'd ModeCtx option \<Rightarrow> 'd sql_result" where
  "upper_quartileFinalize ops ctx =
     (case ctx of None \<Rightarrow> R_none | Some p \<Rightarrow> percentileFinalize ops (p\<lparr>pcnt := d_div ops (d_of_int ops (md_cnt p * 3)) (d_of_int ops 4)\<rparr>))"

section \<open>The tree as a table of numbers of occurrences\<close>

fun items :: "'a node \<Rightarrow> ('a \<times> int) list" where
  "items Null_node = []"
| "items (Node l r data count) = items l @ (data, count) # items r"

lemma node_iterate_items: "node_iterate iter n p = fold (\<lambda>(e, c). iter e c) (items n) p"
  by (induction n arbitrary: p) simp_all

fun ins_item :: "'a::linorder \<Rightarrow> ('a \<times> int) list \<Rightarrow> ('a \<times> int) list" where
  "ins_item x [] = [(x, 1)]"
| "ins_item x ((a, c) # xs) = (if x < a then (x, 1) # (a, c) # xs else if x = a then (a, c + 1) # xs else (a, c) # ins_item x xs)"

definition three_way :: "('a::linorder \<Rightarrow> 'a \<Rightarrow> int) \<Rightarrow> bool" where
  "three_way cmp \<longleftrightarrow> (\<forall>a b. (cmp a b = 0 \<longleftrightarrow> a = b) \<and> (cmp a b > 0 \<longleftrightarrow> a > b))"

lemma ins_item_append:
  "\<forall>y \<in> set xs. fst y < a \<Longrightarrow> ins_item x (xs @ (a, c) # ys) = (if x < a then ins_item x xs @ (a, c) # ys else xs @ ins_item x ((a, c) # ys))"
  by (induction x xs rule: ins_item.induct) auto

lemma node_insert_items:
  assumes "three_way cmp"
  shows "sorted_wrt (<) (map fst (items n)) \<Longrightarrow> \<exists>n'. node_insert True cmp n e = Some n' \<and> items n' = ins_item e (items n)"
proof (induction n)
  case (Node l r d c)
  have s: "sorted_wrt (<) (map fst (items l))" "sorted_wrt (<) (map fst (items r))" "\<forall>y \<in> set (items l). fst y < d"
    using Node.prems by (auto simp: sorted_wrt_append)
  consider "cmp d e = 0" "d = e" | "cmp d e > 0" "e < d" | "cmp d e < 0" "d < e"
    using assms unfolding three_way_def by (metis linorder_cases)
  then show ?case
    by cases (use Node.IH s ins_item_append [OF s(3), of e c "items r"] in auto)
qed simp

lemma ins_item_keys: "set (map fst (ins_item x xs)) = insert x (set (map fst xs))"
  by (induction x xs rule: ins_item.induct) auto

lemma ins_item_sorted: "sorted_wrt (<) (map fst xs) \<Longrightarrow> sorted_wrt (<) (map fst (ins_item x xs))"
proof (induction x xs rule: ins_item.induct)
  case (2 x a c xs)
  then show ?case using ins_item_keys [of x xs] by (auto simp flip: set_map)
qed simp

text \<open>The table of a list of values: each value once, in increasing order, with its number of occurrences.\<close>

definition table_of :: "'a::linorder list \<Rightarrow> ('a \<times> int) list" where
  "table_of xs = map (\<lambda>v. (v, int (count_list xs v))) (sorted_list_of_set (set xs))"

lemma table_unique:
  assumes "sorted_wrt (<) (map fst t)" and "fst ` set t = set xs" and "\<And>v c. (v, c) \<in> set t \<Longrightarrow> c = int (count_list xs v)"
  shows "t = table_of xs"
proof -
  have "map fst t = sorted_list_of_set (set xs)"
    using assms(1,2) strict_sorted_equal [OF assms(1), of "sorted_list_of_set (set xs)"] by simp
  moreover have "map (\<lambda>v. (v, int (count_list xs v))) (map fst t) = t" unfolding map_map by (rule map_idI) (use assms(3) in force)
  ultimately show ?thesis by (simp add: table_of_def)
qed

lemma table_props: "sorted_wrt (<) (map fst (table_of xs))" "fst ` set (table_of xs) = set xs" "(v, c) \<in> set (table_of xs) \<Longrightarrow> c = int (count_list xs v)"
  by (auto simp: table_of_def o_def image_iff)

lemma ins_item_mem:
  "sorted_wrt (<) (map fst t) \<Longrightarrow> (v, k) \<in> set (ins_item x t) \<Longrightarrow>
   v \<noteq> x \<and> (v, k) \<in> set t \<or> v = x \<and> ((x, k - 1) \<in> set t \<or> x \<notin> fst ` set t \<and> k = 1)"
  by (induction x t rule: ins_item.induct) (auto split: if_splits)

lemma table_of_Cons: "table_of (x # xs) = ins_item x (table_of xs)"
proof (rule table_unique [symmetric])
  show "sorted_wrt (<) (map fst (ins_item x (table_of xs)))" by (rule ins_item_sorted) (rule table_props)
  show "fst ` set (ins_item x (table_of xs)) = set (x # xs)" using ins_item_keys [of x "table_of xs"] table_props(2) [of xs] by simp
  show "c = int (count_list (x # xs) v)" if "(v, c) \<in> set (ins_item x (table_of xs))" for v c
    using ins_item_mem [OF table_props(1) that] table_props(2) [of xs] by (auto dest!: table_props(3) simp: count_list_0_iff)
qed

text \<open>The interface of the tree: a store of values, seen as its table. Inserting the values of a list one after the other gives the table of that list.\<close>

locale occurrence_store =
  fixes init :: 'm and ins :: "'m \<Rightarrow> 'a::linorder \<Rightarrow> 'm option" and view :: "'m \<Rightarrow> ('a \<times> int) list" and ok :: "'m \<Rightarrow> bool"
  assumes ok_init: "ok init" and view_init: "view init = []"
    and ok_ins: "ok m \<Longrightarrow> sorted_wrt (<) (map fst (view m)) \<Longrightarrow> \<exists>m'. ins m x = Some m' \<and> ok m' \<and> view m' = ins_item x (view m)"
begin

lemma ins_table:
  assumes "ok m" and "view m = table_of xs"
  obtains m' where "ins m x = Some m'" and "ok m'" and "view m' = table_of (x # xs)"
  using ok_ins [OF assms(1), of x] assms(2) table_props(1) [of xs] by (auto simp: table_of_Cons)

lemma ins_all:
  "\<exists>m. foldl (\<lambda>m x. case m of None \<Rightarrow> None | Some h \<Rightarrow> ins h x) (Some init) xs = Some m \<and> ok m \<and> view m = table_of (rev xs)"
proof (induction xs rule: rev_induct)
  case Nil
  then show ?case using ok_init view_init by (simp add: table_of_def)
next
  case (snoc x xs)
  then obtain m where m: "foldl (\<lambda>m x. case m of None \<Rightarrow> None | Some h \<Rightarrow> ins h x) (Some init) xs = Some m" "ok m" "view m = table_of (rev xs)" by blast
  from ins_table [OF m(2,3), of x] obtain m' where "ins m x = Some m'" "ok m'" "view m' = table_of (x # rev xs)" by blast
  with m(1) show ?case by simp
qed

end

lemma three_way_int: "three_way int_cmp"
  by (auto simp: three_way_def int_cmp_def)

lemma tree_store:
  assumes "three_way f"
  shows "occurrence_store (map_make f) (map_insert True) (\<lambda>m. items (map_base m)) (\<lambda>m. map_cmp m = f)"
proof
  fix m :: "'a hmap" and x
  assume m: "map_cmp m = f" "sorted_wrt (<) (map fst (items (map_base m)))"
  then obtain n where "node_insert True f (map_base m) x = Some n" "items n = ins_item x (items (map_base m))"
    using node_insert_items [OF assms] by blast
  with m(1) show "\<exists>m'. map_insert True m x = Some m' \<and> map_cmp m' = f \<and> items (map_base m') = ins_item x (items (map_base m))"
    by (simp add: map_insert_def)
qed (simp_all add: map_make_def)

interpretation int_store: occurrence_store "map_make int_cmp" "map_insert True" "\<lambda>m. items (map_base m)" "\<lambda>m. map_cmp m = int_cmp"
  by (rule tree_store) (rule three_way_int)

section \<open>Rows\<close>

fun mode_steps :: "'d double_ops \<Rightarrow> (nat \<Rightarrow> bool) \<Rightarrow> 'd ModeCtx option \<Rightarrow> 'd sqlite3_value list \<Rightarrow> 'd ModeCtx option option" where
  "mode_steps ops ok ctx [] = Some ctx"
| "mode_steps ops ok ctx (v # vs) = do { ctx' \<leftarrow> modeStep ops ok ctx v; mode_steps ops ok ctx' vs }"

text \<open>The rows whose value is not NULL; the type of the first one decides that the integers \<open>xs\<close> are collected.\<close>

definition int_rows :: "'d sqlite3_value list \<Rightarrow> int list \<Rightarrow> bool" where
  "int_rows vs xs \<longleftrightarrow> (\<exists>u us. filter (\<lambda>v. value_numeric_type v \<noteq> SQLITE_NULL) vs = u # us \<and> value_numeric_type u = SQLITE_INTEGER \<and>
     xs = map value_int64 (u # us))"

definition collected :: "'d double_ops \<Rightarrow> int list \<Rightarrow> 'd ModeCtx \<Rightarrow> bool" where
  "collected ops xs p \<longleftrightarrow> (\<exists>n. items n = table_of xs \<and>
     p = (mode_zero ops)\<lparr>md_cnt := int (length xs), md_m := Some (Int_map \<lparr>map_base = n, map_cmp = int_cmp\<rparr>)\<rparr>)"

lemma collected_step:
  assumes "collected ops xs p" and "value_numeric_type v \<noteq> SQLITE_NULL"
  shows "\<exists>p'. modeStep ops (\<lambda>_. True) (Some p) v = Some (Some p') \<and> collected ops (value_int64 v # xs) p'"
proof -
  obtain n where n: "items n = table_of xs"
      "p = (mode_zero ops)\<lparr>md_cnt := int (length xs), md_m := Some (Int_map \<lparr>map_base = n, map_cmp = int_cmp\<rparr>)\<rparr>"
    using assms(1) by (auto simp: collected_def)
  obtain h where h: "map_insert True \<lparr>map_base = n, map_cmp = int_cmp\<rparr> (value_int64 v) = Some h" "map_cmp h = int_cmp"
      "items (map_base h) = table_of (value_int64 v # xs)"
    using int_store.ins_table [of "\<lparr>map_base = n, map_cmp = int_cmp\<rparr>" xs "value_int64 v"] n(1) by auto
  then obtain n' where "h = \<lparr>map_base = n', map_cmp = int_cmp\<rparr>" "items n' = table_of (value_int64 v # xs)" by (cases h) simp
  then show ?thesis using assms(2) n(2) h(1) by (auto simp: modeStep_def collected_def add.commute Let_def intro!: exI [of _ n'])
qed

lemma collected_steps:
  "collected ops xs p \<Longrightarrow> \<exists>p'. mode_steps ops (\<lambda>_. True) (Some p) vs = Some (Some p') \<and>
     collected ops (rev (map value_int64 (filter (\<lambda>v. value_numeric_type v \<noteq> SQLITE_NULL) vs)) @ xs) p'"
proof (induction vs arbitrary: xs p)
  case (Cons v vs)
  show ?case
  proof (cases "value_numeric_type v = SQLITE_NULL")
    case True
    then show ?thesis using Cons by (simp add: modeStep_def)
  next
    case False
    then obtain p' where "modeStep ops (\<lambda>_. True) (Some p) v = Some (Some p')" "collected ops (value_int64 v # xs) p'"
      using collected_step [OF Cons.prems] by blast
    with False Cons.IH [of "value_int64 v # xs" p'] show ?thesis by simp
  qed
qed simp

lemma collected_rev: "collected ops (rev xs) p \<Longrightarrow> collected ops xs p"
  by (simp add: collected_def table_of_def)

lemma int_rows_collected:
  assumes "int_rows vs xs"
  obtains p where "mode_steps ops (\<lambda>_. True) None vs = Some (Some p)" and "collected ops xs p" and "xs \<noteq> []"
proof -
  have "\<exists>p. mode_steps ops (\<lambda>_. True) None vs = Some (Some p) \<and> collected ops (rev xs) p" if "int_rows vs xs" for xs
    using that
  proof (induction vs)
    case Nil
    then show ?case by (simp add: int_rows_def)
  next
    case (Cons v vs)
    show ?case
    proof (cases "value_numeric_type v = SQLITE_NULL")
      case True
      with Cons show ?thesis by (simp add: modeStep_def int_rows_def)
    next
      case False
      then have v: "value_numeric_type v = SQLITE_INTEGER" and xs: "xs = value_int64 v # map value_int64 (filter (\<lambda>v. value_numeric_type v \<noteq> SQLITE_NULL) vs)"
        using Cons.prems by (auto simp: int_rows_def)
      have "collected ops [] ((mode_zero ops)\<lparr>md_m := Some (Int_map (map_make int_cmp))\<rparr>)"
        by (auto simp: collected_def mode_zero_def map_make_def table_of_def intro!: exI [of _ Null_node])
      from collected_step [OF this False] obtain p' where
        p': "modeStep ops (\<lambda>_. True) (Some ((mode_zero ops)\<lparr>md_m := Some (Int_map (map_make int_cmp))\<rparr>)) v = Some (Some p')" "collected ops [value_int64 v] p'"
        by blast
      have "modeStep ops (\<lambda>_. True) None v = Some (Some p')" using p'(1) v by (simp add: modeStep_def mode_zero_def SQLITE_INTEGER_def SQLITE_NULL_def Let_def)
      with collected_steps [OF p'(2), of vs] xs show ?thesis by simp
    qed
  qed
  with assms obtain p where "mode_steps ops (\<lambda>_. True) None vs = Some (Some p)" "collected ops (rev xs) p" by blast
  moreover have "xs \<noteq> []" using assms by (auto simp: int_rows_def)
  ultimately show thesis using collected_rev that by blast
qed

section \<open>The most frequent value\<close>

definition mode_inv :: "(int \<times> int) list \<Rightarrow> 'd ModeCtx \<Rightarrow> bool" where
  "mode_inv t p \<longleftrightarrow> (\<forall>(e, c) \<in> set t. c \<le> mcnt p) \<and> mn p = int (length (filter (\<lambda>(e, c). c = mcnt p) t)) \<and> is_double p = 0 \<and>
     (\<exists>e tl. filter (\<lambda>(e, c). c = mcnt p) t = (e, mcnt p) # tl \<and> riM p = signed_take_bit 31 e)"

lemma mode_inv_first: "mcnt p < c \<Longrightarrow> is_double p = 0 \<Longrightarrow> mode_inv [(e, c)] (modeIterate_int e c p)"
  by (simp add: mode_inv_def modeIterate_int_def)

lemma mode_inv_step:
  assumes "mode_inv t p"
  shows "mode_inv (t @ [(e, c)]) (modeIterate_int e c p)"
proof -
  consider "mcnt p = c" | "mcnt p < c" | "mcnt p > c" by linarith
  then show ?thesis
  proof cases
    case 2
    then have "filter (\<lambda>(e, c'). c' = c) t = []" using assms by (auto simp: filter_empty_conv mode_inv_def)
    moreover have "\<forall>(e, c') \<in> set t. c' \<le> c" using 2 assms by (auto simp: mode_inv_def)
    ultimately show ?thesis using 2 assms by (simp add: modeIterate_int_def mode_inv_def)
  qed (use assms in \<open>auto simp: modeIterate_int_def mode_inv_def\<close>)
qed

lemma mode_fold:
  assumes "t \<noteq> []" and "\<And>e c. (e, c) \<in> set t \<Longrightarrow> 0 < c" and "mcnt p = 0" and "is_double p = 0"
  shows "mode_inv t (fold (\<lambda>(e, c). modeIterate_int e c) t p)"
  using assms
proof (induction t rule: rev_nonempty_induct)
  case (single x)
  then show ?case using mode_inv_first [of p] by (cases x) auto
next
  case (snoc x t)
  then have "mode_inv t (fold (\<lambda>(e, c). modeIterate_int e c) t p)" by (intro snoc.IH) auto
  then show ?case using mode_inv_step by (cases x) simp
qed

text \<open>The values that occur most often.\<close>

definition winners :: "int list \<Rightarrow> int list" where
  "winners xs = filter (\<lambda>v. \<forall>w \<in> set xs. count_list xs w \<le> count_list xs v) (sorted_list_of_set (set xs))"

lemma table_filter: "map fst (filter (\<lambda>(e, c). c = m) (table_of xs)) = filter (\<lambda>v. int (count_list xs v) = m) (sorted_list_of_set (set xs))"
  by (simp add: table_of_def filter_map o_def)

lemma mode_collected:
  assumes "collected ops xs p" and "xs \<noteq> []"
  shows "modeFinalize (Some p) = (case winners xs of [v] \<Rightarrow> R_int64 (signed_take_bit 31 v) | _ \<Rightarrow> R_none)"
proof -
  obtain n where n: "items n = table_of xs"
      "p = (mode_zero ops)\<lparr>md_cnt := int (length xs), md_m := Some (Int_map \<lparr>map_base = n, map_cmp = int_cmp\<rparr>)\<rparr>"
    using assms(1) by (auto simp: collected_def)
  let ?p = "fold (\<lambda>(e, c). modeIterate_int e c) (table_of xs) p"
  have "0 < c" if "(e, c) \<in> set (table_of xs)" for e c
    using that by (auto simp: table_of_def count_list_0_iff intro!: gr0I)
  then have inv: "mode_inv (table_of xs) ?p" using n(2) assms(2) by (intro mode_fold) (auto simp: mode_zero_def table_of_def)
  let ?f = "filter (\<lambda>(e, c). c = mcnt ?p) (table_of xs)"
  obtain e tl where e: "?f = (e, mcnt ?p) # tl" "riM ?p = signed_take_bit 31 e" using inv by (auto simp: mode_inv_def)
  then have "(e, mcnt ?p) \<in> set ?f" by simp
  then have top: "mcnt ?p = int (count_list xs e)" "e \<in> set xs" by (auto simp: table_of_def)
  have le: "int (count_list xs v) \<le> mcnt ?p" if "v \<in> set xs" for v using inv that by (auto simp: mode_inv_def table_of_def)
  have "int (count_list xs v) = mcnt ?p \<longleftrightarrow> (\<forall>w \<in> set xs. count_list xs w \<le> count_list xs v)" if "v \<in> set xs" for v
    using le [OF that] le top by (auto intro: antisym)
  then have w: "map fst ?f = winners xs" unfolding table_filter winners_def by (intro filter_cong) auto
  have "map_iterate modeIterate_int \<lparr>map_base = n, map_cmp = int_cmp\<rparr> p = ?p" by (simp add: map_iterate_def node_iterate_items n(1))
  moreover have "md_m p = Some (Int_map \<lparr>map_base = n, map_cmp = int_cmp\<rparr>)" using n(2) by simp
  moreover have "mn ?p = int (length (winners xs))" "is_double ?p = 0" using inv w by (auto simp: mode_inv_def simp flip: w)
  moreover have "winners xs = e # map fst tl" using w e(1) by simp
  ultimately show ?thesis using e(2) by (cases tl) (simp_all add: modeFinalize_def)
qed

section \<open>Quartiles\<close>

text \<open>The parts of the arithmetic of doubles that the integer quartiles rely on: results that are multiples of a quarter and of a
  moderate size are exact. \<open>val\<close> is the value of a double.\<close>

definition quarter :: "real \<Rightarrow> bool" where
  "quarter r \<longleftrightarrow> (\<exists>m::int. r = m / 4 \<and> \<bar>m\<bar> < 2 ^ 53)"

definition exact_quarters :: "'d double_ops \<Rightarrow> ('d \<Rightarrow> real) \<Rightarrow> bool" where
  "exact_quarters ops val \<longleftrightarrow>
     (\<forall>n. quarter (real_of_int n) \<longrightarrow> val (d_of_int ops n) = n) \<and>
     (\<forall>x y. quarter (val x) \<and> quarter (val y) \<and> val y \<noteq> 0 \<and> quarter (val x / val y) \<longrightarrow> val (d_div ops x y) = val x / val y) \<and>
     (\<forall>x y. quarter (val x) \<and> quarter (val y) \<and> quarter (val x - val y) \<longrightarrow> val (d_sub ops x y) = val x - val y) \<and>
     (\<forall>x y. quarter (val x) \<and> quarter (val y) \<longrightarrow> (d_ge ops x y \<longleftrightarrow> val x \<ge> val y))"

lemma quarterI:
  assumes "4 * r = real_of_int m" and "\<bar>m\<bar> < 2 ^ 53"
  shows "quarter r"
  unfolding quarter_def using assms by (intro exI [of _ m]) simp

lemma quarter_int:
  assumes "exact_quarters ops val" and "\<bar>k\<bar> < 2 ^ 51"
  shows "val (d_of_int ops k) = k" "quarter (val (d_of_int ops k))"
proof -
  have "quarter k" using assms(2) by (intro quarterI [of _ "4 * k"]) simp_all
  with assms(1) show "val (d_of_int ops k) = k" "quarter (val (d_of_int ops k))" by (auto simp: exact_quarters_def)
qed

lemma quarter_pcnt:
  assumes ops: "exact_quarters ops val" and a: "\<bar>a\<bar> < 2 ^ 51" and b: "b = 2 \<or> b = 4"
  shows "val (d_div ops (d_of_int ops a) (d_of_int ops b)) = a / b"
proof -
  note q = quarter_int [OF ops]
  have "quarter (real_of_int a / real_of_int b)" using a b by (intro quarterI [of _ "if b = 2 then 2 * a else a"]) auto
  moreover have "val (d_of_int ops a) = a" "quarter (val (d_of_int ops a))" "val (d_of_int ops b) = b" "quarter (val (d_of_int ops b))" "b \<noteq> 0"
    using q [of a] q [of b] a b by auto
  ultimately show ?thesis using ops by (simp add: exact_quarters_def)
qed

lemma quarter_tests:
  assumes ops: "exact_quarters ops val" and P: "val P = real_of_int (q * n) / 4" and n: "0 \<le> n" "n < 2 ^ 31" and q: "0 \<le> q" "q \<le> 4"
    and k: "0 \<le> k" "k \<le> n"
  shows "d_ge ops (d_of_int ops k) P \<longleftrightarrow> q * n \<le> 4 * k"
    "d_ge ops (d_of_int ops k) (d_sub ops (d_of_int ops n) P) \<longleftrightarrow> 4 * n - q * n \<le> 4 * k"
proof -
  have kv: "val (d_of_int ops k) = k" "quarter (val (d_of_int ops k))" using quarter_int [OF ops, of k] k n by auto
  have nv: "val (d_of_int ops n) = n" "quarter (val (d_of_int ops n))" using quarter_int [OF ops, of n] n by auto
  have "0 \<le> q * n" "q * n \<le> 4 * n" using q n by (auto intro: mult_right_mono)
  then have b: "\<bar>q * n\<bar> < 2 ^ 53" "\<bar>4 * n - q * n\<bar> < 2 ^ 53" using n by auto
  have qP: "quarter (val P)" using b(1) P by (intro quarterI [of _ "q * n"]) simp_all
  have "quarter (val (d_of_int ops n) - val P)" unfolding nv(1) P using b(2) by (intro quarterI [of _ "4 * n - q * n"]) simp_all
  then have s: "val (d_sub ops (d_of_int ops n) P) = n - val P" "quarter (val (d_sub ops (d_of_int ops n) P))"
    using ops nv qP by (auto simp: exact_quarters_def)
  have ge: "d_ge ops x y \<longleftrightarrow> val x \<ge> val y" if "quarter (val x)" "quarter (val y)" for x y
    using ops that unfolding exact_quarters_def by blast
  have "d_ge ops (d_of_int ops k) P \<longleftrightarrow> real_of_int (q * n) / 4 \<le> k" using ge [OF kv(2) qP] kv(1) P by simp
  also have "\<dots> \<longleftrightarrow> real_of_int (q * n) \<le> real_of_int (4 * k)" by (simp add: field_simps)
  finally show "d_ge ops (d_of_int ops k) P \<longleftrightarrow> q * n \<le> 4 * k" by (simp only: of_int_le_iff)
  have "d_ge ops (d_of_int ops k) (d_sub ops (d_of_int ops n) P) \<longleftrightarrow> n - real_of_int (q * n) / 4 \<le> k" using ge [OF kv(2) s(2)] kv(1) s(1) P by simp
  also have "\<dots> \<longleftrightarrow> real_of_int (4 * n - q * n) \<le> real_of_int (4 * k)" by (simp add: field_simps)
  finally show "d_ge ops (d_of_int ops k) (d_sub ops (d_of_int ops n) P) \<longleftrightarrow> 4 * n - q * n \<le> 4 * k" by (simp only: of_int_le_iff)
qed

text \<open>The iteration over the values in increasing order: \<open>sel\<close> are the values that are summed up.\<close>

lemma fold_done: "0 < md_done p \<Longrightarrow> fold (\<lambda>(e, c). medianIterate_int ops e c) t p = p"
  by (induction t) (auto simp: medianIterate_int_def medianIterate_with_def)

lemma values_before:
  fixes v :: "'a::linorder"
  assumes "sorted_wrt (<) (D1 @ v # D2)" and "set xs = set (D1 @ v # D2)"
  shows "length (filter (\<lambda>x. x \<in> set D1) xs) = length (filter (\<lambda>x. x < v) xs)"
    "length (filter (\<lambda>x. x \<in> set D1) xs) + count_list xs v = length (filter (\<lambda>x. x \<le> v) xs)"
    "length (filter (\<lambda>x. x \<in> set (D1 @ [v])) xs) = length (filter (\<lambda>x. x \<le> v) xs)"
proof -
  have "x \<in> set D1 \<longleftrightarrow> x < v" "x \<in> set (D1 @ [v]) \<longleftrightarrow> x \<le> v" if "x \<in> set xs" for x
    using that assms by (auto simp: sorted_wrt_append)
  then have f: "filter (\<lambda>x. x \<in> set D1) xs = filter (\<lambda>x. x < v) xs" "filter (\<lambda>x. x \<in> set (D1 @ [v])) xs = filter (\<lambda>x. x \<le> v) xs"
    by (auto intro!: filter_cong)
  then show "length (filter (\<lambda>x. x \<in> set D1) xs) = length (filter (\<lambda>x. x < v) xs)"
    "length (filter (\<lambda>x. x \<in> set (D1 @ [v])) xs) = length (filter (\<lambda>x. x \<le> v) xs)" by (simp_all only:)
  have "length (filter (\<lambda>x. x < v) xs) + count_list xs v = length (filter (\<lambda>x. x \<le> v) xs)" by (induction xs) auto
  then show "length (filter (\<lambda>x. x \<in> set D1) xs) + count_list xs v = length (filter (\<lambda>x. x \<le> v) xs)" by (simp only: f)
qed

lemma median_fold:
  fixes xs :: "int list"
  assumes tests: "\<And>k. 0 \<le> k \<Longrightarrow> k \<le> int (length xs) \<Longrightarrow> d_ge ops (d_of_int ops k) P \<longleftrightarrow> s \<le> 4 * k"
      "\<And>k. 0 \<le> k \<Longrightarrow> k \<le> int (length xs) \<Longrightarrow> d_ge ops (d_of_int ops k) (d_sub ops (d_of_int ops (int (length xs))) P) \<longleftrightarrow> 4 * int (length xs) - s \<le> 4 * k"
    and n: "int (length xs) < 2 ^ 31"
  defines "sel \<equiv> \<lambda>v. s \<le> 4 * int (length (filter (\<lambda>x. x \<le> v) xs)) \<and> 4 * int (length (filter (\<lambda>x. x < v) xs)) \<le> s"
  shows "sorted_wrt (<) (D1 @ D2) \<Longrightarrow> set xs = set (D1 @ D2) \<Longrightarrow> md_done p = 0 \<Longrightarrow> pcnt p = P \<Longrightarrow> md_cnt p = int (length xs) \<Longrightarrow>
    mcnt p = int (length (filter (\<lambda>x. x \<in> set D1) xs)) \<Longrightarrow>
    (let p' = fold (\<lambda>(e, c). medianIterate_int ops e c) (map (\<lambda>v. (v, int (count_list xs v))) D2) p
     in mn p' = mn p + int (length (filter sel D2)) \<and> riM p' = riM p + sum_list (map (signed_take_bit 31) (filter sel D2)) \<and> is_double p' = is_double p)"
proof (induction D2 arbitrary: D1 p)
  case (Cons v D2)
  note b = values_before [OF Cons.prems(1,2)]
  let ?le = "length (filter (\<lambda>x. x \<le> v) xs)" and ?lt = "length (filter (\<lambda>x. x < v) xs)"
  have "int ?le < 2 ^ 31" "int ?lt \<le> int (length xs)"
    using n length_filter_le [of "\<lambda>x. x \<le> v" xs] length_filter_le [of "\<lambda>x. x < v" xs] by linarith+
  then have il: "signed_take_bit 31 (mcnt p + int (count_list xs v)) = int ?le" and ir: "signed_take_bit 31 (md_cnt p - mcnt p) = int (length xs) - int ?lt"
    using b Cons.prems(5,6) n by (auto intro!: signed_wrap simp flip: of_nat_add)
  have t1: "d_ge ops (d_of_int ops (int ?le)) (pcnt p) \<longleftrightarrow> s \<le> 4 * int ?le" using Cons.prems(4) by (simp add: tests(1))
  have t2: "d_ge ops (d_of_int ops (int (length xs) - int ?lt)) (d_sub ops (d_of_int ops (md_cnt p)) (pcnt p)) \<longleftrightarrow> 4 * int ?lt \<le> s"
    using Cons.prems(4,5) tests(2) [of "int (length xs) - int ?lt"] by auto
  have m: "mcnt p + int (count_list xs v) = int ?le" using b(2) Cons.prems(6) by simp
  note il' = il [unfolded m]
  define p1 where "p1 = medianIterate_int ops v (int (count_list xs v)) p"
  have p1: "p1 = (if s \<le> 4 * int ?le
      then if 4 * int ?lt \<le> s then p\<lparr>mn := mn p + 1, riM := riM p + signed_take_bit 31 v, mcnt := int ?le\<rparr> else p\<lparr>md_done := 1, mcnt := int ?le\<rparr>
      else p\<lparr>mcnt := int ?le\<rparr>)"
    using Cons.prems(3) by (simp add: p1_def medianIterate_int_def medianIterate_with_def Let_def il' ir t1 t2 m)
  have fold1: "fold (\<lambda>(e, c). medianIterate_int ops e c) (map (\<lambda>v. (v, int (count_list xs v))) (v # D2)) p =
      fold (\<lambda>(e, c). medianIterate_int ops e c) (map (\<lambda>v. (v, int (count_list xs v))) D2) p1" by (simp add: p1_def)
  show ?case
  proof (cases "s \<le> 4 * int ?le \<and> \<not> 4 * int ?lt \<le> s")
    case True
    have "\<not> sel w" if "w \<in> set (v # D2)" for w
    proof -
      have "v \<le> w" using that Cons.prems(1) by (auto simp: sorted_wrt_append)
      then have "?lt \<le> length (filter (\<lambda>x. x < w) xs)" by (induction xs) auto
      then show ?thesis using True by (simp add: sel_def)
    qed
    then have f: "filter sel (v # D2) = []" by (simp only: filter_empty_conv) blast
    have "p1 = p\<lparr>md_done := 1, mcnt := int ?le\<rparr>" using p1 True by simp
    then show ?thesis unfolding fold1 f by (simp add: fold_done)
  next
    case False
    then have sel: "sel v \<longleftrightarrow> s \<le> 4 * int ?le" by (auto simp: sel_def)
    have "p1 = (if sel v then p\<lparr>mn := mn p + 1, riM := riM p + signed_take_bit 31 v, mcnt := int ?le\<rparr> else p\<lparr>mcnt := int ?le\<rparr>)"
      using p1 False by (simp add: sel)
    moreover from this have "md_done p1 = 0" "pcnt p1 = P" "md_cnt p1 = int (length xs)" "mcnt p1 = int (length (filter (\<lambda>x. x \<in> set (D1 @ [v])) xs))"
      using Cons.prems(3-5) b(3) by simp_all
    ultimately show ?thesis using Cons.IH [of "D1 @ [v]" p1] Cons.prems(1,2) unfolding fold1 by (simp add: Let_def)
  qed
qed (simp add: Let_def)

text \<open>Positions of the sorted list.\<close>

lemma sorted_position:
  fixes ys :: "'a::linorder list"
  assumes "sorted ys" and "i < length ys"
  shows "i < length (filter (\<lambda>x. x \<le> v) ys) \<longleftrightarrow> ys ! i \<le> v" "i < length (filter (\<lambda>x. x < v) ys) \<longleftrightarrow> ys ! i < v"
  using assms
proof (induction ys arbitrary: i)
  case (Cons y ys)
  { case 1
    then have "\<not> y \<le> v \<Longrightarrow> filter (\<lambda>x. x \<le> v) ys = []" "\<And>j. j < length ys \<Longrightarrow> y \<le> ys ! j" by (auto simp: filter_empty_conv)
    with 1 show ?case using Cons.IH(1) [of "i - 1"] by (cases i) (auto intro: order_trans)
  next
    case 2
    then have "\<not> y < v \<Longrightarrow> filter (\<lambda>x. x < v) ys = []" "\<And>j. j < length ys \<Longrightarrow> y \<le> ys ! j" by (auto simp: filter_empty_conv)
    with 2 show ?case using Cons.IH(2) [of "i - 1"] by (cases i) (auto intro: le_less_trans)
  }
qed simp_all

text \<open>The values of \<open>xs\<close> between two adjacent places of the sorted list.\<close>

lemma between_places:
  fixes xs :: "int list"
  assumes "hi < length xs" and "lo \<le> hi" and "hi \<le> Suc lo"
  shows "filter (\<lambda>v. sort xs ! lo \<le> v \<and> v \<le> sort xs ! hi) (sorted_list_of_set (set xs)) =
    (if sort xs ! lo = sort xs ! hi then [sort xs ! lo] else [sort xs ! lo, sort xs ! hi])"
proof -
  let ?a = "sort xs ! lo" and ?b = "sort xs ! hi"
  have le: "?a \<le> ?b" using assms by (intro sorted_nth_mono) auto
  have mem: "?a \<in> set xs" "?b \<in> set xs" using assms nth_mem [of lo "sort xs"] nth_mem [of hi "sort xs"] by auto
  have "v = ?a \<or> v = ?b" if v: "v \<in> set xs" "?a \<le> v" "v \<le> ?b" for v
  proof -
    obtain i where i: "i < length xs" "sort xs ! i = v" using v(1) by (metis in_set_conv_nth length_sort set_sort)
    show ?thesis
    proof (cases "i \<le> lo")
      case True
      then have "v \<le> ?a" using i assms by (auto intro!: sorted_nth_mono)
      with v(2) show ?thesis by simp
    next
      case False
      then have "?b \<le> v" using i assms by (auto intro!: sorted_nth_mono)
      with v(3) show ?thesis by simp
    qed
  qed
  then have "set (filter (\<lambda>v. ?a \<le> v \<and> v \<le> ?b) (sorted_list_of_set (set xs))) = {?a, ?b}" using le mem by auto
  moreover have "sorted_wrt (<) (filter (\<lambda>v. ?a \<le> v \<and> v \<le> ?b) (sorted_list_of_set (set xs)))" by (intro sorted_wrt_filter) simp
  moreover have "sorted_wrt (<) (if ?a = ?b then [?a] else [?a, ?b])" "set (if ?a = ?b then [?a] else [?a, ?b]) = {?a, ?b}" using le by auto
  ultimately show ?thesis by (intro strict_sorted_equal) auto
qed

text \<open>The result for the quartile \<open>q\<close>: one place of the sorted list, or the mean of two places next to each other.\<close>

definition quartile :: "'d double_ops \<Rightarrow> nat \<Rightarrow> int list \<Rightarrow> 'd sql_result" where
  "quartile ops q xs =
     (let n = length xs; a = sort xs ! ((q * n + 3) div 4 - 1); b = sort xs ! (q * n div 4)
      in if a = b then R_int64 a else R_double (d_div ops (d_mul ops (d_of_int ops (a + b)) (d_of_int ops 1)) (d_of_int ops 2)))"

lemma quartile_collected:
  assumes ops: "exact_quarters ops val" and p: "collected ops xs p" "xs \<noteq> []" and n: "int (length xs) < 2 ^ 31" and q: "1 \<le> q" "q \<le> 3"
    and P: "val P = real_of_int (int q * int (length xs)) / 4" and range: "\<And>x. x \<in> set xs \<Longrightarrow> - (2 ^ 31) \<le> x \<and> x < 2 ^ 31"
  shows "percentileFinalize ops (p\<lparr>pcnt := P\<rparr>) = quartile ops q xs"
proof -
  obtain nd where nd: "items nd = table_of xs"
      "p = (mode_zero ops)\<lparr>md_cnt := int (length xs), md_m := Some (Int_map \<lparr>map_base = nd, map_cmp = int_cmp\<rparr>)\<rparr>"
    using p(1) by (auto simp: collected_def)
  let ?n = "length xs" and ?D = "sorted_list_of_set (set xs)" and ?start = "p\<lparr>pcnt := P, md_done := 0\<rparr>"
  let ?lo = "(q * ?n + 3) div 4 - 1" and ?hi = "q * ?n div 4"
  let ?sel = "\<lambda>v. int q * int ?n \<le> 4 * int (length (filter (\<lambda>x. x \<le> v) xs)) \<and> 4 * int (length (filter (\<lambda>x. x < v) xs)) \<le> int q * int ?n"
  have "0 < ?n" using p(2) by simp
  then have "0 < q * ?n" "q * ?n < 4 * ?n" using q by auto
  then have places: "?hi < ?n" "?lo \<le> ?hi" "?hi \<le> Suc ?lo" "?lo < ?n" by linarith+
  have srt: "length (filter P (sort xs)) = length (filter P xs)" for P by (simp add: filter_sort)
  have lo: "int q * int ?n \<le> 4 * int (length (filter (\<lambda>x. x \<le> v) xs)) \<longleftrightarrow> sort xs ! ?lo \<le> v" for v
  proof -
    have "int q * int ?n \<le> 4 * int (length (filter (\<lambda>x. x \<le> v) xs)) \<longleftrightarrow> q * ?n \<le> 4 * length (filter (\<lambda>x. x \<le> v) xs)"
      by (metis of_nat_le_iff of_nat_mult of_nat_numeral)
    also have "\<dots> \<longleftrightarrow> ?lo < length (filter (\<lambda>x. x \<le> v) (sort xs))" unfolding srt using \<open>0 < q * ?n\<close> by linarith
    also have "\<dots> \<longleftrightarrow> sort xs ! ?lo \<le> v" by (rule sorted_position) (use places in simp_all)
    finally show ?thesis .
  qed
  have hi: "4 * int (length (filter (\<lambda>x. x < v) xs)) \<le> int q * int ?n \<longleftrightarrow> v \<le> sort xs ! ?hi" for v
  proof -
    have "4 * int (length (filter (\<lambda>x. x < v) xs)) \<le> int q * int ?n \<longleftrightarrow> 4 * length (filter (\<lambda>x. x < v) xs) \<le> q * ?n"
      by (metis of_nat_le_iff of_nat_mult of_nat_numeral)
    also have "\<dots> \<longleftrightarrow> \<not> ?hi < length (filter (\<lambda>x. x < v) (sort xs))" unfolding srt by linarith
    also have "\<dots> \<longleftrightarrow> \<not> sort xs ! ?hi < v" by (subst sorted_position) (use places in simp_all)
    finally show ?thesis by (simp only: linorder_not_less)
  qed
  have S: "filter ?sel ?D = (if sort xs ! ?lo = sort xs ! ?hi then [sort xs ! ?lo] else [sort xs ! ?lo, sort xs ! ?hi])"
    unfolding lo hi by (rule between_places) (use places in simp_all)
  have tests: "d_ge ops (d_of_int ops k) P \<longleftrightarrow> int q * int ?n \<le> 4 * k"
      "d_ge ops (d_of_int ops k) (d_sub ops (d_of_int ops (int ?n)) P) \<longleftrightarrow> 4 * int ?n - int q * int ?n \<le> 4 * k" if "0 \<le> k" "k \<le> int ?n" for k
    using quarter_tests [OF ops P, of k] n q that by simp_all
  let ?p = "fold (\<lambda>(e, c). medianIterate_int ops e c) (map (\<lambda>v. (v, int (count_list xs v))) ?D) ?start"
  have f: "mn ?p = int (length (filter ?sel ?D))" "riM ?p = sum_list (map (signed_take_bit 31) (filter ?sel ?D))" "is_double ?p = 0"
    using median_fold [OF tests n, where ?D1.0 = "[]" and ?D2.0 = ?D and p = ?start] nd(2) by (simp_all add: mode_zero_def Let_def)
  define a b where "a = sort xs ! ?lo" and "b = sort xs ! ?hi"
  have w: "signed_take_bit 31 (sort xs ! i) = sort xs ! i" if "i < ?n" for i
    using range [of "sort xs ! i"] that nth_mem [of i "sort xs"] by (intro signed_take_bit_int_eq_self) auto
  have sums: "mn ?p = (if a = b then 1 else 2)" "riM ?p = (if a = b then a else a + b)"
    unfolding f S a_def b_def using w places by simp_all
  have "map_iterate (medianIterate_int ops) \<lparr>map_base = nd, map_cmp = int_cmp\<rparr> ?start = ?p"
    by (simp add: map_iterate_def node_iterate_items nd(1) table_of_def)
  moreover have "md_m (p\<lparr>pcnt := P\<rparr>) = Some (Int_map \<lparr>map_base = nd, map_cmp = int_cmp\<rparr>)" using nd(2) by simp
  ultimately have "percentileFinalize ops (p\<lparr>pcnt := P\<rparr>) =
      (if 1 = mn ?p then R_int64 (riM ?p) else R_double (d_div ops (d_mul ops (d_of_int ops (riM ?p)) (d_of_int ops 1)) (d_of_int ops (mn ?p))))"
    unfolding percentileFinalize_def using f(3) by (simp only: option.case Let_def hist.case ModeCtx.simps if_True simp_thms)
  also have "\<dots> = quartile ops q xs" unfolding sums quartile_def Let_def a_def [symmetric] b_def [symmetric] by simp
  finally show ?thesis .
qed

section \<open>Variance\<close>

fun variance_steps :: "'d double_ops \<Rightarrow> 'd StdevCtx option \<Rightarrow> 'd sqlite3_value list \<Rightarrow> 'd StdevCtx option" where
  "variance_steps ops ctx [] = ctx"
| "variance_steps ops ctx (v # vs) = variance_steps ops (varianceStep ops ctx v) vs"

text \<open>Arithmetic without rounding.\<close>

definition real_ops :: "real double_ops" where
  "real_ops = \<lparr>d_of_int = of_int, d_add = (+), d_sub = (-), d_mul = (*), d_div = (/), d_sqrt = sqrt, d_eq = (=), d_less = (<), d_ge = (\<ge>)\<rparr>"

definition mean :: "real list \<Rightarrow> real" where
  "mean xs = sum_list xs / real (length xs)"

definition sum_squares :: "real list \<Rightarrow> real" where
  "sum_squares xs = sum_list (map (\<lambda>x. (x - mean xs)\<^sup>2) xs)"

definition moments :: "real list \<Rightarrow> real StdevCtx" where
  "moments xs = \<lparr>rM = mean xs, rS = sum_squares xs, sd_cnt = int (length xs)\<rparr>"

lemma sum_squares_alt: "sum_squares xs = sum_list (map (\<lambda>x. x\<^sup>2) xs) - real (length xs) * (mean xs)\<^sup>2"
proof -
  have "sum_list (map (\<lambda>x. (x - m)\<^sup>2) xs) = sum_list (map (\<lambda>x. x\<^sup>2) xs) - 2 * m * sum_list xs + real (length xs) * m\<^sup>2" for m :: real
    by (induction xs) (auto simp: power2_eq_square algebra_simps)
  from this [of "mean xs"] show ?thesis
    by (cases "xs = []") (auto simp: sum_squares_def mean_def power2_eq_square field_simps)
qed

lemma moments_step:
  fixes x :: real and xs :: "real list"
  defines "n \<equiv> real (length xs)" and "m \<equiv> mean xs"
  defines "m' \<equiv> m + (x - m) / (n + 1)"
  shows "mean (x # xs) = m'" "sum_squares (x # xs) = sum_squares xs + (x - m) * (x - m')"
proof -
  have s: "sum_list xs = n * m" by (cases "xs = []") (simp_all add: n_def m_def mean_def)
  have n0: "n + 1 \<noteq> 0" by (simp add: n_def add_eq_0_iff)
  have m': "(n + 1) * m' = n * m + x" using n0 unfolding m'_def by (simp add: field_simps)
  then show mean: "mean (x # xs) = m'" using s n0 by (simp add: mean_def n_def field_simps)
  have "sum_squares (x # xs) = x\<^sup>2 + sum_list (map (\<lambda>x. x\<^sup>2) xs) - (n + 1) * m'\<^sup>2"
    by (simp add: sum_squares_alt mean n_def algebra_simps)
  also have "\<dots> = sum_squares xs + (x\<^sup>2 + n * m\<^sup>2 - (n + 1) * m'\<^sup>2)" by (simp add: sum_squares_alt n_def m_def)
  also have "x\<^sup>2 + n * m\<^sup>2 - (n + 1) * m'\<^sup>2 = (x - m) * (x - m')"
  proof -
    have "(n + 1) * m'\<^sup>2 = (n * m + x) * m'" using m' by (simp add: power2_eq_square mult.assoc [symmetric])
    moreover have "m * ((n + 1) * m') = m * (n * m + x)" by (simp only: m')
    ultimately show ?thesis by (simp add: power2_eq_square algebra_simps)
  qed
  finally show "sum_squares (x # xs) = sum_squares xs + (x - m) * (x - m')" by simp
qed

lemma variance_run:
  "variance_steps real_ops (Some (moments xs)) vs =
     Some (moments (rev (map value_double (filter (\<lambda>v. value_numeric_type v \<noteq> SQLITE_NULL) vs)) @ xs))"
proof (induction vs arbitrary: xs)
  case (Cons v vs)
  have "varianceStep real_ops (Some (moments xs)) v = Some (moments (if value_numeric_type v \<noteq> SQLITE_NULL then value_double v # xs else xs))"
    using moments_step [of "value_double v" xs] by (simp add: varianceStep_def moments_def real_ops_def Let_def add.commute)
  then show ?case using Cons.IH by simp
qed simp

lemma moments_rev: "moments (rev xs) = moments xs"
proof -
  have "sum_list (map f (rev xs)) = sum_list (map f xs)" for f :: "real \<Rightarrow> real" by (induction xs) simp_all
  from this [of "\<lambda>x. x"] this [of "\<lambda>x. (x - mean xs)\<^sup>2"] show ?thesis by (simp add: moments_def mean_def sum_squares_def)
qed

lemma variance_rows:
  "vs \<noteq> [] \<Longrightarrow> variance_steps real_ops None vs = Some (moments (map value_double (filter (\<lambda>v. value_numeric_type v \<noteq> SQLITE_NULL) vs)))"
proof -
  have z: "moments [] = stdev_zero real_ops" by (simp add: moments_def mean_def sum_squares_def stdev_zero_def real_ops_def)
  assume "vs \<noteq> []"
  then have "variance_steps real_ops None vs = variance_steps real_ops (Some (moments [])) vs"
    by (cases vs) (simp_all add: varianceStep_def z)
  also have "\<dots> = Some (moments (rev (map value_double (filter (\<lambda>v. value_numeric_type v \<noteq> SQLITE_NULL) vs))))" by (simp add: variance_run)
  finally show ?thesis by (simp only: moments_rev)
qed

definition sample_row :: "int \<Rightarrow> real sqlite3_value" where
  "sample_row n = \<lparr>value_type = SQLITE_INTEGER, value_numeric_type = SQLITE_INTEGER, value_text = None, value_bytes = 0, value_int = n, value_int64 = n,
     value_double = of_int n\<rparr>"

lemma sample_rows: "int_rows [sample_row 3, sample_row 8, sample_row 3, sample_row 4] [3, 8, 3, 4]"
  by (simp add: int_rows_def sample_row_def SQLITE_INTEGER_def SQLITE_NULL_def)

section \<open>Properties\<close>

text \<open>C23: The tree of the aggregates is a table of occurrences: when values are inserted one after the other with a three-way comparison and memory is available,
  \<^verbatim>\<open>map_iterate\<close> visits each distinct value once, in increasing order, with the number of times it was inserted, whatever the order of the insertions.\<close>

theorem ext_map_table:
  fixes xs :: "int list"
  shows "\<exists>n. foldl (\<lambda>m x. case m of None \<Rightarrow> None | Some h \<Rightarrow> map_insert True h x) (Some (map_make int_cmp)) xs = Some \<lparr>map_base = n, map_cmp = int_cmp\<rparr> \<and>
    (\<forall>iter (p :: 'p). map_iterate iter \<lparr>map_base = n, map_cmp = int_cmp\<rparr> p =
       fold (\<lambda>v p. iter v (int (count_list xs v)) p) (sorted_list_of_set (set xs)) p)"
proof -
  obtain h where h: "foldl (\<lambda>m x. case m of None \<Rightarrow> None | Some h \<Rightarrow> map_insert True h x) (Some (map_make int_cmp)) xs = Some h"
      "map_cmp h = int_cmp" "items (map_base h) = table_of (rev xs)"
    using int_store.ins_all [of xs] by blast
  then obtain n where n: "h = \<lparr>map_base = n, map_cmp = int_cmp\<rparr>" "items n = table_of (rev xs)" by (cases h) simp
  have "map_iterate iter \<lparr>map_base = n, map_cmp = int_cmp\<rparr> p = fold (\<lambda>v p. iter v (int (count_list xs v)) p) (sorted_list_of_set (set xs)) p" for iter and p :: 'p
    by (simp add: map_iterate_def node_iterate_items n(2) table_of_def fold_map o_def)
  with h(1) n(1) show ?thesis by blast
qed

text \<open>C32: \<^verbatim>\<open>mode\<close> over rows of which the first one that is not NULL is an integer gives the value that occurs more often than every other one, cut to its low 32 bits
  (exact for values of 32 bits), and no result when several values share the highest number of occurrences.\<close>

theorem ext_mode:
  assumes "int_rows vs xs"
  shows "\<exists>ctx. mode_steps ops (\<lambda>_. True) None vs = Some ctx \<and>
    modeFinalize ctx = (case winners xs of [v] \<Rightarrow> R_int64 (signed_take_bit 31 v) | _ \<Rightarrow> R_none)"
  using int_rows_collected [OF assms, of ops] mode_collected by metis

theorem ext_mode_witness:
  "\<exists>ctx. mode_steps real_ops (\<lambda>_. True) None [sample_row 3, sample_row 8, sample_row 3, sample_row 4] = Some ctx \<and> modeFinalize ctx = R_int64 3"
proof -
  have "winners [3, 8, 3, 4] = [3]" by code_simp
  then show ?thesis using ext_mode [OF sample_rows, of real_ops] by simp
qed

text \<open>C19: \<^verbatim>\<open>median\<close>, \<^verbatim>\<open>lower_quartile\<close> and \<^verbatim>\<open>upper_quartile\<close> of integers of 32 bits are the value at the quartile's place of the sorted list of all values, or the mean of
  the two values around it, given that arithmetic of doubles is exact on multiples of a quarter.\<close>

theorem ext_quartiles:
  assumes "exact_quarters ops val" and "int_rows vs xs" and "int (length xs) < 2 ^ 31" and "list_all (\<lambda>x. - (2 ^ 31) \<le> x \<and> x < 2 ^ 31) xs"
  shows "\<exists>ctx. mode_steps ops (\<lambda>_. True) None vs = Some ctx \<and> lower_quartileFinalize ops ctx = quartile ops 1 xs \<and>
    medianFinalize ops ctx = quartile ops 2 xs \<and> upper_quartileFinalize ops ctx = quartile ops 3 xs"
proof -
  obtain p where p: "mode_steps ops (\<lambda>_. True) None vs = Some (Some p)" "collected ops xs p" "xs \<noteq> []" using int_rows_collected [OF assms(2)] by blast
  then have cnt: "md_cnt p = int (length xs)" by (auto simp: collected_def)
  note r = quartile_collected [OF assms(1) p(2,3) assms(3)] and v = quarter_pcnt [OF assms(1)]
  have b: "\<bar>int (length xs)\<bar> < 2 ^ 51" "\<bar>int (length xs) * 3\<bar> < 2 ^ 51" using assms(3) by auto
  have range: "- (2 ^ 31) \<le> x \<and> x < 2 ^ 31" if "x \<in> set xs" for x using assms(4) that by (simp add: list_all_iff)
  show ?thesis
    using p(1) r [of 1] r [of 2] r [of 3] v [OF b(1), of 4] v [OF b(1), of 2] v [OF b(2), of 4] range
    by (simp add: lower_quartileFinalize_def medianFinalize_def upper_quartileFinalize_def cnt mult.commute)
qed

lemma real_exact: "exact_quarters real_ops (\<lambda>x. x)"
  by (simp add: exact_quarters_def real_ops_def)

theorem ext_quartiles_witness:
  "\<exists>ctx. mode_steps real_ops (\<lambda>_. True) None [sample_row 3, sample_row 8, sample_row 3, sample_row 4] = Some ctx \<and>
    lower_quartileFinalize real_ops ctx = R_int64 3 \<and> medianFinalize real_ops ctx = R_double (7 / 2)"
  using ext_quartiles [OF real_exact sample_rows] by (auto simp: quartile_def real_ops_def)

text \<open>C24: \<^verbatim>\<open>variance\<close> and \<^verbatim>\<open>stdev\<close> compute in one pass, apart from the rounding of doubles, the sum of the squared distances from the mean divided by one less than the number
  of the values that are not NULL, and its square root; 0 for fewer than two values.\<close>

theorem ext_variance:
  assumes "vs \<noteq> []"
  defines "xs \<equiv> map value_double (filter (\<lambda>v. value_numeric_type v \<noteq> SQLITE_NULL) vs)"
  shows "varianceFinalize real_ops (variance_steps real_ops None vs) = R_double (if 1 < length xs then sum_squares xs / (real (length xs) - 1) else 0) \<and>
    stdevFinalize real_ops (variance_steps real_ops None vs) = R_double (if 1 < length xs then sqrt (sum_squares xs / (real (length xs) - 1)) else 0)"
  unfolding variance_rows [OF assms(1)] xs_def [symmetric] by (simp add: varianceFinalize_def stdevFinalize_def moments_def real_ops_def)

theorem ext_variance_witness:
  "varianceFinalize real_ops (variance_steps real_ops None [sample_row 3, sample_row 5]) = R_double 2"
  using ext_variance [of "[sample_row 3, sample_row 5]"]
  by (simp add: sample_row_def SQLITE_INTEGER_def SQLITE_NULL_def sum_squares_def mean_def)

end
