(* ===== verification/Ext_Registry.thy ===== *)
theory Ext_Registry
  imports Ext_Aggregates
begin

text \<open>
  The mathematical functions of \<^verbatim>\<open>extensionfunctions.c\<close>, the tables of all its functions and their registration, which the \<^verbatim>\<open>sqlite3_open\<close> functions of
  \<^verbatim>\<open>sqlite3secure.c\<close> call on a new connection. The mathematical library is an argument; a function of it gives its value and \<^verbatim>\<open>errno\<close>.
\<close>

section \<open>Mathematical functions\<close>













section \<open>The tables\<close>





section \<open>Registration\<close>
















section \<open>Properties\<close>





end
