(* ===== verification/Spec2Isabelle.thy ===== *)
theory Spec2Isabelle
  imports CodecExt Fts3_Hash Character_Tokenizer Regex_Cache Html_Document Ext_Text Ext_Registry
begin

text \<open>
  \<^bold>\<open>A verification of the C code that SQLite_Custom adds to SQLite.\<close>

  The repository builds SQLite for Android with database encryption, further full-text tokenizers, a
  \<^verbatim>\<open>REGEXP\<close> function and a library of SQL functions. The code of its own is under \<^verbatim>\<open>src/sqlite-android/src/main/jni/sqlite/\<close>; file names below
  are relative to that directory. \<^verbatim>\<open>sqlite3secure.c\<close> compiles the SQLite amalgamation together with
  \<^verbatim>\<open>rijndael.c\<close>, \<^verbatim>\<open>codec.c\<close> and \<^verbatim>\<open>codecext.c\<close>; SQLite calls the page hook \<^verbatim>\<open>sqlite3Codec\<close> of \<^verbatim>\<open>codecext.c\<close> for each
  page that it reads or writes, the hook encrypts or decrypts the page with \<^verbatim>\<open>codec.c\<close>, and that file uses
  the ciphers and digests of \<^verbatim>\<open>rijndael.c\<close>, \<^verbatim>\<open>sha2.c\<close> and its own RC4 and MD5.

  \<^bold>\<open>The theories.\<close>

  \<^item> \<open>Prelude\<close>: octet strings, 32-bit and 64-bit words, reading (\<open>rd\<close>) and writing (\<open>wr\<close>) a region of a
    memory that is a list of octets, and the lemmas on them that the components share.
  \<^item> \<open>Rijndael_Tables\<close>, \<open>Rijndael\<close>, \<open>Rijndael_Modes\<close> (\<^verbatim>\<open>rijndael.c\<close>, \<^verbatim>\<open>rijndael.h\<close>): the fifteen tables, the session
    record, \<open>RijndaelInit\<close> with the key schedule, the two block transformations, and the buffer operations
    in ECB, CBC and CFB1 mode with and without padding. Shown: the tables are the products of the
    S-box, the round keys are the FIPS-197 expansion, decryption inverts encryption (blocks, buffers in
    place, padded messages), the error codes, and what ECB padding and CFB1 do wrong.
  \<^item> \<open>Hash_Stream\<close>: the interface of a digest that takes a message in pieces, as a locale; its consequence is
    that the pieces do not matter. \<open>MD5\<close> (the MD5 part of \<^verbatim>\<open>codec.c\<close>) and \<open>SHA2\<close> (\<^verbatim>\<open>sha2.c\<close>) interpret it;
    each is proved equal to a reference that pads and compresses the whole message, with the bit counters
    at their width.
  \<^item> \<open>RC4\<close> (\<^verbatim>\<open>CodecRC4\<close>): equality with the permutation generator, and that it is its own inverse.
  \<^item> \<open>Codec\<close> (\<^verbatim>\<open>codec.c\<close>, \<^verbatim>\<open>codec.h\<close>): the record \<open>Codec\<close>, its accessors, key derivation, the key and initial vector
    of a page, encryption and decryption of a page with the treatment of the file header of page 1, for
    both values of \<^verbatim>\<open>CODEC_TYPE\<close>. Shown: page round trips, when the header is put back, the derived key
    against a reference, the arithmetic of \<open>MODMULT\<close> within 32 bits, the invariant of the record.
  \<^item> \<open>CodecExt\<close> (\<^verbatim>\<open>codecext.c\<close>, \<^verbatim>\<open>sqlite3secure.c\<close>): the page hook, and \<open>sqlite3_key_v2\<close> and \<open>sqlite3_rekey_v2\<close> on a
    heap of codecs with one slot per pager. Shown: \<open>sqlite3_rekey_v2\<close> refines a specification on the keys of the
    databases, each reachable state of a connection has a live codec of its own per pager and no
    undefined behaviour next (rule induction over \<open>conn_reach\<close>), pages survive a change of key, and what
    is lost on errors.
  \<^item> \<open>Fts3_Hash\<close> (\<^verbatim>\<open>fts3_hash.c\<close>, \<^verbatim>\<open>fts3_hash.h\<close>): the hash table of the full-text module with its elements on a heap, a
    doubly linked list of which each bucket is a contiguous part. The locale \<open>replaceable_map\<close> states the
    interface; its interpretation is the refinement of finite maps. Allocation failures are arguments.
  \<^item> \<open>Character_Tokenizer\<close> (\<^verbatim>\<open>tokenizers/character/character_tokenizer.c\<close>): the tokenizer module functions; the
    tokens of an input are its UTF-8 characters.
  \<^item> \<open>Regex_Cache\<close> (\<^verbatim>\<open>regex/regex.c\<close>): the cache of compiled patterns and its mutex; the cache changes no result,
    but a pattern with an error leaves the mutex locked.

  \<^item> \<open>Unicode_Tables\<close>, \<open>Utf8_Codec\<close>, \<open>Html_Tokenizer\<close>, \<open>Html_Next\<close>, \<open>Html_Tags\<close>, \<open>Html_Document\<close>
    (\<^verbatim>\<open>tokenizers/html/fts3_html_tokenizer.c\<close> and the Unicode and UTF-8 parts it copies from SQLite): the tables of
    alphanumeric codes, folding and diacritics, reading and writing UTF-8, creation of a tokenizer
    from its arguments with the exception list, and \<open>htmlNext\<close> with the skipping of tags. Shown: the binary searches
    agree with the tables, UTF-8 round trips, the list of exceptions stays sorted, the tokens of a whole document, that the
    loops return on every input, and the buffer of a token.
  \<^item> \<open>Ext_Utf8\<close>, \<open>Ext_Strings\<close>, \<open>Ext_Text_Loops\<close>, \<open>Ext_Text\<close>, \<open>Ext_Aggregates\<close>, \<open>Ext_Registry\<close> (\<^verbatim>\<open>extensionfunctions.c\<close>, which is
    compiled when \<^verbatim>\<open>SQLITE_ENABLE_EXTFUNC\<close> is defined): the UTF-8 helpers, the scalar functions on texts, the
    aggregates (a binary search tree counts the values) and the table by which the functions are
    registered. Shown: on UTF-8 text each text function computes its counterpart on lists of characters, the padding
    functions, where 32-bit sizes overflow and where reads pass the end, the tree refines the multiset of the values
    (locale \<open>occurrence_store\<close>), mode, quartiles and variance against their definitions, and the types of the registry.

  \<^bold>\<open>How the code is translated.\<close> A C structure is a record, memory that several calls share is a list of
  octets or a map from addresses, \<^verbatim>\<open>unsigned char\<close> and \<^verbatim>\<open>unsigned int\<close> values are words of 8 and 32 bits, and
  results that may be error codes are integers or datatypes with the names of the source. What is not in
  the sources is an argument: the byte order of the machine and the signedness of \<^verbatim>\<open>char\<close>, whether an
  allocation succeeds, the return codes of the B-tree and pager calls, and the PCRE functions.

  \<^bold>\<open>Loops and bounds.\<close> Loops over a counter are recursive functions with a termination proof. The walks over the
  linked list of the hash table, which need not end on a list that is not well formed, are
  \<open>partial_function (option)\<close>, and the theorems state that they return. The key schedule has a fuel of
  \<open>m_uRounds + 1\<close> turns, which is enough because every turn fills at least one of the
  \<open>m_uRounds + 1\<close> round keys; \<open>rijndael_key_expansion\<close> shows that it ends. Pages have at
  least 32 octets in the theorems on page encryption, as page 1 is encrypted in two parts of at least one
  cipher block; a page of SQLite has at least 512.

  \<^bold>\<open>Not modelled.\<close> The SQLite amalgamation \<^verbatim>\<open>sqlite3.c\<close> and \<^verbatim>\<open>pcre-8.38\<close> are third-party code that the modelled
  code calls. The stemmers under \<^verbatim>\<open>libstemmer/src_c\<close> are generated. The C++ and Java layers are
  bindings. \<^verbatim>\<open>fts3_html_tokenizer.c\<close>, the string and aggregate functions of \<^verbatim>\<open>extensionfunctions.c\<close> and the
  runtime of the stemmers (\<^verbatim>\<open>libstemmer/runtime/utilities.c\<close>) have no model yet. That freed memory is
  overwritten, and timing, are outside the model.
\<close>

end
